(* ===== verification/Prelude.thy ===== *)
theory Prelude
  imports Main "HOL-Library.Word" "HOL-Library.List_Lexorder" "HOL-Library.AList"
    "HOL-Library.Multiset"
begin

text \<open>
  What the components of the foundational store share: the machine types the Go code
  uses (\<open>[]byte\<close>, \<open>uint64\<close>), Go's error values and the ways a call can fail to return
  one, result types, the collections of simplification rules, and generic facts on
  association lists (Go maps), folds of updates and list updates.
\<close>

section \<open>Types\<close>

type_synonym byte = "8 word"
type_synonym bytes = "8 word list"
type_synonym u64 = "64 word"

text \<open>
  Error values.  \<open>Err\<close> is \<open>errors.New\<close> or a \<open>fmt.Errorf\<close> without \<open>%w\<close>, \<open>Wrap\<close> a
  \<open>fmt.Errorf("...: %w", err)\<close>; the two sentinels the code compares with are
  \<open>badger.ErrKeyNotFound\<close> and \<open>sql.ErrNoRows\<close>; \<open>Status\<close> is a gRPC status error and
  \<open>Ext\<close> any other error value that a library returns.
\<close>

datatype error =
    Err string
  | Wrap string error
  | ErrKeyNotFound
  | ErrNoRows
  | Status string string
  | Ext string

text \<open>\<open>errors.Is\<close>: the error or one it wraps is the target.\<close>

fun errors_is :: "error \<Rightarrow> error \<Rightarrow> bool" where
  "errors_is (Wrap m e) t = (Wrap m e = t \<or> errors_is e t)"
| "errors_is e t = (e = t)"

text \<open>
  A call that does not return a value returns an error, panics, or never returns
  (a goroutine blocked for ever on a channel).
\<close>

datatype fail = Error error | Panic string | Blocked

type_synonym 'a res = "fail + 'a"

definition nil_panic :: fail where
  "nil_panic = Panic ''invalid memory address or nil pointer dereference''"

definition nil_deref :: "'a res" where
  "nil_deref = Inl nil_panic"

definition index_panic :: "'a res" where
  "index_panic = Inl (Panic ''index out of range'')"

text \<open>A plain \<open>(value, error)\<close> pair of a library as a result; \<open>wrap\<close> is the caller's \<open>%w\<close>.\<close>

fun of_err :: "error + 'a \<Rightarrow> 'a res" where
  "of_err (Inl e) = Inl (Error e)"
| "of_err (Inr a) = Inr a"

fun wrap_res :: "string \<Rightarrow> 'a res \<Rightarrow> 'a res" where
  "wrap_res m (Inl (Error e)) = Inl (Error (Wrap m e))"
| "wrap_res m (Inl f) = Inl f"
| "wrap_res m (Inr a) = Inr a"

fun bind_res :: "'a res \<Rightarrow> ('a \<Rightarrow> 'b res) \<Rightarrow> 'b res" where
  "bind_res (Inl f) g = Inl f"
| "bind_res (Inr a) g = g a"

section \<open>Collections of rules\<close>

named_theorems res_simps \<open>evaluation and inversion of results\<close>
named_theorems api_laws \<open>consequences of the documented behaviour of libraries\<close>
named_theorems inv_intros \<open>preservation of invariants\<close>

lemma nil_deref_not_ok [simp]: "nil_deref \<noteq> Inr a" "Inr a \<noteq> nil_deref"
  by (simp_all add: nil_deref_def)

lemma index_panic_not_ok [simp]: "index_panic \<noteq> Inr a" "Inr a \<noteq> index_panic"
  by (simp_all add: index_panic_def)

lemma nil_deref_not_error [simp]: "nil_deref \<noteq> Inl (Error e)"
  by (simp add: nil_deref_def nil_panic_def)

lemma of_err_ok_iff [res_simps]: "of_err r = Inr a \<longleftrightarrow> r = Inr a"
  by (cases r) auto

lemma of_err_fail_iff [res_simps]: "of_err r = Inl f \<longleftrightarrow> (\<exists>e. f = Error e \<and> r = Inl e)"
  by (cases r) auto

lemma wrap_res_ok_iff [res_simps]: "wrap_res m r = Inr a \<longleftrightarrow> r = Inr a"
  by (cases "(m, r)" rule: wrap_res.cases) auto

lemma wrap_res_Inl [simp]: "wrap_res m (Inl f) \<noteq> Inr a"
  by (cases f) auto

lemma wrap_res_error_iff [res_simps]:
  "wrap_res m r = Inl (Error e) \<longleftrightarrow> (\<exists>e'. e = Wrap m e' \<and> r = Inl (Error e'))"
  by (cases "(m, r)" rule: wrap_res.cases) auto

lemma bind_res_ok_iff [res_simps]: "bind_res r g = Inr b \<longleftrightarrow> (\<exists>a. r = Inr a \<and> g a = Inr b)"
  by (cases r) auto

lemma bind_res_split:
  "P (bind_res r g) \<longleftrightarrow> (\<forall>f. r = Inl f \<longrightarrow> P (Inl f)) \<and> (\<forall>a. r = Inr a \<longrightarrow> P (g a))"
  by (cases r) auto

lemma errors_is_refl [simp]: "errors_is e e"
  by (cases e) auto

section \<open>Go maps as association lists\<close>

text \<open>
  A Go map is a list of pairs with distinct keys.  Its order stands for nothing: where
  the code ranges over a map, the model ranges over a permutation of the list chosen by
  an argument (Go leaves the order unspecified).
\<close>

abbreviation distinct_keys :: "('k \<times> 'v) list \<Rightarrow> bool" where
  "distinct_keys m \<equiv> distinct (map fst m)"

definition map_order :: "(('k \<times> 'v) list \<Rightarrow> ('k \<times> 'v) list) \<Rightarrow> bool" where
  "map_order ord \<longleftrightarrow> (\<forall>m. mset (ord m) = mset m)"

lemma map_order_id [simp]: "map_order (\<lambda>m. m)"
  by (simp add: map_order_def)

lemma map_order_rev [simp]: "map_order rev"
  by (simp add: map_order_def)

lemma map_order_set: "map_order ord \<Longrightarrow> set (ord m) = set m"
  by (metis map_order_def mset_eq_setD)

lemma map_order_distinct_keys:
  assumes "map_order ord"
  shows "distinct_keys (ord m) = distinct_keys m"
proof -
  have "mset (map fst (ord m)) = mset (map fst m)"
    using assms by (simp add: map_order_def)
  then show ?thesis by (rule mset_eq_imp_distinct_iff)
qed

lemma map_order_map_of:
  assumes "map_order ord" and "distinct_keys m"
  shows "map_of (ord m) = map_of m"
  by (metis assms map_of_inject_set map_order_distinct_keys map_order_set)

lemma distinct_keys_update [simp]: "distinct_keys m \<Longrightarrow> distinct_keys (AList.update k v m)"
  by (rule distinct_update)

lemma distinct_keys_delete [simp]: "distinct_keys m \<Longrightarrow> distinct_keys (AList.delete k m)"
  by (rule distinct_delete)

lemma map_of_update [simp]: "map_of (AList.update k v m) = (map_of m)(k \<mapsto> v)"
  by (simp add: update_conv')

lemma map_of_delete [simp]: "map_of (AList.delete k m) = (map_of m)(k := None)"
  by (simp add: delete_conv')

text \<open>Deleting a list of keys, one \<open>delete(m, key)\<close> after the other.\<close>

lemma map_of_fold_delete:
  "map_of (fold AList.delete ks m) k = (if k \<in> set ks then None else map_of m k)"
  by (induction ks arbitrary: m) auto

lemma distinct_keys_fold_delete [simp]:
  "distinct_keys m \<Longrightarrow> distinct_keys (fold AList.delete ks m)"
  by (induction ks arbitrary: m) auto

section \<open>Sequences of writes\<close>

text \<open>The map after a list of writes, in order.\<close>

definition apply_sets :: "('k \<times> 'v) list \<Rightarrow> ('k \<Rightarrow> 'v option) \<Rightarrow> 'k \<Rightarrow> 'v option" where
  "apply_sets ps m = m ++ map_of (rev ps)"

lemma apply_sets_Nil [simp]: "apply_sets [] m = m"
  by (simp add: apply_sets_def)

lemma apply_sets_Cons [simp]: "apply_sets ((k, v) # ps) m = apply_sets ps (m(k \<mapsto> v))"
  by (simp add: apply_sets_def)

lemma apply_sets_append [simp]: "apply_sets (ps @ qs) m = apply_sets qs (apply_sets ps m)"
  by (simp add: apply_sets_def)

lemma apply_sets_other: "k \<notin> fst ` set ps \<Longrightarrow> apply_sets ps m k = m k"
  by (simp add: apply_sets_def map_add_dom_app_simps(3) dom_map_of_conv_image_fst)

lemma apply_sets_in: "k \<in> fst ` set ps \<Longrightarrow> apply_sets ps m k = map_of (rev ps) k"
  by (simp add: apply_sets_def map_add_dom_app_simps(1) dom_map_of_conv_image_fst)

lemma apply_sets_eq:
  "apply_sets ps m k = (case map_of (rev ps) k of None \<Rightarrow> m k | Some v \<Rightarrow> Some v)"
  by (simp add: apply_sets_def map_add_def)

lemma apply_sets_None: "apply_sets ps m k = None \<Longrightarrow> m k = None"
  by (simp add: apply_sets_eq split: option.splits)

lemma apply_sets_fold: "apply_sets ps m = fold (\<lambda>(k, v) m. m(k \<mapsto> v)) ps m"
  by (induction ps arbitrary: m) auto

lemma apply_sets_perm:
  assumes "mset ps = mset qs" and "distinct_keys ps"
  shows "apply_sets ps m = apply_sets qs m"
proof -
  have dq: "distinct_keys qs"
    using assms by (metis mset_eq_imp_distinct_iff mset_map)
  have s: "set (rev ps) = set (rev qs)" using assms(1) by (metis mset_eq_setD set_rev)
  have "map_of (rev ps) = map_of (rev qs)"
    by (rule map_of_inject_set [THEN iffD2])
      (use s assms(2) dq in \<open>auto simp: rev_map [symmetric]\<close>)
  then show ?thesis by (simp add: apply_sets_def)
qed

end
