(* ===== verification/Bytes.thy ===== *)
theory Bytes
  imports Prelude
begin

text \<open>
  The byte-level functions of Go's standard library that the stores use:
  \<open>binary.BigEndian.PutUint64\<close> and \<open>Uint64\<close>, \<open>bytes.Compare\<close>, and the prefix test of an
  iterator.  The order on \<^typ>\<open>bytes\<close> is the lexicographic one (List_Lexorder over the
  unsigned order of bytes), which is what \<open>bytes.Compare\<close> decides.
\<close>

section \<open>Big-endian encoding of a uint64\<close>

definition putUint64 :: "u64 \<Rightarrow> bytes" where
  "putUint64 v =
     [ucast (drop_bit 56 v), ucast (drop_bit 48 v), ucast (drop_bit 40 v), ucast (drop_bit 32 v),
      ucast (drop_bit 24 v), ucast (drop_bit 16 v), ucast (drop_bit 8 v), ucast v]"

definition getUint64 :: "bytes \<Rightarrow> u64" where
  "getUint64 b = foldl (\<lambda>a x. push_bit 8 a + ucast x) 0 (take 8 b)"

text \<open>The same bytes as the digits of a number in base 256, most significant first.\<close>

fun be_digits :: "nat \<Rightarrow> nat \<Rightarrow> bytes" where
  "be_digits 0 x = []"
| "be_digits (Suc n) x = word_of_nat (x div 256 ^ n) # be_digits n x"

lemma length_be_digits [simp]: "length (be_digits n x) = n"
  by (induction n) auto

lemma word8_of_nat_eq_iff: "(word_of_nat x :: byte) = word_of_nat y \<longleftrightarrow> x mod 256 = y mod 256"
  by (simp add: word_unat_eq_iff unat_of_nat)

lemma be_digits_mod: "n \<le> m \<Longrightarrow> be_digits n (x mod 256 ^ m) = be_digits n x"
proof (induction n)
  case (Suc n)
  then obtain d where m: "m = n + Suc d" by (metis Suc_le_D add_Suc_right le_Suc_ex Suc_leD add_Suc)
  have "x mod 256 ^ m div 256 ^ n = (x div 256 ^ n) mod 256 ^ Suc d"
    unfolding m power_add by (simp add: mod_mult2_eq)
  then have "x mod 256 ^ m div 256 ^ n mod 256 = x div 256 ^ n mod 256"
    by (simp add: mod_mod_cancel)
  with Suc show ?case by (simp add: word8_of_nat_eq_iff)
qed simp

lemma less_iff_div_mod:
  assumes "0 < (B::nat)"
  shows "x < y \<longleftrightarrow> x div B < y div B \<or> x div B = y div B \<and> x mod B < y mod B"
proof (cases "x div B" "y div B" rule: linorder_cases)
  case less
  then have "\<not> y \<le> x" by (meson div_le_mono leD)
  with less show ?thesis by simp
next
  case equal
  have "x = B * (x div B) + x mod B" "y = B * (y div B) + y mod B" by simp_all
  with equal show ?thesis by (metis less_irrefl nat_add_left_cancel_less)
next
  case greater
  then have "\<not> x \<le> y" by (meson div_le_mono leD)
  with greater show ?thesis by simp
qed

lemma be_digits_less_iff:
  assumes "x < 256 ^ n" and "y < 256 ^ n"
  shows "be_digits n x < be_digits n y \<longleftrightarrow> x < y"
  using assms
proof (induction n arbitrary: x y)
  case (Suc n)
  let ?B = "256 ^ n :: nat"
  have d: "x div ?B < 256" "y div ?B < 256"
    using Suc.prems by (simp_all add: less_mult_imp_div_less mult.commute)
  have w: "(word_of_nat (x div ?B) :: byte) < word_of_nat (y div ?B) \<longleftrightarrow> x div ?B < y div ?B"
    using d by (simp add: word_less_nat_alt unat_of_nat)
  have e: "(word_of_nat (x div ?B) :: byte) = word_of_nat (y div ?B) \<longleftrightarrow> x div ?B = y div ?B"
    using d by (simp add: word8_of_nat_eq_iff)
  have r: "be_digits n x < be_digits n y \<longleftrightarrow> x mod ?B < y mod ?B"
    using Suc.IH [of "x mod ?B" "y mod ?B"] by (simp add: be_digits_mod)
  have "x < y \<longleftrightarrow> x div ?B < y div ?B \<or> x div ?B = y div ?B \<and> x mod ?B < y mod ?B"
    by (rule less_iff_div_mod) simp
  then show ?case by (simp add: w e r)
qed simp

lemma be_digits_inject:
  "x < 256 ^ n \<Longrightarrow> y < 256 ^ n \<Longrightarrow> be_digits n x = be_digits n y \<longleftrightarrow> x = y"
  by (metis be_digits_less_iff less_irrefl linorder_cases)

lemma u64_bound: "unat (v :: u64) < 256 ^ 8"
  using unsigned_less [of v] by simp

lemma ucast_drop_bit_digit:
  "(ucast (drop_bit k (v :: u64)) :: byte) = word_of_nat (unat v div 2 ^ k)"
proof -
  have "take_bit 64 (unat v) = unat v"
    using u64_bound [of v] by (simp add: take_bit_nat_eq_self_iff)
  then have "unat (drop_bit k v) = drop_bit k (unat v)"
    by (simp add: unsigned_drop_bit_eq)
  then have "unat (drop_bit k v) = unat v div 2 ^ k"
    by (simp only: drop_bit_eq_div)
  then show ?thesis
    by (simp only: word_unat_eq_iff unsigned_ucast_eq unsigned_of_nat of_nat_id)
qed

lemma putUint64_digits: "putUint64 v = be_digits 8 (unat v)"
proof -
  have e: "(8::nat) = Suc (Suc (Suc (Suc (Suc (Suc (Suc (Suc 0)))))))" by simp
  have "(ucast v :: byte) = word_of_nat (unat v)"
    using ucast_drop_bit_digit [of 0 v] by simp
  then show ?thesis
    unfolding e by (simp add: putUint64_def ucast_drop_bit_digit)
qed

lemma length_putUint64 [simp]: "length (putUint64 v) = 8"
  by (simp add: putUint64_def)

lemma putUint64_less_iff [simp]: "putUint64 v < putUint64 w \<longleftrightarrow> v < w"
  using be_digits_less_iff [OF u64_bound u64_bound]
  by (simp only: putUint64_digits word_less_nat_alt)

lemma putUint64_le_iff [simp]: "putUint64 v \<le> putUint64 w \<longleftrightarrow> v \<le> w"
  by (metis linorder_not_le putUint64_less_iff)

lemma putUint64_inject [simp]: "putUint64 v = putUint64 w \<longleftrightarrow> v = w"
  by (metis putUint64_less_iff less_irrefl linorder_cases)

text \<open>Decoding: the bytes written by \<open>PutUint64\<close> are read back, whatever follows them.\<close>

lemma foldl_be_digits:
  "x < 256 ^ n \<Longrightarrow> n \<le> 8 \<Longrightarrow>
   foldl (\<lambda>a b. push_bit 8 a + ucast b) (a :: u64) (be_digits n x) = a * 256 ^ n + word_of_nat x"
proof (induction n arbitrary: a x)
  case (Suc n)
  let ?B = "256 ^ n :: nat"
  let ?q = "x div ?B" and ?r = "x mod ?B"
  have q: "?q < 256" using Suc.prems(1) by (simp add: less_mult_imp_div_less mult.commute)
  have u: "(ucast (word_of_nat ?q :: byte) :: u64) = word_of_nat ?q"
    using q by (simp add: word_unat_eq_iff unsigned_ucast_eq unat_of_nat take_bit_eq_mod)
  have "foldl (\<lambda>a b. push_bit 8 a + ucast b) a (be_digits (Suc n) x) =
      foldl (\<lambda>a b. push_bit 8 a + ucast b) (push_bit 8 a + word_of_nat ?q) (be_digits n ?r)"
    by (simp add: be_digits_mod u)
  also have "\<dots> = (push_bit 8 a + word_of_nat ?q) * 256 ^ n + word_of_nat ?r"
    using Suc by simp
  also have "\<dots> = a * 256 ^ Suc n + (word_of_nat ?q * word_of_nat ?B + word_of_nat ?r)"
    by (simp add: push_bit_eq_mult algebra_simps)
  also have "(word_of_nat ?q * word_of_nat ?B + word_of_nat ?r :: u64) = word_of_nat (?q * ?B + ?r)"
    by (simp only: of_nat_add of_nat_mult)
  finally show ?case by (simp only: div_mult_mod_eq)
qed simp

lemma getUint64_putUint64 [simp]: "getUint64 (putUint64 v @ xs) = v"
  using foldl_be_digits [OF u64_bound, of 0 v]
  by (simp add: getUint64_def putUint64_digits)

lemma getUint64_putUint64_alone [simp]: "getUint64 (putUint64 v) = v"
  using getUint64_putUint64 [of v "[]"] by simp

section \<open>bytes.Compare\<close>

fun bytes_compare :: "bytes \<Rightarrow> bytes \<Rightarrow> int" where
  "bytes_compare [] [] = 0"
| "bytes_compare [] (y # ys) = - 1"
| "bytes_compare (x # xs) [] = 1"
| "bytes_compare (x # xs) (y # ys) =
     (if x < y then - 1 else if y < x then 1 else bytes_compare xs ys)"

lemma bytes_compare_less: "bytes_compare a b = - 1 \<longleftrightarrow> a < b"
  by (induction a b rule: bytes_compare.induct) auto

lemma bytes_compare_eq: "bytes_compare a b = 0 \<longleftrightarrow> a = b"
  by (induction a b rule: bytes_compare.induct) auto

lemma bytes_compare_ge: "0 \<le> bytes_compare a b \<longleftrightarrow> b \<le> a"
proof (induction a b rule: bytes_compare.induct)
  case (4 x xs y ys)
  then show ?case by (auto simp: le_less)
qed auto

section \<open>The lexicographic order and prefixes\<close>

fun has_prefix :: "bytes \<Rightarrow> bytes \<Rightarrow> bool" where
  "has_prefix s [] = True"
| "has_prefix [] (p # ps) = False"
| "has_prefix (c # s) (p # ps) = (c = p \<and> has_prefix s ps)"

lemma has_prefix_iff: "has_prefix s p \<longleftrightarrow> (\<exists>r. s = p @ r)"
  by (induction s p rule: has_prefix.induct) auto

lemma append_less_append [simp]: "(p :: bytes) @ a < p @ b \<longleftrightarrow> a < b"
  by (induction p) auto

lemma append_le_append [simp]: "(p :: bytes) @ a \<le> p @ b \<longleftrightarrow> a \<le> b"
  by (induction p) auto

lemma prefix_le: "(p :: bytes) \<le> p @ a"
  by (induction p) auto

text \<open>Between a key and an extension of it there are only extensions of it.\<close>

lemma between_extends:
  assumes "(p :: bytes) \<le> x" and "x < p @ s"
  shows "\<exists>r. x = p @ r"
  using assms
proof (induction p arbitrary: x)
  case (Cons c p)
  then obtain d y where x: "x = d # y" by (cases x) auto
  with Cons.prems have "c = d" "p \<le> y" "y < p @ s" by auto
  with Cons.IH x show ?case by auto
qed simp

end
