(* ===== verification/Messages.thy ===== *)
theory Messages
  imports Bytes
begin

text \<open>
  The v2 protobuf messages (\<open>model.pb.go\<close>, \<open>service.pb.go\<close>, \<open>feed.pb.go\<close> of the v2
  packages): the data that passes between the servers, the sink and the stores.  A Go
  pointer to a message is an \<^theory_text>\<open>option\<close> (\<open>None\<close> is nil), also inside slices; a nil slice
  or nil \<open>[]byte\<close> is the empty list.  The generated getters accept a nil receiver.  The
  fields of protobuf's own bookkeeping (\<open>state\<close>, \<open>unknownFields\<close>, \<open>sizeCache\<close>) and the
  reflection methods are not modelled.
\<close>

section \<open>ResponseCode\<close>

text \<open>
  The enum is an \<open>int32\<close>: four numbers have names, a decoder keeps any other number.
\<close>

datatype ResponseCode =
    RESPONSE_CODE_UNSPECIFIED
  | RESPONSE_CODE_FOUND
  | RESPONSE_CODE_NOT_FOUND
  | RESPONSE_CODE_NOT_FOUND_FINALIZE
  | RESPONSE_CODE_UNNAMED "32 word"

fun ResponseCode_Number :: "ResponseCode \<Rightarrow> 32 word" where
  "ResponseCode_Number RESPONSE_CODE_UNSPECIFIED = 0"
| "ResponseCode_Number RESPONSE_CODE_FOUND = 1"
| "ResponseCode_Number RESPONSE_CODE_NOT_FOUND = 2"
| "ResponseCode_Number RESPONSE_CODE_NOT_FOUND_FINALIZE = 4"
| "ResponseCode_Number (RESPONSE_CODE_UNNAMED n) = n"

definition ResponseCode_name :: "32 word \<Rightarrow> string option" where
  "ResponseCode_name = map_of
     [(0, ''RESPONSE_CODE_UNSPECIFIED''),
      (1, ''RESPONSE_CODE_FOUND''),
      (2, ''RESPONSE_CODE_NOT_FOUND''),
      (4, ''RESPONSE_CODE_NOT_FOUND_FINALIZE'')]"

definition ResponseCode_value :: "string \<Rightarrow> 32 word option" where
  "ResponseCode_value = map_of
     [(''RESPONSE_CODE_UNSPECIFIED'', 0),
      (''RESPONSE_CODE_FOUND'', 1),
      (''RESPONSE_CODE_NOT_FOUND'', 2),
      (''RESPONSE_CODE_NOT_FOUND_FINALIZE'', 4)]"

lemma ResponseCode_name_value: "ResponseCode_name n = Some s \<longleftrightarrow> ResponseCode_value s = Some n"
  by (auto simp: ResponseCode_name_def ResponseCode_value_def split: if_splits)

section \<open>Model messages\<close>

record Key =
  Key_Bytes :: bytes

record Keys =
  Keys_Keys :: "Key option list"

record Any =
  Any_TypeUrl :: string
  Any_Value :: bytes

record Entry =
  Entry_Key :: "Key option"
  Entry_Value :: "Any option"

record SinkEntries =
  SinkEntries_Entries :: "Entry option list"
  SinkEntries_IfNotExist :: bool

record QueriedEntry =
  QueriedEntry_Code :: ResponseCode
  QueriedEntry_Entry :: "Entry option"

record QueriedEntries =
  QueriedEntries_Entries :: "QueriedEntry option list"

section \<open>Service and feed messages\<close>

record GetRequest =
  GetRequest_BlockNumber :: u64
  GetRequest_BlockHash :: bytes
  GetRequest_Keys :: "Key option list"

record GetResponse =
  GetResponse_BlockReached :: bool
  GetResponse_Entries :: "QueriedEntries option"

record SetRequest =
  SetRequest_Entries :: "SinkEntries option"

datatype SetResponse = SetResponse

record SetReadyRequest =
  SetReadyRequest_Ready :: bool

datatype SetReadyResponse = SetReadyResponse

section \<open>Getters\<close>

fun Key_GetBytes :: "Key option \<Rightarrow> bytes" where
  "Key_GetBytes (Some x) = Key_Bytes x"
| "Key_GetBytes None = []"

fun Keys_GetKeys :: "Keys option \<Rightarrow> Key option list" where
  "Keys_GetKeys (Some x) = Keys_Keys x"
| "Keys_GetKeys None = []"

fun Entry_GetKey :: "Entry option \<Rightarrow> Key option" where
  "Entry_GetKey (Some x) = Entry_Key x"
| "Entry_GetKey None = None"

fun Entry_GetValue :: "Entry option \<Rightarrow> Any option" where
  "Entry_GetValue (Some x) = Entry_Value x"
| "Entry_GetValue None = None"

fun SinkEntries_GetEntries :: "SinkEntries option \<Rightarrow> Entry option list" where
  "SinkEntries_GetEntries (Some x) = SinkEntries_Entries x"
| "SinkEntries_GetEntries None = []"

fun SinkEntries_GetIfNotExist :: "SinkEntries option \<Rightarrow> bool" where
  "SinkEntries_GetIfNotExist (Some x) = SinkEntries_IfNotExist x"
| "SinkEntries_GetIfNotExist None = False"

fun QueriedEntry_GetCode :: "QueriedEntry option \<Rightarrow> ResponseCode" where
  "QueriedEntry_GetCode (Some x) = QueriedEntry_Code x"
| "QueriedEntry_GetCode None = RESPONSE_CODE_UNSPECIFIED"

fun QueriedEntry_GetEntry :: "QueriedEntry option \<Rightarrow> Entry option" where
  "QueriedEntry_GetEntry (Some x) = QueriedEntry_Entry x"
| "QueriedEntry_GetEntry None = None"

fun QueriedEntries_GetEntries :: "QueriedEntries option \<Rightarrow> QueriedEntry option list" where
  "QueriedEntries_GetEntries (Some x) = QueriedEntries_Entries x"
| "QueriedEntries_GetEntries None = []"

fun GetRequest_GetBlockNumber :: "GetRequest option \<Rightarrow> u64" where
  "GetRequest_GetBlockNumber (Some x) = GetRequest_BlockNumber x"
| "GetRequest_GetBlockNumber None = 0"

fun GetRequest_GetBlockHash :: "GetRequest option \<Rightarrow> bytes" where
  "GetRequest_GetBlockHash (Some x) = GetRequest_BlockHash x"
| "GetRequest_GetBlockHash None = []"

fun GetRequest_GetKeys :: "GetRequest option \<Rightarrow> Key option list" where
  "GetRequest_GetKeys (Some x) = GetRequest_Keys x"
| "GetRequest_GetKeys None = []"

fun GetResponse_GetBlockReached :: "GetResponse option \<Rightarrow> bool" where
  "GetResponse_GetBlockReached (Some x) = GetResponse_BlockReached x"
| "GetResponse_GetBlockReached None = False"

fun GetResponse_GetEntries :: "GetResponse option \<Rightarrow> QueriedEntries option" where
  "GetResponse_GetEntries (Some x) = GetResponse_Entries x"
| "GetResponse_GetEntries None = None"

fun SetRequest_GetEntries :: "SetRequest option \<Rightarrow> SinkEntries option" where
  "SetRequest_GetEntries (Some x) = SetRequest_Entries x"
| "SetRequest_GetEntries None = None"

fun SetReadyRequest_GetReady :: "SetReadyRequest option \<Rightarrow> bool" where
  "SetReadyRequest_GetReady (Some x) = SetReadyRequest_Ready x"
| "SetReadyRequest_GetReady None = False"

section \<open>Reading fields through pointers\<close>

text \<open>
  \<open>entry.Key.Bytes\<close>, \<open>entry.Value.Value\<close> and \<open>key.Bytes\<close> without a getter: a nil pointer
  on the way panics.
\<close>

fun key_bytes :: "Key option \<Rightarrow> bytes res" where
  "key_bytes (Some k) = Inr (Key_Bytes k)"
| "key_bytes None = nil_deref"

fun entry_key_bytes :: "Entry option \<Rightarrow> bytes res" where
  "entry_key_bytes (Some e) = key_bytes (Entry_Key e)"
| "entry_key_bytes None = nil_deref"

fun entry_value_bytes :: "Entry option \<Rightarrow> bytes res" where
  "entry_value_bytes (Some e) =
     (case Entry_Value e of Some v \<Rightarrow> Inr (Any_Value v) | None \<Rightarrow> nil_deref)"
| "entry_value_bytes None = nil_deref"

text \<open>The (key, value) pairs of a list of entries none of which has a nil part.\<close>

definition entry_kv :: "Entry option \<Rightarrow> bytes \<times> bytes" where
  "entry_kv e = (Key_GetBytes (Entry_GetKey e), (case Entry_GetValue e of Some v \<Rightarrow> Any_Value v | None \<Rightarrow> []))"

fun entry_ok :: "Entry option \<Rightarrow> bool" where
  "entry_ok (Some e) \<longleftrightarrow> Entry_Key e \<noteq> None \<and> Entry_Value e \<noteq> None"
| "entry_ok None \<longleftrightarrow> False"

lemma entry_ok_key: "entry_ok e \<Longrightarrow> entry_key_bytes e = Inr (fst (entry_kv e))"
  by (cases e) (auto simp: entry_kv_def)

lemma entry_ok_value: "entry_ok e \<Longrightarrow> entry_value_bytes e = Inr (snd (entry_kv e))"
  by (cases e) (auto simp: entry_kv_def)

lemma entry_ok_GetKey:
  "entry_ok e \<Longrightarrow> Entry_GetKey e = Some (the (Entry_GetKey e)) \<and> Key_Bytes (the (Entry_GetKey e)) = fst (entry_kv e)"
  by (cases e) (auto simp: entry_kv_def)

lemma entry_key_bytes_kv: "entry_key_bytes e = Inr k \<Longrightarrow> fst (entry_kv e) = k"
proof (cases e)
  case (Some x)
  then show "entry_key_bytes e = Inr k \<Longrightarrow> fst (entry_kv e) = k"
    by (cases "Entry_Key x") (auto simp: entry_kv_def)
qed simp

lemma entry_value_bytes_kv: "entry_value_bytes e = Inr v \<Longrightarrow> snd (entry_kv e) = v"
  by (cases e) (auto simp: entry_kv_def split: option.splits)

text \<open>Reading an entry can only panic in one way.\<close>

lemma key_bytes_fail: "key_bytes k = Inl f \<Longrightarrow> f = nil_panic"
  by (cases k) (auto simp: nil_deref_def)

lemma entry_key_bytes_fail: "entry_key_bytes e = Inl f \<Longrightarrow> f = nil_panic"
  by (cases e) (auto simp: nil_deref_def dest: key_bytes_fail)

lemma entry_value_bytes_fail: "entry_value_bytes e = Inl f \<Longrightarrow> f = nil_panic"
  by (cases e) (auto simp: nil_deref_def split: option.splits)

lemma key_bytes_ok_iff [res_simps]: "key_bytes k = Inr b \<longleftrightarrow> (\<exists>x. k = Some x \<and> Key_Bytes x = b)"
  by (cases k) auto

text \<open>An entry with the given key and value bytes, and the two answers of a read.\<close>

definition mk_entry :: "bytes \<Rightarrow> string \<Rightarrow> bytes \<Rightarrow> Entry option" where
  "mk_entry k t v = Some \<lparr>Entry_Key = Some \<lparr>Key_Bytes = k\<rparr>,
                          Entry_Value = Some \<lparr>Any_TypeUrl = t, Any_Value = v\<rparr>\<rparr>"

definition not_found :: "Key option \<Rightarrow> QueriedEntry" where
  "not_found k = \<lparr>QueriedEntry_Code = RESPONSE_CODE_NOT_FOUND,
                  QueriedEntry_Entry = Some \<lparr>Entry_Key = k, Entry_Value = None\<rparr>\<rparr>"

definition found :: "Key option \<Rightarrow> string \<Rightarrow> bytes \<Rightarrow> QueriedEntry" where
  "found k t v = \<lparr>QueriedEntry_Code = RESPONSE_CODE_FOUND,
                  QueriedEntry_Entry = Some \<lparr>Entry_Key = k,
                    Entry_Value = Some \<lparr>Any_TypeUrl = t, Any_Value = v\<rparr>\<rparr>\<rparr>"

lemma entry_kv_mk_entry [simp]: "entry_kv (mk_entry k t v) = (k, v)"
  by (simp add: entry_kv_def mk_entry_def)

lemma entry_ok_mk_entry [simp]: "entry_ok (mk_entry k t v)"
  by (simp add: mk_entry_def)

lemma found_code [simp]:
  "QueriedEntry_Code (found k t v) = RESPONSE_CODE_FOUND"
  "QueriedEntry_Code (not_found k) = RESPONSE_CODE_NOT_FOUND"
  by (simp_all add: found_def not_found_def)

end
