(* ===== verification/Messages_V1.thy ===== *)
theory Messages_V1
  imports Messages
begin

text \<open>
  The deprecated v1 protobuf messages (\<open>service/v1/service.pb.go\<close>): the requests and
  responses of the legacy gRPC service and the entries that a v1 Substreams module
  emits.  Conventions are those of the v2 messages; names carry the prefix \<open>V1\<close>.
\<close>

section \<open>ResponseCode\<close>

datatype V1ResponseCode =
    V1_RESPONSE_CODE_UNSPECIFIED
  | V1_RESPONSE_CODE_FOUND
  | V1_RESPONSE_CODE_NOT_FOUND
  | V1_RESPONSE_CODE_NOT_FOUND_FINALIZE
  | V1_RESPONSE_CODE_NOT_FOUND_BLOCK_NOT_REACHED
  | V1_RESPONSE_CODE_UNNAMED "32 word"

fun V1ResponseCode_Number :: "V1ResponseCode \<Rightarrow> 32 word" where
  "V1ResponseCode_Number V1_RESPONSE_CODE_UNSPECIFIED = 0"
| "V1ResponseCode_Number V1_RESPONSE_CODE_FOUND = 1"
| "V1ResponseCode_Number V1_RESPONSE_CODE_NOT_FOUND = 2"
| "V1ResponseCode_Number V1_RESPONSE_CODE_NOT_FOUND_FINALIZE = 4"
| "V1ResponseCode_Number V1_RESPONSE_CODE_NOT_FOUND_BLOCK_NOT_REACHED = 5"
| "V1ResponseCode_Number (V1_RESPONSE_CODE_UNNAMED n) = n"

definition V1ResponseCode_name :: "32 word \<Rightarrow> string option" where
  "V1ResponseCode_name = map_of
     [(0, ''RESPONSE_CODE_UNSPECIFIED''),
      (1, ''RESPONSE_CODE_FOUND''),
      (2, ''RESPONSE_CODE_NOT_FOUND''),
      (4, ''RESPONSE_CODE_NOT_FOUND_FINALIZE''),
      (5, ''RESPONSE_CODE_NOT_FOUND_BLOCK_NOT_REACHED'')]"

definition V1ResponseCode_value :: "string \<Rightarrow> 32 word option" where
  "V1ResponseCode_value = map_of
     [(''RESPONSE_CODE_UNSPECIFIED'', 0),
      (''RESPONSE_CODE_FOUND'', 1),
      (''RESPONSE_CODE_NOT_FOUND'', 2),
      (''RESPONSE_CODE_NOT_FOUND_FINALIZE'', 4),
      (''RESPONSE_CODE_NOT_FOUND_BLOCK_NOT_REACHED'', 5)]"

lemma V1ResponseCode_name_value: "V1ResponseCode_name n = Some s \<longleftrightarrow> V1ResponseCode_value s = Some n"
  by (auto simp: V1ResponseCode_name_def V1ResponseCode_value_def split: if_splits)

section \<open>Messages\<close>

record V1GetRequest =
  V1GetRequest_BlockNumber :: u64
  V1GetRequest_BlockHash :: bytes
  V1GetRequest_OmitDeleted :: bool
  V1GetRequest_Key :: bytes

record V1GetResponse =
  V1GetResponse_BlockReached :: bool
  V1GetResponse_Code :: V1ResponseCode
  V1GetResponse_Value :: "Any option"

record V1GetAllRequest =
  V1GetAllRequest_BlockNumber :: u64
  V1GetAllRequest_BlockHash :: bytes
  V1GetAllRequest_OmitDeleted :: bool
  V1GetAllRequest_Keys :: "bytes list"

record V1ResponseEntry =
  V1ResponseEntry_Key :: bytes
  V1ResponseEntry_Response :: "V1GetResponse option"

record V1GetAllResponse =
  V1GetAllResponse_Entries :: "V1ResponseEntry option list"
  V1GetAllResponse_BlockReached :: bool

record V1Entry =
  V1Entry_Key :: bytes
  V1Entry_Value :: "Any option"

record V1Entries =
  V1Entries_Entries :: "V1Entry option list"

section \<open>Getters\<close>

fun V1GetRequest_GetBlockNumber :: "V1GetRequest option \<Rightarrow> u64" where
  "V1GetRequest_GetBlockNumber (Some x) = V1GetRequest_BlockNumber x"
| "V1GetRequest_GetBlockNumber None = 0"

fun V1GetRequest_GetBlockHash :: "V1GetRequest option \<Rightarrow> bytes" where
  "V1GetRequest_GetBlockHash (Some x) = V1GetRequest_BlockHash x"
| "V1GetRequest_GetBlockHash None = []"

fun V1GetRequest_GetOmitDeleted :: "V1GetRequest option \<Rightarrow> bool" where
  "V1GetRequest_GetOmitDeleted (Some x) = V1GetRequest_OmitDeleted x"
| "V1GetRequest_GetOmitDeleted None = False"

fun V1GetRequest_GetKey :: "V1GetRequest option \<Rightarrow> bytes" where
  "V1GetRequest_GetKey (Some x) = V1GetRequest_Key x"
| "V1GetRequest_GetKey None = []"

fun V1GetResponse_GetBlockReached :: "V1GetResponse option \<Rightarrow> bool" where
  "V1GetResponse_GetBlockReached (Some x) = V1GetResponse_BlockReached x"
| "V1GetResponse_GetBlockReached None = False"

fun V1GetResponse_GetCode :: "V1GetResponse option \<Rightarrow> V1ResponseCode" where
  "V1GetResponse_GetCode (Some x) = V1GetResponse_Code x"
| "V1GetResponse_GetCode None = V1_RESPONSE_CODE_UNSPECIFIED"

fun V1GetResponse_GetValue :: "V1GetResponse option \<Rightarrow> Any option" where
  "V1GetResponse_GetValue (Some x) = V1GetResponse_Value x"
| "V1GetResponse_GetValue None = None"

fun V1GetAllRequest_GetBlockNumber :: "V1GetAllRequest option \<Rightarrow> u64" where
  "V1GetAllRequest_GetBlockNumber (Some x) = V1GetAllRequest_BlockNumber x"
| "V1GetAllRequest_GetBlockNumber None = 0"

fun V1GetAllRequest_GetBlockHash :: "V1GetAllRequest option \<Rightarrow> bytes" where
  "V1GetAllRequest_GetBlockHash (Some x) = V1GetAllRequest_BlockHash x"
| "V1GetAllRequest_GetBlockHash None = []"

fun V1GetAllRequest_GetOmitDeleted :: "V1GetAllRequest option \<Rightarrow> bool" where
  "V1GetAllRequest_GetOmitDeleted (Some x) = V1GetAllRequest_OmitDeleted x"
| "V1GetAllRequest_GetOmitDeleted None = False"

fun V1GetAllRequest_GetKeys :: "V1GetAllRequest option \<Rightarrow> bytes list" where
  "V1GetAllRequest_GetKeys (Some x) = V1GetAllRequest_Keys x"
| "V1GetAllRequest_GetKeys None = []"

fun V1ResponseEntry_GetKey :: "V1ResponseEntry option \<Rightarrow> bytes" where
  "V1ResponseEntry_GetKey (Some x) = V1ResponseEntry_Key x"
| "V1ResponseEntry_GetKey None = []"

fun V1ResponseEntry_GetResponse :: "V1ResponseEntry option \<Rightarrow> V1GetResponse option" where
  "V1ResponseEntry_GetResponse (Some x) = V1ResponseEntry_Response x"
| "V1ResponseEntry_GetResponse None = None"

fun V1GetAllResponse_GetEntries :: "V1GetAllResponse option \<Rightarrow> V1ResponseEntry option list" where
  "V1GetAllResponse_GetEntries (Some x) = V1GetAllResponse_Entries x"
| "V1GetAllResponse_GetEntries None = []"

fun V1GetAllResponse_GetBlockReached :: "V1GetAllResponse option \<Rightarrow> bool" where
  "V1GetAllResponse_GetBlockReached (Some x) = V1GetAllResponse_BlockReached x"
| "V1GetAllResponse_GetBlockReached None = False"

fun V1Entry_GetKey :: "V1Entry option \<Rightarrow> bytes" where
  "V1Entry_GetKey (Some x) = V1Entry_Key x"
| "V1Entry_GetKey None = []"

fun V1Entry_GetValue :: "V1Entry option \<Rightarrow> Any option" where
  "V1Entry_GetValue (Some x) = V1Entry_Value x"
| "V1Entry_GetValue None = None"

fun V1Entries_GetEntries :: "V1Entries option \<Rightarrow> V1Entry option list" where
  "V1Entries_GetEntries (Some x) = V1Entries_Entries x"
| "V1Entries_GetEntries None = []"

end
