(* ===== verification/Grpc_Auth.thy ===== *)
theory Grpc_Auth
  imports Messages_V1
begin

text \<open>
  Authentication of the gRPC server (\<open>grpc/auth.go\<close>): interceptors that let a call through
  when an authenticator accepts it and its trusted organization is the configured one.
  An interceptor wraps a handler; a handler takes a context and a message and acts on
  the state of the process.  The authenticator and what it puts into the context belong
  to the package \<open>dauth\<close> and are parameters (\<open>auth_api\<close>).
\<close>

section \<open>Messages as interface values, handlers, interceptors\<close>

text \<open>
  What gRPC passes as \<open>interface{}\<close>: a pointer to one of the request or response
  messages.  A type assertion to another type panics.
\<close>

datatype message =
    Msg_GetRequest GetRequest | Msg_GetResponse GetResponse
  | Msg_V1GetRequest V1GetRequest | Msg_V1GetResponse V1GetResponse
  | Msg_V1GetAllRequest V1GetAllRequest | Msg_V1GetAllResponse V1GetAllResponse
  | Msg_SetRequest SetRequest | Msg_SetResponse SetResponse
  | Msg_SetReadyRequest SetReadyRequest | Msg_SetReadyResponse SetReadyResponse
  | Msg_Health string

definition assertion_panic :: "'a res" where
  "assertion_panic = Inl (Panic ''interface conversion'')"

type_synonym ('c, 'w) handler = "'c \<Rightarrow> message \<Rightarrow> 'w \<Rightarrow> 'w \<times> message res"
type_synonym ('c, 'w) unary_interceptor = "'c \<Rightarrow> message \<Rightarrow> string \<Rightarrow> ('c, 'w) handler \<Rightarrow> 'w \<Rightarrow> 'w \<times> message res"

text \<open>Streams: the handler gets the server stream instead of a message.\<close>

type_synonym ('t, 'w) stream_handler = "'t \<Rightarrow> 'w \<Rightarrow> 'w \<times> unit res"
type_synonym ('t, 'w) stream_interceptor = "'t \<Rightarrow> string \<Rightarrow> ('t, 'w) stream_handler \<Rightarrow> 'w \<Rightarrow> 'w \<times> unit res"

text \<open>
  \<^item> \<open>unary_checker\<close>, \<open>stream_checker\<close>: \<open>UnaryAuthChecker\<close> and \<open>StreamAuthChecker\<close> of
    \<open>dauth\<close>'s gRPC middleware;
  \<^item> \<open>from_context\<close>: \<open>dauth.FromContext\<close>, the trusted headers of a context (nil without
    authentication), and \<open>organization_id\<close>, their \<open>OrganizationID()\<close>;
  \<^item> \<open>stream_context\<close>: \<open>ss.Context()\<close>.
\<close>

record ('a, 'c, 'h, 't, 'w) auth_api =
  unary_checker :: "'a \<Rightarrow> ('c, 'w) unary_interceptor"
  stream_checker :: "'a \<Rightarrow> ('t, 'w) stream_interceptor"
  from_context :: "'c \<Rightarrow> 'h option"
  organization_id :: "'h \<Rightarrow> string"
  stream_context :: "'t \<Rightarrow> 'c"

section \<open>The code\<close>

record 'a AuthConfig =
  AuthConfig_Authenticator :: "'a option"
  AuthConfig_OrganizationID :: string

definition AuthConfig_Enabled :: "'a AuthConfig \<Rightarrow> bool" where
  "AuthConfig_Enabled cfg \<longleftrightarrow> AuthConfig_Authenticator cfg \<noteq> None"

definition has_prefix :: "string \<Rightarrow> string \<Rightarrow> bool" where
  "has_prefix s pre \<longleftrightarrow> take (length pre) s = pre"

definition isHealthMethod :: "string \<Rightarrow> bool" where
  "isHealthMethod fullMethod \<longleftrightarrow> has_prefix fullMethod ''/grpc.health.v1.Health/''"

definition skipHealthUnary :: "('c, 'w) unary_interceptor \<Rightarrow> ('c, 'w) unary_interceptor" where
  "skipHealthUnary nxt ctx req fullMethod h =
     (if isHealthMethod fullMethod then h ctx req else nxt ctx req fullMethod h)"

definition skipHealthStream :: "('t, 'w) stream_interceptor \<Rightarrow> ('t, 'w) stream_interceptor" where
  "skipHealthStream nxt ss fullMethod h =
     (if isHealthMethod fullMethod then h ss else nxt ss fullMethod h)"

definition checkOrganization :: "('a, 'c, 'h, 't, 'w) auth_api \<Rightarrow> 'c \<Rightarrow> string \<Rightarrow> error option" where
  "checkOrganization A ctx organizationID =
     (case from_context A ctx of
        None \<Rightarrow> Some (Status ''Unauthenticated'' ''missing authenticated context'')
      | Some trusted \<Rightarrow>
          if organization_id A trusted = ''''
          then Some (Status ''Unauthenticated'' ''missing organization id in token'')
          else if organization_id A trusted \<noteq> organizationID
          then Some (Status ''PermissionDenied'' ''organization id mismatch'')
          else None)"

definition organizationUnaryChecker :: "('a, 'c, 'h, 't, 'w) auth_api \<Rightarrow> string \<Rightarrow> ('c, 'w) unary_interceptor" where
  "organizationUnaryChecker A organizationID ctx req fullMethod h w =
     (if isHealthMethod fullMethod then h ctx req w
      else case checkOrganization A ctx organizationID of
             Some err \<Rightarrow> (w, Inl (Error err))
           | None \<Rightarrow> h ctx req w)"

definition organizationStreamChecker :: "('a, 'c, 'h, 't, 'w) auth_api \<Rightarrow> string \<Rightarrow> ('t, 'w) stream_interceptor" where
  "organizationStreamChecker A organizationID ss fullMethod h w =
     (if isHealthMethod fullMethod then h ss w
      else case checkOrganization A (stream_context A ss) organizationID of
             Some err \<Rightarrow> (w, Inl (Error err))
           | None \<Rightarrow> h ss w)"

definition authUnaryInterceptors :: "('a, 'c, 'h, 't, 'w) auth_api \<Rightarrow> 'a AuthConfig \<Rightarrow> ('c, 'w) unary_interceptor list" where
  "authUnaryInterceptors A cfg =
     (case AuthConfig_Authenticator cfg of
        None \<Rightarrow> []
      | Some authenticator \<Rightarrow>
          [skipHealthUnary (unary_checker A authenticator)]
          @ (if AuthConfig_OrganizationID cfg \<noteq> ''''
             then [organizationUnaryChecker A (AuthConfig_OrganizationID cfg)] else []))"

definition authStreamInterceptors :: "('a, 'c, 'h, 't, 'w) auth_api \<Rightarrow> 'a AuthConfig \<Rightarrow> ('t, 'w) stream_interceptor list" where
  "authStreamInterceptors A cfg =
     (case AuthConfig_Authenticator cfg of
        None \<Rightarrow> []
      | Some authenticator \<Rightarrow>
          [skipHealthStream (stream_checker A authenticator)]
          @ (if AuthConfig_OrganizationID cfg \<noteq> ''''
             then [organizationStreamChecker A (AuthConfig_OrganizationID cfg)] else []))"

section \<open>Chains of interceptors\<close>

text \<open>
  gRPC runs interceptors in the order in which they are added, the first one outermost
  (documented behaviour of \<open>grpc.ChainUnaryInterceptor\<close>).  \<open>run_chain\<close> states it; the
  properties take a chaining function that agrees with it.
\<close>

fun run_chain :: "('c, 'w) unary_interceptor list \<Rightarrow> string \<Rightarrow> ('c, 'w) handler \<Rightarrow> ('c, 'w) handler" where
  "run_chain [] fullMethod h = h"
| "run_chain (i # is) fullMethod h = (\<lambda>ctx req. i ctx req fullMethod (run_chain is fullMethod h))"

definition chains :: "(('c, 'w) unary_interceptor list \<Rightarrow> ('c, 'w) unary_interceptor option) \<Rightarrow> bool" where
  "chains chain \<longleftrightarrow> (\<forall>is ctx req fullMethod h w.
     (case chain is of None \<Rightarrow> h ctx req w | Some i \<Rightarrow> i ctx req fullMethod h w) = run_chain is fullMethod h ctx req w)"

text \<open>
  The checker of \<open>dauth\<close> either answers with an error, and then has not called the
  handler, or calls it in a context derived from the call's.
\<close>

definition checker_ok :: "('c, 'w) unary_interceptor \<Rightarrow> ('c \<Rightarrow> 'c option) \<Rightarrow> bool" where
  "checker_ok i login \<longleftrightarrow>
     (\<forall>ctx req fullMethod h w. login ctx = None \<longrightarrow> (\<exists>e. i ctx req fullMethod h w = (w, Inl (Error e)))) \<and>
     (\<forall>ctx ctx' req fullMethod h w. login ctx = Some ctx' \<longrightarrow> i ctx req fullMethod h w = h ctx' req w)"

text \<open>A call of a member of the organization.\<close>

definition authorized :: "('a, 'c, 'h, 't, 'w) auth_api \<Rightarrow> ('c \<Rightarrow> 'c option) \<Rightarrow> string \<Rightarrow> 'c \<Rightarrow> bool" where
  "authorized A login org ctx \<longleftrightarrow>
     (\<exists>ctx' h. login ctx = Some ctx' \<and> from_context A ctx' = Some h \<and>
        organization_id A h = org \<and> org \<noteq> '''')"

lemma checkOrganization_None_iff:
  "checkOrganization A ctx org = None \<longleftrightarrow>
     (\<exists>h. from_context A ctx = Some h \<and> organization_id A h = org \<and> org \<noteq> '''')"
  by (auto simp: checkOrganization_def split: option.splits)

lemma auth_chain:
  assumes "AuthConfig_Authenticator cfg = Some a" and "AuthConfig_OrganizationID cfg \<noteq> ''''"
    and "checker_ok (unary_checker A a) login" and "\<not> isHealthMethod m"
  shows "if authorized A login (AuthConfig_OrganizationID cfg) ctx
    then \<exists>ctx'. login ctx = Some ctx' \<and> run_chain (authUnaryInterceptors A cfg) m h ctx req w = h ctx' req w
    else \<exists>e. run_chain (authUnaryInterceptors A cfg) m h ctx req w = (w, Inl (Error e))"
proof (cases "login ctx")
  case None
  then have "\<not> authorized A login (AuthConfig_OrganizationID cfg) ctx" by (simp add: authorized_def)
  moreover have "\<exists>e. unary_checker A a ctx req m g w = (w, Inl (Error e))" for g
    using assms(3) None unfolding checker_ok_def by blast
  ultimately show ?thesis using assms by (simp add: authUnaryInterceptors_def skipHealthUnary_def)
next
  case (Some ctx')
  have c: "unary_checker A a ctx req m g w = g ctx' req w" for g
    using assms(3) Some unfolding checker_ok_def by blast
  have "authorized A login (AuthConfig_OrganizationID cfg) ctx \<longleftrightarrow>
      checkOrganization A ctx' (AuthConfig_OrganizationID cfg) = None"
    using Some by (simp add: authorized_def checkOrganization_None_iff)
  then show ?thesis
    using assms Some c
    by (auto simp: authUnaryInterceptors_def skipHealthUnary_def organizationUnaryChecker_def split: option.splits)
qed

lemma health_chain:
  assumes "isHealthMethod m"
  shows "run_chain (authUnaryInterceptors A cfg) m h = h"
  using assms by (auto simp: authUnaryInterceptors_def skipHealthUnary_def organizationUnaryChecker_def
    fun_eq_iff split: option.splits)

lemma no_auth_chain:
  assumes "\<not> AuthConfig_Enabled cfg"
  shows "authUnaryInterceptors A cfg = [] \<and> authStreamInterceptors A cfg = []"
  using assms by (simp add: AuthConfig_Enabled_def authUnaryInterceptors_def authStreamInterceptors_def)

end
