(* ===== verification/Store_Interface.thy ===== *)
theory Store_Interface
  imports Messages
begin

text \<open>
  The Go interfaces \<open>store.Store\<close> and \<open>store.ForkawareStore\<close> (\<open>store/store.go\<close>) as
  records of operations over an arbitrary store state, and the contract a backend
  fulfils: its content is, for every key, a partial map from block numbers to values; a
  read at block \<open>c\<close> answers with the value of the greatest block \<open>\<le> c\<close>.  The locale
  \<open>kv_store\<close> is that contract; the backends are shown to satisfy it, and the fork-aware
  cache is proved against it.
\<close>

section \<open>The interfaces\<close>

record 'w store_ops =
  op_SetAll :: "'w \<Rightarrow> Entry option list \<Rightarrow> bool \<Rightarrow> u64 \<Rightarrow> 'w \<times> unit res"
  op_Get :: "'w \<Rightarrow> GetRequest \<Rightarrow> GetResponse res"
  op_GetFirst :: "'w \<Rightarrow> GetRequest \<Rightarrow> GetResponse res"

record 'w forkaware_ops = "'w store_ops" +
  op_FlushUpToBlock :: "'w \<Rightarrow> u64 \<Rightarrow> bool \<Rightarrow> 'w \<times> unit res"
  op_EvictUpToBlock :: "'w \<Rightarrow> u64 \<Rightarrow> 'w \<times> unit res"

section \<open>Version maps\<close>

type_synonym versions = "u64 \<Rightarrow> bytes option"

text \<open>The value of the greatest block number not above \<open>c\<close>.\<close>

definition latest_at :: "(u64 \<Rightarrow> 'v option) \<Rightarrow> u64 \<Rightarrow> 'v option" where
  "latest_at m c =
     (if \<exists>b\<le>c. m b \<noteq> None then m (Max {b. b \<le> c \<and> m b \<noteq> None}) else None)"

lemma latest_at_None_iff: "latest_at m c = None \<longleftrightarrow> (\<forall>b\<le>c. m b = None)"
proof (cases "\<exists>b\<le>c. m b \<noteq> None")
  case True
  then have "Max {b. b \<le> c \<and> m b \<noteq> None} \<in> {b. b \<le> c \<and> m b \<noteq> None}"
    by (intro Max_in) auto
  with True show ?thesis by (auto simp: latest_at_def)
qed (auto simp: latest_at_def)

lemma latest_at_SomeI:
  assumes "m b = Some v" and "b \<le> c" and "\<And>b'. b' \<le> c \<Longrightarrow> m b' \<noteq> None \<Longrightarrow> b' \<le> b"
  shows "latest_at m c = Some v"
proof -
  have "Max {b. b \<le> c \<and> m b \<noteq> None} = b"
    using assms by (intro Max_eqI) auto
  then show ?thesis using assms by (auto simp: latest_at_def)
qed

lemma latest_at_SomeD:
  assumes "latest_at m c = Some v"
  obtains b where "m b = Some v" "b \<le> c" "\<And>b'. b' \<le> c \<Longrightarrow> m b' \<noteq> None \<Longrightarrow> b' \<le> b"
proof -
  let ?S = "{b. b \<le> c \<and> m b \<noteq> None}"
  have ne: "?S \<noteq> {}" using assms by (auto simp: latest_at_def split: if_splits)
  then have i: "Max ?S \<in> ?S" by (intro Max_in) auto
  have "m (Max ?S) = Some v" using assms by (auto simp: latest_at_def split: if_splits)
  moreover have "\<And>b'. b' \<le> c \<Longrightarrow> m b' \<noteq> None \<Longrightarrow> b' \<le> Max ?S"
    by (intro Max_ge) auto
  ultimately show ?thesis using that i by blast
qed

lemma latest_at_empty [simp]: "latest_at (\<lambda>_. None) c = None"
  by (simp add: latest_at_None_iff)

lemma latest_at_single [simp]: "latest_at [b \<mapsto> v] c = (if b \<le> c then Some v else None)"
proof (cases "b \<le> c")
  case True
  then have "latest_at [b \<mapsto> v] c = Some v"
    by (intro latest_at_SomeI [of _ b]) (auto split: if_splits)
  with True show ?thesis by simp
qed (auto simp: latest_at_None_iff)

lemma latest_at_upd_top:
  assumes "b \<le> c" and "\<And>b'. m b' \<noteq> None \<Longrightarrow> b' \<le> b"
  shows "latest_at (m(b \<mapsto> v)) c = Some v"
  using assms by (intro latest_at_SomeI [of _ b]) (auto split: if_splits)

lemma latest_at_cong: "(\<And>b. b \<le> c \<Longrightarrow> m b = m' b) \<Longrightarrow> latest_at m c = latest_at m' c"
proof -
  assume h: "\<And>b. b \<le> c \<Longrightarrow> m b = m' b"
  then have "{b. b \<le> c \<and> m b \<noteq> None} = {b. b \<le> c \<and> m' b \<noteq> None}" by auto
  then have e: "latest_at m c = (if \<exists>b\<le>c. m' b \<noteq> None
      then m (Max {b. b \<le> c \<and> m' b \<noteq> None}) else None)"
    using h by (auto simp: latest_at_def)
  have "Max {b. b \<le> c \<and> m' b \<noteq> None} \<le> c" if "\<exists>b\<le>c. m' b \<noteq> None"
    using that Max_in [of "{b. b \<le> c \<and> m' b \<noteq> None}"] by auto
  with h e show ?thesis by (auto simp: latest_at_def)
qed

lemma latest_at_upd_above: "c < b \<Longrightarrow> latest_at (m(b \<mapsto> v)) c = latest_at m c"
  by (rule latest_at_cong) auto

text \<open>Without a version in between, two reads agree.\<close>

lemma latest_at_gap:
  assumes "f \<le> c" and "\<And>b. f < b \<Longrightarrow> b \<le> c \<Longrightarrow> m b = None"
  shows "latest_at m c = latest_at m f"
proof -
  have in_f: "b \<le> f" if "b \<le> c" "m b \<noteq> None" for b
    using that assms(2) by (metis linorder_not_le)
  show ?thesis
  proof (cases "latest_at m f")
    case None
    then have "\<forall>b\<le>c. m b = None" using in_f by (metis latest_at_None_iff)
    with None show ?thesis using latest_at_None_iff by metis
  next
    case (Some v)
    then obtain b where "m b = Some v" "b \<le> f" "\<And>b'. b' \<le> f \<Longrightarrow> m b' \<noteq> None \<Longrightarrow> b' \<le> b"
      using latest_at_SomeD [OF Some] by blast
    then have "latest_at m c = Some v"
      using in_f assms(1) by (intro latest_at_SomeI [of m b]) (auto intro: order_trans)
    with Some show ?thesis by simp
  qed
qed

section \<open>The answer of a read\<close>

definition answer :: "string \<Rightarrow> (bytes \<Rightarrow> versions) \<Rightarrow> u64 \<Rightarrow> Key \<Rightarrow> QueriedEntry" where
  "answer t V c k = (case latest_at (V (Key_Bytes k)) c of
      None \<Rightarrow> not_found (Some k)
    | Some v \<Rightarrow> found (Some k) t v)"

definition response :: "QueriedEntry option list \<Rightarrow> GetResponse" where
  "response qs = \<lparr>GetResponse_BlockReached = True,
                  GetResponse_Entries = Some \<lparr>QueriedEntries_Entries = qs\<rparr>\<rparr>"

definition read_response :: "string \<Rightarrow> (bytes \<Rightarrow> versions) \<Rightarrow> u64 \<Rightarrow> Key list \<Rightarrow> GetResponse" where
  "read_response t V c ks = response (map (\<lambda>k. Some (answer t V c k)) ks)"

lemma response_entries [simp]:
  "GetResponse_Entries (response qs) = Some \<lparr>QueriedEntries_Entries = qs\<rparr>"
  "GetResponse_BlockReached (response qs) = True"
  by (simp_all add: response_def)

section \<open>The contract of a backend\<close>

definition entries_for :: "(bytes \<Rightarrow> bool) \<Rightarrow> Entry option list \<Rightarrow> bool" where
  "entries_for U es \<longleftrightarrow> (\<forall>e\<in>set es. entry_ok e \<and> U (fst (entry_kv e)))"

lemma entries_for_Nil [simp]: "entries_for U []"
  by (simp add: entries_for_def)

lemma entries_for_Cons [simp]:
  "entries_for U (e # es) \<longleftrightarrow> entry_ok e \<and> U (fst (entry_kv e)) \<and> entries_for U es"
  by (auto simp: entries_for_def)

definition entry_keys :: "Entry option list \<Rightarrow> bytes set" where
  "entry_keys es = fst ` entry_kv ` set es"

lemma entry_keys_iff: "k \<in> entry_keys es \<longleftrightarrow> (\<exists>v. (k, v) \<in> set (map entry_kv es))"
  by (simp only: entry_keys_def Domain_fst [symmetric] Domain_iff set_map)

definition last_write :: "Entry option list \<Rightarrow> bytes \<Rightarrow> bytes option" where
  "last_write es = map_of (rev (map entry_kv es))"

lemma last_write_None_iff: "last_write es k = None \<longleftrightarrow> k \<notin> entry_keys es"
  by (auto simp: last_write_def map_of_eq_None_iff entry_keys_def image_iff)

lemma last_write_in: "last_write es k = Some v \<Longrightarrow> (k, v) \<in> set (map entry_kv es)"
  unfolding last_write_def by (metis map_of_SomeD set_rev)

text \<open>
  Reads and unconditional writes.  \<open>put\<close> says what a write does to the versions of its
  key: a time-traversal backend adds one, a latest-value backend replaces them all.
\<close>

locale kv_store =
  fixes W :: "('w, 'x) store_ops_scheme"
    and vers :: "'w \<Rightarrow> bytes \<Rightarrow> versions"
    and turl :: "'w \<Rightarrow> string"
    and ok :: "'w \<Rightarrow> bool"
    and user_key :: "bytes \<Rightarrow> bool"
    and put :: "versions \<Rightarrow> u64 \<Rightarrow> bytes \<Rightarrow> versions"
  assumes get_answers: "ok w \<Longrightarrow> GetRequest_Keys req = map Some ks \<Longrightarrow>
      \<forall>k\<in>set ks. user_key (Key_Bytes k) \<Longrightarrow> op_Get W w req = Inr r \<Longrightarrow>
      r = read_response (turl w) (vers w) (GetRequest_BlockNumber req) ks"
    and set_all_writes: "ok w \<Longrightarrow> entries_for user_key es \<Longrightarrow>
      op_SetAll W w es False b = (w', Inr ()) \<Longrightarrow> user_key k \<Longrightarrow>
      vers w' k = (case last_write es k of None \<Rightarrow> vers w k | Some v \<Rightarrow> put (vers w k) b v)"
    and set_all_frame: "ok w \<Longrightarrow> entries_for user_key es \<Longrightarrow>
      op_SetAll W w es ine b = (w', x) \<Longrightarrow> user_key k \<Longrightarrow> k \<notin> entry_keys es \<Longrightarrow>
      vers w' k = vers w k"
    and set_all_keeps: "ok w \<Longrightarrow> entries_for user_key es \<Longrightarrow>
      op_SetAll W w es True b = (w', x) \<Longrightarrow> user_key k \<Longrightarrow> vers w k \<noteq> (\<lambda>_. None) \<Longrightarrow>
      vers w' k = vers w k"
    and set_all_inserts: "ok w \<Longrightarrow> entries_for user_key es \<Longrightarrow>
      op_SetAll W w es True b = (w', Inr ()) \<Longrightarrow> user_key k \<Longrightarrow> k \<in> entry_keys es \<Longrightarrow>
      vers w k = (\<lambda>_. None) \<Longrightarrow>
      \<exists>v. (k, v) \<in> set (map entry_kv es) \<and> vers w' k = put (\<lambda>_. None) b v"
    and set_all_adds: "ok w \<Longrightarrow> entries_for user_key es \<Longrightarrow>
      op_SetAll W w es ine b = (w', x) \<Longrightarrow> user_key k \<Longrightarrow> vers w' k b' \<noteq> None \<Longrightarrow>
      b' = b \<or> vers w k b' \<noteq> None"
    and set_all_ok: "ok w \<Longrightarrow> entries_for user_key es \<Longrightarrow>
      op_SetAll W w es ine b = (w', x) \<Longrightarrow> ok w' \<and> turl w' = turl w"
    and put_same: "put m b v b = Some v"
    and put_other: "b' \<noteq> b \<Longrightarrow> put m b v b' = None \<or> put m b v b' = m b'"
begin

text \<open>A value just written is what a read at its block (or later, if nothing newer is stored) sees.\<close>

lemma read_after_write:
  assumes "ok w" "entries_for user_key es" "op_SetAll W w es False b = (w', Inr ())"
    and "user_key k" "last_write es k = Some v" "b \<le> c" "\<And>b'. vers w k b' \<noteq> None \<Longrightarrow> b' \<le> b"
  shows "latest_at (vers w' k) c = Some v"
proof -
  have e: "vers w' k = put (vers w k) b v"
    using set_all_writes [OF assms(1-4)] assms(5) by simp
  show ?thesis
  proof (rule latest_at_SomeI [of _ b])
    show "vers w' k b = Some v" by (simp add: e put_same)
    show "b' \<le> b" if "b' \<le> c" "vers w' k b' \<noteq> None" for b'
      using that put_other [of b' b "vers w k" v] assms(7) [of b'] by (cases "b' = b") (auto simp: e)
  qed (rule assms(6))
qed

end

text \<open>The contract on fewer states and keys.\<close>

lemma entries_for_mono: "entries_for U es \<Longrightarrow> (\<And>k. U k \<Longrightarrow> U' k) \<Longrightarrow> entries_for U' es"
  by (auto simp: entries_for_def)

context kv_store
begin

lemma restricted:
  assumes "\<And>w es ine b w' x. P w \<Longrightarrow> op_SetAll W w es ine b = (w', x) \<Longrightarrow> P w'"
  shows "kv_store W vers turl (\<lambda>w. ok w \<and> P w) (\<lambda>k. user_key k \<and> Q k) put"
proof
  have mono: "entries_for (\<lambda>k. user_key k \<and> Q k) es \<Longrightarrow> entries_for user_key es" for es
    by (erule entries_for_mono) simp
  fix w w' es ine b x k
  assume "ok w \<and> P w" and es: "entries_for (\<lambda>k. user_key k \<and> Q k) es"
  then have w: "ok w" and es': "entries_for user_key es" using mono by auto
  show "op_SetAll W w es ine b = (w', x) \<Longrightarrow> (ok w' \<and> P w') \<and> turl w' = turl w"
    using set_all_ok [OF w es'] assms \<open>ok w \<and> P w\<close> by blast
  assume "user_key k \<and> Q k"
  then have k: "user_key k" by simp
  show "op_SetAll W w es False b = (w', Inr ()) \<Longrightarrow>
      vers w' k = (case last_write es k of None \<Rightarrow> vers w k | Some v \<Rightarrow> put (vers w k) b v)"
    using set_all_writes [OF w es' _ k] by blast
  show "op_SetAll W w es ine b = (w', x) \<Longrightarrow> k \<notin> entry_keys es \<Longrightarrow> vers w' k = vers w k"
    using set_all_frame [OF w es' _ k] by blast
  show "op_SetAll W w es ine b = (w', x) \<Longrightarrow> vers w' k b' \<noteq> None \<Longrightarrow> b' = b \<or> vers w k b' \<noteq> None" for b'
    using set_all_adds [OF w es' _ k] by blast
  show "op_SetAll W w es True b = (w', x) \<Longrightarrow> vers w k \<noteq> (\<lambda>_. None) \<Longrightarrow> vers w' k = vers w k"
    using set_all_keeps [OF w es' _ k] by blast
  show "op_SetAll W w es True b = (w', Inr ()) \<Longrightarrow> k \<in> entry_keys es \<Longrightarrow> vers w k = (\<lambda>_. None) \<Longrightarrow>
      \<exists>v. (k, v) \<in> set (map entry_kv es) \<and> vers w' k = put (\<lambda>_. None) b v"
    using set_all_inserts [OF w es' _ k] by blast
qed (use get_answers put_same put_other in blast)+

end

text \<open>A backend whose library calls do not fail: every well-formed call returns.\<close>

locale reliable_kv_store = kv_store +
  assumes get_returns: "ok w \<Longrightarrow> GetRequest_Keys req = map Some ks \<Longrightarrow>
      \<forall>k\<in>set ks. user_key (Key_Bytes k) \<Longrightarrow> \<exists>r. op_Get W w req = Inr r"
    and set_all_returns: "ok w \<Longrightarrow> entries_for user_key es \<Longrightarrow>
      snd (op_SetAll W w es ine b) = Inr ()"
begin

lemma get_eq:
  assumes "ok w" "GetRequest_Keys req = map Some ks" "\<forall>k\<in>set ks. user_key (Key_Bytes k)"
  shows "op_Get W w req = Inr (read_response (turl w) (vers w) (GetRequest_BlockNumber req) ks)"
  using get_returns [OF assms] get_answers [OF assms] by blast

lemma set_all_total:
  assumes "ok w" "entries_for user_key es"
  obtains w' where "op_SetAll W w es ine b = (w', Inr ())"
  using set_all_returns [OF assms, of ine b] by (cases "op_SetAll W w es ine b") auto

end

end
