(* ===== verification/Grpc_Server.thy ===== *)
theory Grpc_Server
  imports Grpc_Auth Store_Interface
begin

text \<open>
  The gRPC servers: the v2 read service (\<open>grpc/server.go\<close>), the legacy v1 service over the
  same store (\<open>grpc/legacy/server.go\<close>), the feed service of the remote-feed mode
  (\<open>grpc/feed/server.go\<close>), and the method handlers and registrations of the generated
  code (\<open>service_grpc.pb.go\<close> v1 and v2, \<open>feed_grpc.pb.go\<close>).  A server holds interface
  values and closures of the process, so its fields are operations on the state \<open>'w\<close> of
  the process that holds the store.
\<close>

section \<open>The v2 read service\<close>

text \<open>\<open>RemoteFeedStore\<close>: reads, batch writes and the readiness flag.\<close>

record 'w remote_feed_ops = "'w store_ops" +
  op_SetReady :: "'w \<Rightarrow> bool \<Rightarrow> 'w \<times> unit res"
  op_IsReady :: "'w \<Rightarrow> bool res"

text \<open>\<open>'d\<close> stands for the servers that \<open>dgrpc\<close>'s factory returns.\<close>

record ('w, 'd) GrpcServer =
  gs_store :: "'w store_ops"
  gs_dgrpcServers :: "'d list"
  gs_headBlockFetcher :: "'w \<Rightarrow> u64"
  gs_readyFunc :: "('w \<Rightarrow> bool res) option"
  gs_feedServer :: "'w remote_feed_ops option"

definition NewStoreServer :: "'w store_ops \<Rightarrow> ('w \<Rightarrow> u64) \<Rightarrow> ('w, 'd) GrpcServer" where
  "NewStoreServer store headBlockFetcher =
     \<lparr>gs_store = store, gs_dgrpcServers = [], gs_headBlockFetcher = headBlockFetcher,
      gs_readyFunc = None, gs_feedServer = None\<rparr>"

definition NewRemoteFeedServer :: "'w remote_feed_ops \<Rightarrow> ('w, 'd) GrpcServer" where
  "NewRemoteFeedServer store =
     \<lparr>gs_store = store_ops.truncate store, gs_dgrpcServers = [], gs_headBlockFetcher = (\<lambda>_. - 1),
      gs_readyFunc = Some (op_IsReady store), gs_feedServer = Some store\<rparr>"

definition grpc_checkReady :: "('w, 'd) GrpcServer \<Rightarrow> 'w \<Rightarrow> bool res" where
  "grpc_checkReady S w =
     (case gs_readyFunc S of
        None \<Rightarrow> Inr True
      | Some readyFunc \<Rightarrow> wrap_res ''checking store readiness'' (readyFunc w))"

text \<open>The number of keys found, for the log: the loop dereferences every entry.\<close>

fun found_keys :: "QueriedEntry option list \<Rightarrow> nat res" where
  "found_keys [] = Inr 0"
| "found_keys (None # qs) = nil_deref"
| "found_keys (Some q # qs) =
     bind_res (found_keys qs) (\<lambda>n.
       Inr (if QueriedEntry_Code q = RESPONSE_CODE_FOUND then Suc n else n))"

definition not_reached :: GetResponse where
  "not_reached = \<lparr>GetResponse_BlockReached = False, GetResponse_Entries = None\<rparr>"

definition grpc_Get :: "('w, 'd) GrpcServer \<Rightarrow> 'w \<Rightarrow> GetRequest \<Rightarrow> GetResponse res" where
  "grpc_Get S w req =
     bind_res (grpc_checkReady S w) (\<lambda>ready.
       if \<not> ready then Inr not_reached
       else if gs_headBlockFetcher S w < GetRequest_BlockNumber req then Inr not_reached
       else bind_res (wrap_res ''getting keys from store'' (op_Get (gs_store S) w req)) (\<lambda>r.
         case GetResponse_Entries r of
           None \<Rightarrow> nil_deref
         | Some entries \<Rightarrow>
             bind_res (found_keys (QueriedEntries_Entries entries)) (\<lambda>foundKeyCount.
               Inr (r\<lparr>GetResponse_BlockReached := True\<rparr>))))"

definition grpc_GetFirst :: "('w, 'd) GrpcServer \<Rightarrow> 'w \<Rightarrow> GetRequest \<Rightarrow> GetResponse res" where
  "grpc_GetFirst S w req =
     bind_res (grpc_checkReady S w) (\<lambda>ready.
       if \<not> ready then Inr not_reached
       else if gs_headBlockFetcher S w < GetRequest_BlockNumber req then Inr not_reached
       else bind_res (wrap_res ''getting first keys from store'' (op_GetFirst (gs_store S) w req)) (\<lambda>r.
         case GetResponse_Entries r of
           None \<Rightarrow> nil_deref
         | Some entries \<Rightarrow> Inr (r\<lparr>GetResponse_BlockReached := True\<rparr>)))"

section \<open>The legacy v1 service\<close>

record 'w LegacyServer =
  ls_store :: "'w store_ops"
  ls_headBlockFetcher :: "'w \<Rightarrow> u64"

definition legacy_NewServer :: "'w store_ops \<Rightarrow> ('w \<Rightarrow> u64) \<Rightarrow> 'w LegacyServer" where
  "legacy_NewServer store headBlockFetcher =
     \<lparr>ls_store = store, ls_headBlockFetcher = headBlockFetcher\<rparr>"

fun legacy_code :: "ResponseCode \<Rightarrow> V1ResponseCode" where
  "legacy_code RESPONSE_CODE_FOUND = V1_RESPONSE_CODE_FOUND"
| "legacy_code RESPONSE_CODE_NOT_FOUND = V1_RESPONSE_CODE_NOT_FOUND"
| "legacy_code RESPONSE_CODE_NOT_FOUND_FINALIZE = V1_RESPONSE_CODE_NOT_FOUND_FINALIZE"
| "legacy_code _ = V1_RESPONSE_CODE_UNSPECIFIED"

definition v1_response :: "bool \<Rightarrow> V1ResponseCode \<Rightarrow> Any option \<Rightarrow> V1GetResponse" where
  "v1_response reached code value =
     \<lparr>V1GetResponse_BlockReached = reached, V1GetResponse_Code = code, V1GetResponse_Value = value\<rparr>"

text \<open>The answer of \<open>Get\<close> for its only entry: the value is set for FOUND only.\<close>

definition legacy_get_entry :: "bool \<Rightarrow> QueriedEntry option \<Rightarrow> V1GetResponse" where
  "legacy_get_entry omitDeleted qe =
     (if qe = None then v1_response True V1_RESPONSE_CODE_UNSPECIFIED None
      else let code = QueriedEntry_GetCode qe in
        if omitDeleted \<and> code = RESPONSE_CODE_NOT_FOUND_FINALIZE
        then v1_response True V1_RESPONSE_CODE_NOT_FOUND None
        else v1_response True (legacy_code code)
          (if code = RESPONSE_CODE_FOUND then Entry_GetValue (QueriedEntry_GetEntry qe) else None))"

definition legacy_Get :: "'w LegacyServer \<Rightarrow> 'w \<Rightarrow> V1GetRequest \<Rightarrow> V1GetResponse res" where
  "legacy_Get S w req =
     (if ls_headBlockFetcher S w < V1GetRequest_BlockNumber req
      then Inr (v1_response False V1_RESPONSE_CODE_UNSPECIFIED None)
      else bind_res (wrap_res ''getting key from store (legacy)'' (op_Get (ls_store S) w
          \<lparr>GetRequest_BlockNumber = V1GetRequest_BlockNumber req,
           GetRequest_BlockHash = V1GetRequest_BlockHash req,
           GetRequest_Keys = [Some \<lparr>Key_Bytes = V1GetRequest_Key req\<rparr>]\<rparr>)) (\<lambda>v2resp.
        Inr (legacy_get_entry (V1GetRequest_OmitDeleted req)
          (case QueriedEntries_GetEntries (GetResponse_GetEntries (Some v2resp)) of
             [] \<Rightarrow> None
           | qe # _ \<Rightarrow> qe))))"

text \<open>The answer of \<open>GetAll\<close> for an entry: the value is set for every code.\<close>

definition legacy_getall_entry :: "bool \<Rightarrow> QueriedEntry option \<Rightarrow> V1ResponseEntry" where
  "legacy_getall_entry omitDeleted qe =
     (let code = QueriedEntry_GetCode qe;
          e = QueriedEntry_GetEntry qe;
          keyBytes = (if e = None then [] else Key_GetBytes (Entry_GetKey e))
      in if omitDeleted \<and> code = RESPONSE_CODE_NOT_FOUND_FINALIZE
         then \<lparr>V1ResponseEntry_Key = keyBytes,
               V1ResponseEntry_Response = Some (v1_response True V1_RESPONSE_CODE_NOT_FOUND None)\<rparr>
         else \<lparr>V1ResponseEntry_Key = keyBytes,
               V1ResponseEntry_Response = Some (v1_response True (legacy_code code)
                 (if e = None then None else Entry_GetValue e))\<rparr>)"

definition legacy_GetAll :: "'w LegacyServer \<Rightarrow> 'w \<Rightarrow> V1GetAllRequest \<Rightarrow> V1GetAllResponse res" where
  "legacy_GetAll S w req =
     (if ls_headBlockFetcher S w < V1GetAllRequest_BlockNumber req
      then Inr \<lparr>V1GetAllResponse_Entries = [], V1GetAllResponse_BlockReached = False\<rparr>
      else bind_res (wrap_res ''getting all keys from store (legacy)'' (op_Get (ls_store S) w
          \<lparr>GetRequest_BlockNumber = V1GetAllRequest_BlockNumber req,
           GetRequest_BlockHash = V1GetAllRequest_BlockHash req,
           GetRequest_Keys = map (\<lambda>k. Some \<lparr>Key_Bytes = k\<rparr>) (V1GetAllRequest_Keys req)\<rparr>)) (\<lambda>v2resp.
        Inr \<lparr>V1GetAllResponse_Entries =
               map (\<lambda>qe. Some (legacy_getall_entry (V1GetAllRequest_OmitDeleted req) qe))
                 (QueriedEntries_GetEntries (GetResponse_GetEntries (Some v2resp))),
             V1GetAllResponse_BlockReached = True\<rparr>))"

section \<open>The feed service\<close>

definition feed_Set :: "'w remote_feed_ops \<Rightarrow> 'w \<Rightarrow> SetRequest \<Rightarrow> 'w \<times> SetResponse res" where
  "feed_Set store w req =
     (case SetRequest_GetEntries (Some req) of
        None \<Rightarrow> (w, Inr SetResponse)
      | Some entries \<Rightarrow>
          if SinkEntries_Entries entries = [] then (w, Inr SetResponse)
          else (case op_SetAll store w (SinkEntries_Entries entries) (SinkEntries_IfNotExist entries) 0 of
                  (w', r) \<Rightarrow> (w', bind_res (wrap_res ''setting entries'' r) (\<lambda>_. Inr SetResponse))))"

definition feed_SetReady :: "'w remote_feed_ops \<Rightarrow> 'w \<Rightarrow> SetReadyRequest \<Rightarrow> 'w \<times> SetReadyResponse res" where
  "feed_SetReady store w req =
     (case op_SetReady store w (SetReadyRequest_GetReady (Some req)) of
        (w', r) \<Rightarrow> (w', bind_res (wrap_res ''setting readiness'' r) (\<lambda>_. Inr SetReadyResponse)))"

section \<open>The generated method handlers\<close>

text \<open>
  The server interfaces, and the implementations that answer Unimplemented.  A handler
  decodes its request (\<open>dec\<close> fills the message it is given), and calls the method,
  through the interceptor when there is one.
\<close>

record ('c, 'w) StoreServer =
  srv_Get :: "'c \<Rightarrow> GetRequest \<Rightarrow> 'w \<Rightarrow> 'w \<times> GetResponse res"
  srv_GetFirst :: "'c \<Rightarrow> GetRequest \<Rightarrow> 'w \<Rightarrow> 'w \<times> GetResponse res"

record ('c, 'w) V1StoreServer =
  v1_Get :: "'c \<Rightarrow> V1GetRequest \<Rightarrow> 'w \<Rightarrow> 'w \<times> V1GetResponse res"
  v1_GetAll :: "'c \<Rightarrow> V1GetAllRequest \<Rightarrow> 'w \<Rightarrow> 'w \<times> V1GetAllResponse res"

record ('c, 'w) FeedServer =
  fd_Set :: "'c \<Rightarrow> SetRequest \<Rightarrow> 'w \<Rightarrow> 'w \<times> SetResponse res"
  fd_SetReady :: "'c \<Rightarrow> SetReadyRequest \<Rightarrow> 'w \<Rightarrow> 'w \<times> SetReadyResponse res"

definition unimplemented :: "string \<Rightarrow> 'a res" where
  "unimplemented m = Inl (Error (Status ''Unimplemented'' (''method '' @ m @ '' not implemented'')))"

definition UnimplementedStoreServer :: "('c, 'w) StoreServer" where
  "UnimplementedStoreServer =
     \<lparr>srv_Get = (\<lambda>ctx req w. (w, unimplemented ''Get'')),
      srv_GetFirst = (\<lambda>ctx req w. (w, unimplemented ''GetFirst''))\<rparr>"

definition UnimplementedV1StoreServer :: "('c, 'w) V1StoreServer" where
  "UnimplementedV1StoreServer =
     \<lparr>v1_Get = (\<lambda>ctx req w. (w, unimplemented ''Get'')),
      v1_GetAll = (\<lambda>ctx req w. (w, unimplemented ''GetAll''))\<rparr>"

definition UnimplementedFeedServer :: "('c, 'w) FeedServer" where
  "UnimplementedFeedServer =
     \<lparr>fd_Set = (\<lambda>ctx req w. (w, unimplemented ''Set'')),
      fd_SetReady = (\<lambda>ctx req w. (w, unimplemented ''SetReady''))\<rparr>"

text \<open>What the handlers share: \<open>run\<close> is the call of the method on an asserted request.\<close>

definition unary_handler :: "message \<Rightarrow> string \<Rightarrow> ('c \<Rightarrow> message \<Rightarrow> 'w \<Rightarrow> 'w \<times> message res) \<Rightarrow>
    'c \<Rightarrow> (message \<Rightarrow> error + message) \<Rightarrow> ('c, 'w) unary_interceptor option \<Rightarrow> 'w \<Rightarrow> 'w \<times> message res" where
  "unary_handler zero fullMethod run ctx dec interceptor w =
     (case dec zero of
        Inl e \<Rightarrow> (w, Inl (Error e))
      | Inr request \<Rightarrow>
          (case interceptor of
             None \<Rightarrow> run ctx request w
           | Some i \<Rightarrow> i ctx request fullMethod run w))"

definition answer_msg :: "('a \<Rightarrow> message) \<Rightarrow> 'w \<times> 'a res \<Rightarrow> 'w \<times> message res" where
  "answer_msg f p = (fst p, bind_res (snd p) (\<lambda>r. Inr (f r)))"

fun call_Get :: "('c, 'w) StoreServer \<Rightarrow> ('c, 'w) handler" where
  "call_Get srv ctx (Msg_GetRequest r) w = answer_msg Msg_GetResponse (srv_Get srv ctx r w)"
| "call_Get srv ctx _ w = (w, assertion_panic)"

fun call_GetFirst :: "('c, 'w) StoreServer \<Rightarrow> ('c, 'w) handler" where
  "call_GetFirst srv ctx (Msg_GetRequest r) w = answer_msg Msg_GetResponse (srv_GetFirst srv ctx r w)"
| "call_GetFirst srv ctx _ w = (w, assertion_panic)"

fun call_V1Get :: "('c, 'w) V1StoreServer \<Rightarrow> ('c, 'w) handler" where
  "call_V1Get srv ctx (Msg_V1GetRequest r) w = answer_msg Msg_V1GetResponse (v1_Get srv ctx r w)"
| "call_V1Get srv ctx _ w = (w, assertion_panic)"

fun call_V1GetAll :: "('c, 'w) V1StoreServer \<Rightarrow> ('c, 'w) handler" where
  "call_V1GetAll srv ctx (Msg_V1GetAllRequest r) w = answer_msg Msg_V1GetAllResponse (v1_GetAll srv ctx r w)"
| "call_V1GetAll srv ctx _ w = (w, assertion_panic)"

fun call_Set :: "('c, 'w) FeedServer \<Rightarrow> ('c, 'w) handler" where
  "call_Set srv ctx (Msg_SetRequest r) w = answer_msg Msg_SetResponse (fd_Set srv ctx r w)"
| "call_Set srv ctx _ w = (w, assertion_panic)"

fun call_SetReady :: "('c, 'w) FeedServer \<Rightarrow> ('c, 'w) handler" where
  "call_SetReady srv ctx (Msg_SetReadyRequest r) w = answer_msg Msg_SetReadyResponse (fd_SetReady srv ctx r w)"
| "call_SetReady srv ctx _ w = (w, assertion_panic)"

type_synonym ('c, 'w) method_handler =
  "'c \<Rightarrow> (message \<Rightarrow> error + message) \<Rightarrow> ('c, 'w) unary_interceptor option \<Rightarrow> 'w \<Rightarrow> 'w \<times> message res"

definition empty_GetRequest :: GetRequest where
  "empty_GetRequest = \<lparr>GetRequest_BlockNumber = 0, GetRequest_BlockHash = [], GetRequest_Keys = []\<rparr>"

definition Store_Get_Handler :: "('c, 'w) StoreServer \<Rightarrow> ('c, 'w) method_handler" where
  "Store_Get_Handler srv = unary_handler (Msg_GetRequest empty_GetRequest)
     ''/sf.substreams.foundational_store.service.v2.Store/Get'' (call_Get srv)"

definition Store_GetFirst_Handler :: "('c, 'w) StoreServer \<Rightarrow> ('c, 'w) method_handler" where
  "Store_GetFirst_Handler srv = unary_handler (Msg_GetRequest empty_GetRequest)
     ''/sf.substreams.foundational_store.service.v2.Store/GetFirst'' (call_GetFirst srv)"

definition V1Store_Get_Handler :: "('c, 'w) V1StoreServer \<Rightarrow> ('c, 'w) method_handler" where
  "V1Store_Get_Handler srv = unary_handler
     (Msg_V1GetRequest \<lparr>V1GetRequest_BlockNumber = 0, V1GetRequest_BlockHash = [],
        V1GetRequest_OmitDeleted = False, V1GetRequest_Key = []\<rparr>)
     ''/sf.substreams.foundational_store.v1.Store/Get'' (call_V1Get srv)"

definition V1Store_GetAll_Handler :: "('c, 'w) V1StoreServer \<Rightarrow> ('c, 'w) method_handler" where
  "V1Store_GetAll_Handler srv = unary_handler
     (Msg_V1GetAllRequest \<lparr>V1GetAllRequest_BlockNumber = 0, V1GetAllRequest_BlockHash = [],
        V1GetAllRequest_OmitDeleted = False, V1GetAllRequest_Keys = []\<rparr>)
     ''/sf.substreams.foundational_store.v1.Store/GetAll'' (call_V1GetAll srv)"

definition Feed_Set_Handler :: "('c, 'w) FeedServer \<Rightarrow> ('c, 'w) method_handler" where
  "Feed_Set_Handler srv = unary_handler (Msg_SetRequest \<lparr>SetRequest_Entries = None\<rparr>)
     ''/sf.substreams.foundational_store.feed.v2.Feed/Set'' (call_Set srv)"

definition Feed_SetReady_Handler :: "('c, 'w) FeedServer \<Rightarrow> ('c, 'w) method_handler" where
  "Feed_SetReady_Handler srv = unary_handler (Msg_SetReadyRequest \<lparr>SetReadyRequest_Ready = False\<rparr>)
     ''/sf.substreams.foundational_store.feed.v2.Feed/SetReady'' (call_SetReady srv)"

section \<open>Service descriptions and registration\<close>

record ('c, 'w) ServiceDesc =
  sd_ServiceName :: string
  sd_Methods :: "(string \<times> ('c, 'w) method_handler) list"

definition Store_ServiceDesc :: "('c, 'w) StoreServer \<Rightarrow> ('c, 'w) ServiceDesc" where
  "Store_ServiceDesc srv = \<lparr>sd_ServiceName = ''sf.substreams.foundational_store.service.v2.Store'',
     sd_Methods = [(''Get'', Store_Get_Handler srv), (''GetFirst'', Store_GetFirst_Handler srv)]\<rparr>"

definition V1Store_ServiceDesc :: "('c, 'w) V1StoreServer \<Rightarrow> ('c, 'w) ServiceDesc" where
  "V1Store_ServiceDesc srv = \<lparr>sd_ServiceName = ''sf.substreams.foundational_store.v1.Store'',
     sd_Methods = [(''Get'', V1Store_Get_Handler srv), (''GetAll'', V1Store_GetAll_Handler srv)]\<rparr>"

definition Feed_ServiceDesc :: "('c, 'w) FeedServer \<Rightarrow> ('c, 'w) ServiceDesc" where
  "Feed_ServiceDesc srv = \<lparr>sd_ServiceName = ''sf.substreams.foundational_store.feed.v2.Feed'',
     sd_Methods = [(''Set'', Feed_Set_Handler srv), (''SetReady'', Feed_SetReady_Handler srv)]\<rparr>"

text \<open>The servers as implementations of the generated interfaces (the context is not used).\<close>

definition grpc_StoreServer :: "('w, 'd) GrpcServer \<Rightarrow> ('c, 'w) StoreServer" where
  "grpc_StoreServer S = \<lparr>srv_Get = (\<lambda>ctx req w. (w, grpc_Get S w req)),
     srv_GetFirst = (\<lambda>ctx req w. (w, grpc_GetFirst S w req))\<rparr>"

definition legacy_StoreServer :: "'w LegacyServer \<Rightarrow> ('c, 'w) V1StoreServer" where
  "legacy_StoreServer S = \<lparr>v1_Get = (\<lambda>ctx req w. (w, legacy_Get S w req)),
     v1_GetAll = (\<lambda>ctx req w. (w, legacy_GetAll S w req))\<rparr>"

definition feed_FeedServer :: "'w remote_feed_ops \<Rightarrow> ('c, 'w) FeedServer" where
  "feed_FeedServer store = \<lparr>fd_Set = (\<lambda>ctx req w. feed_Set store w req),
     fd_SetReady = (\<lambda>ctx req w. feed_SetReady store w req)\<rparr>"

text \<open>The registrations of \<open>newServer\<close>: the two read services, and the feed if there is one.\<close>

definition registrations :: "('w, 'd) GrpcServer \<Rightarrow> ('c, 'w) ServiceDesc list" where
  "registrations S =
     [Store_ServiceDesc (grpc_StoreServer S),
      V1Store_ServiceDesc (legacy_StoreServer (legacy_NewServer (gs_store S) (gs_headBlockFetcher S)))]
     @ (case gs_feedServer S of None \<Rightarrow> [] | Some store \<Rightarrow> [Feed_ServiceDesc (feed_FeedServer store)])"

text \<open>
  \<open>newServer\<close>: \<open>factory\<close> is \<open>factory.ServerFromOptions\<close>, which gets the interceptors and
  the registrations; the server is remembered for the shutdown.
\<close>

definition grpc_newServer :: "('a, 'c, 'h, 't, 'w) auth_api \<Rightarrow>
    (('c, 'w) unary_interceptor list \<Rightarrow> ('t, 'w) stream_interceptor list \<Rightarrow> ('c, 'w) ServiceDesc list \<Rightarrow> 'd) \<Rightarrow>
    ('w, 'd) GrpcServer \<Rightarrow> 'a AuthConfig \<Rightarrow> ('w, 'd) GrpcServer \<times> 'd" where
  "grpc_newServer A factory S auth =
     (let srv = factory (authUnaryInterceptors A auth) (authStreamInterceptors A auth) (registrations S)
      in (S\<lparr>gs_dgrpcServers := gs_dgrpcServers S @ [srv]\<rparr>, srv))"

definition healthCheck :: "bool res" where
  "healthCheck = Inr True"

text \<open>
  The listeners that a run launches, in the order of the calls: the internal listener is
  created first.
\<close>

definition grpc_Run :: "('a, 'c, 'h, 't, 'w) auth_api \<Rightarrow>
    (('c, 'w) unary_interceptor list \<Rightarrow> ('t, 'w) stream_interceptor list \<Rightarrow> ('c, 'w) ServiceDesc list \<Rightarrow> 'd) \<Rightarrow>
    ('w, 'd) GrpcServer \<Rightarrow> string \<Rightarrow> 'a AuthConfig \<Rightarrow> ('w, 'd) GrpcServer \<times> (string \<times> 'd) list" where
  "grpc_Run A factory S addr auth =
     (let (S1, srv) = grpc_newServer A factory S auth in (S1, [(addr, srv)]))"

definition grpc_RunWithInternal :: "('a, 'c, 'h, 't, 'w) auth_api \<Rightarrow>
    (('c, 'w) unary_interceptor list \<Rightarrow> ('t, 'w) stream_interceptor list \<Rightarrow> ('c, 'w) ServiceDesc list \<Rightarrow> 'd) \<Rightarrow>
    ('w, 'd) GrpcServer \<Rightarrow> string \<Rightarrow> 'a AuthConfig \<Rightarrow> string \<Rightarrow> 'a AuthConfig \<Rightarrow>
    ('w, 'd) GrpcServer \<times> (string \<times> 'd) list" where
  "grpc_RunWithInternal A factory S addr auth internalAddr internalAuth =
     (let (S1, internal) = grpc_newServer A factory S internalAuth;
          (S2, srv) = grpc_newServer A factory S1 auth
      in (S2, [(internalAddr, internal), (addr, srv)]))"

text \<open>The calls of \<open>Shutdown\<close>: every server that was created, with 15 seconds, then the shutter.\<close>

datatype 'd shutdown_call = ServerShutdown 'd nat | ShutterShutdown "error option"

definition grpc_Shutdown :: "('w, 'd) GrpcServer \<Rightarrow> error option \<Rightarrow> 'd shutdown_call list" where
  "grpc_Shutdown S err = map (\<lambda>server. ServerShutdown server 15) (gs_dgrpcServers S) @ [ShutterShutdown err]"

end
