(* ===== verification/Fork_Aware.thy ===== *)
theory Fork_Aware
  imports Store_Interface
begin

text \<open>
  The fork-aware store (\<open>store/ForkAware/store.go\<close>): a cache of entries of blocks that are
  not final yet in front of any \<open>store.Store\<close>.  It is a definition over the operations
  \<open>W\<close> of the wrapped store; every method holds the mutex from start to end, so that a
  method is one step (\<open>Fork_Concurrent\<close> has the bodies step by step and the mutex).  The lemmas are proved for every wrapped store that fulfils the
  contract \<open>kv_store\<close>.
\<close>

section \<open>State and operations\<close>

record cachedEntry =
  ce_entry :: "Entry option"
  ce_blockNumber :: u64

record 'w fork_store =
  fs_wrapped :: 'w
  fs_cache :: "(bytes \<times> cachedEntry) list"
  fs_flushUpToBlock :: u64

definition fork_NewStore :: "'w \<Rightarrow> 'w fork_store" where
  "fork_NewStore wrapped = \<lparr>fs_wrapped = wrapped, fs_cache = [], fs_flushUpToBlock = 0\<rparr>"

text \<open>\<open>SetAll\<close>: the entries to set, before the wrapped store is asked.\<close>

fun fork_candidates :: "(bytes \<times> cachedEntry) list \<Rightarrow> bool \<Rightarrow> Entry option list \<Rightarrow> Entry option list res" where
  "fork_candidates cache ifNotExist [] = Inr []"
| "fork_candidates cache ifNotExist (entry # entries) =
     bind_res (entry_key_bytes entry) (\<lambda>key.
       if ifNotExist \<and> map_of cache key \<noteq> None
       then fork_candidates cache ifNotExist entries
       else bind_res (fork_candidates cache ifNotExist entries) (\<lambda>toSet. Inr (entry # toSet)))"

text \<open>The loop over the answers: \<open>queried.Code\<close> of a nil answer and \<open>toSet[i]\<close> out of range panic.\<close>

fun fork_filter_found :: "QueriedEntry option list \<Rightarrow> Entry option list \<Rightarrow> Entry option list res" where
  "fork_filter_found [] toSet = Inr []"
| "fork_filter_found (None # queried) toSet = nil_deref"
| "fork_filter_found (Some q # queried) toSet =
     (if QueriedEntry_Code q \<noteq> RESPONSE_CODE_FOUND
      then (case toSet of
              [] \<Rightarrow> index_panic
            | entry # rest \<Rightarrow> bind_res (fork_filter_found queried rest) (\<lambda>filtered. Inr (entry # filtered)))
      else fork_filter_found queried (tl toSet))"

definition fork_existing :: "('w, 'x) store_ops_scheme \<Rightarrow> 'w \<Rightarrow> u64 \<Rightarrow> Entry option list \<Rightarrow>
    Entry option list res" where
  "fork_existing W wrapped blockNumber toSet =
     (let req = \<lparr>GetRequest_BlockNumber = blockNumber, GetRequest_BlockHash = [],
                 GetRequest_Keys = map Entry_GetKey toSet\<rparr>
      in case op_Get W wrapped req of
           Inl f \<Rightarrow> wrap_res ''failed to check existence in wrapped store'' (Inl f)
         | Inr resp \<Rightarrow>
             (case GetResponse_Entries resp of
                None \<Rightarrow> nil_deref
              | Some es \<Rightarrow> fork_filter_found (QueriedEntries_Entries es) toSet))"

definition fork_cache_all :: "u64 \<Rightarrow> Entry option list \<Rightarrow> (bytes \<times> cachedEntry) list \<Rightarrow>
    (bytes \<times> cachedEntry) list" where
  "fork_cache_all blockNumber toSet cache =
     fold (\<lambda>entry. AList.update (fst (entry_kv entry))
             \<lparr>ce_entry = entry, ce_blockNumber = blockNumber\<rparr>) toSet cache"

definition fork_SetAll :: "('w, 'x) store_ops_scheme \<Rightarrow> 'w fork_store \<Rightarrow> Entry option list \<Rightarrow>
    bool \<Rightarrow> u64 \<Rightarrow> 'w fork_store \<times> unit res" where
  "fork_SetAll W s entries ifNotExist blockNumber =
     (case fork_candidates (fs_cache s) ifNotExist entries of
        Inl f \<Rightarrow> (s, Inl f)
      | Inr candidates \<Rightarrow>
          (case (if ifNotExist \<and> candidates \<noteq> []
                 then fork_existing W (fs_wrapped s) blockNumber candidates
                 else Inr candidates) of
             Inl f \<Rightarrow> (s, Inl f)
           | Inr toSet \<Rightarrow>
               (let s1 = s\<lparr>fs_cache := fork_cache_all blockNumber toSet (fs_cache s)\<rparr>;
                    toFlush = filter (\<lambda>entry. blockNumber \<le> fs_flushUpToBlock s) toSet
                in if toFlush = [] then (s1, Inr ())
                   else (case op_SetAll W (fs_wrapped s) toFlush ifNotExist blockNumber of
                           (w, r) \<Rightarrow> (s1\<lparr>fs_wrapped := w\<rparr>,
                             wrap_res ''failed to set entries in wrapped foundational-store'' r)))))"

text \<open>\<open>Get\<close> and \<open>GetFirst\<close>: the overlay of the cache on the answers.\<close>

fun fork_overlay :: "(bytes \<times> cachedEntry) list \<Rightarrow> u64 \<Rightarrow> nat \<Rightarrow> Key option list \<Rightarrow>
    QueriedEntries option \<Rightarrow> QueriedEntries option res" where
  "fork_overlay cache blockNumber i [] entries = Inr entries"
| "fork_overlay cache blockNumber i (key # keys) entries =
     bind_res (key_bytes key) (\<lambda>k.
       case map_of cache k of
         Some cached \<Rightarrow>
           if ce_blockNumber cached \<le> blockNumber
           then (case entries of
                   None \<Rightarrow> nil_deref
                 | Some es \<Rightarrow>
                     if i < length (QueriedEntries_Entries es)
                     then fork_overlay cache blockNumber (i + 1) keys
                       (Some (es\<lparr>QueriedEntries_Entries := (QueriedEntries_Entries es)
                         [i := Some \<lparr>QueriedEntry_Code = RESPONSE_CODE_FOUND,
                                     QueriedEntry_Entry = ce_entry cached\<rparr>]\<rparr>))
                     else index_panic)
           else fork_overlay cache blockNumber (i + 1) keys entries
       | None \<Rightarrow> fork_overlay cache blockNumber (i + 1) keys entries)"

definition fork_Get :: "('w, 'x) store_ops_scheme \<Rightarrow> 'w fork_store \<Rightarrow> GetRequest \<Rightarrow> GetResponse res" where
  "fork_Get W s request =
     (case op_Get W (fs_wrapped s) request of
        Inl f \<Rightarrow> Inl f
      | Inr resp \<Rightarrow>
          bind_res (fork_overlay (fs_cache s) (GetRequest_BlockNumber request) 0
              (GetRequest_Keys request) (GetResponse_Entries resp))
            (\<lambda>entries. Inr (resp\<lparr>GetResponse_Entries := entries\<rparr>)))"

definition fork_GetFirst :: "('w, 'x) store_ops_scheme \<Rightarrow> 'w fork_store \<Rightarrow> GetRequest \<Rightarrow> GetResponse res" where
  "fork_GetFirst W s request =
     (case op_GetFirst W (fs_wrapped s) request of
        Inl f \<Rightarrow> Inl f
      | Inr resp \<Rightarrow>
          bind_res (fork_overlay (fs_cache s) (GetRequest_BlockNumber request) 0
              (GetRequest_Keys request) (GetResponse_Entries resp))
            (\<lambda>entries. Inr (resp\<lparr>GetResponse_Entries := entries\<rparr>)))"

text \<open>\<open>ord\<close> is the order in which the range over the cache visits it.\<close>

definition fork_FlushUpToBlock :: "('w, 'x) store_ops_scheme \<Rightarrow>
    ((bytes \<times> cachedEntry) list \<Rightarrow> (bytes \<times> cachedEntry) list) \<Rightarrow> 'w fork_store \<Rightarrow> u64 \<Rightarrow> bool \<Rightarrow>
    'w fork_store \<times> unit res" where
  "fork_FlushUpToBlock W ord s blockNum ifNotExist =
     (let s1 = s\<lparr>fs_flushUpToBlock := blockNum\<rparr>;
          toFlush = map (\<lambda>(_, cached). ce_entry cached)
            (filter (\<lambda>(_, cached). ce_blockNumber cached \<le> blockNum) (ord (fs_cache s)))
      in if toFlush = [] then (s1, Inr ())
         else (case op_SetAll W (fs_wrapped s) toFlush ifNotExist blockNum of
                 (w, Inl f) \<Rightarrow> (s1\<lparr>fs_wrapped := w\<rparr>,
                   wrap_res ''failed to flush entries to wrapped foundational-store'' (Inl f))
               | (w, Inr _) \<Rightarrow>
                   (s1\<lparr>fs_wrapped := w,
                       fs_cache := fold (\<lambda>entry. AList.delete (fst (entry_kv entry))) toFlush (fs_cache s)\<rparr>,
                    Inr ())))"

definition fork_EvictUpToBlock :: "'w fork_store \<Rightarrow> u64 \<Rightarrow> 'w fork_store \<times> unit res" where
  "fork_EvictUpToBlock s upToBlockNumber =
     (let keysToEvict = map fst (filter (\<lambda>(_, cached). upToBlockNumber \<le> ce_blockNumber cached) (fs_cache s))
      in (s\<lparr>fs_cache := fold AList.delete keysToEvict (fs_cache s)\<rparr>, Inr ()))"

definition fork_ops :: "('w, 'x) store_ops_scheme \<Rightarrow>
    ((bytes \<times> cachedEntry) list \<Rightarrow> (bytes \<times> cachedEntry) list) \<Rightarrow> 'w fork_store forkaware_ops" where
  "fork_ops W ord =
     \<lparr>op_SetAll = fork_SetAll W, op_Get = fork_Get W, op_GetFirst = fork_GetFirst W,
      op_FlushUpToBlock = fork_FlushUpToBlock W ord, op_EvictUpToBlock = fork_EvictUpToBlock\<rparr>"

section \<open>The cache\<close>

text \<open>A Go map, in which an entry sits under its own key.\<close>

definition fork_inv :: "(bytes \<Rightarrow> bool) \<Rightarrow> 'w fork_store \<Rightarrow> bool" where
  "fork_inv U s \<longleftrightarrow> distinct_keys (fs_cache s) \<and>
     (\<forall>(k, c)\<in>set (fs_cache s). entry_ok (ce_entry c) \<and> fst (entry_kv (ce_entry c)) = k \<and> U k)"

lemma fork_invD:
  "fork_inv U s \<Longrightarrow> map_of (fs_cache s) k = Some c \<Longrightarrow>
     entry_ok (ce_entry c) \<and> fst (entry_kv (ce_entry c)) = k \<and> U k"
  by (auto simp: fork_inv_def dest!: map_of_SomeD)

text \<open>Block number and value of the cached entry of a key.\<close>

definition cached_at :: "'w fork_store \<Rightarrow> bytes \<Rightarrow> (u64 \<times> bytes) option" where
  "cached_at s k = map_option (\<lambda>c. (ce_blockNumber c, snd (entry_kv (ce_entry c)))) (map_of (fs_cache s) k)"

lemma fork_NewStore_inv [inv_intros]: "fork_inv U (fork_NewStore w)"
  by (simp add: fork_inv_def fork_NewStore_def)

lemma cached_at_NewStore [simp]: "cached_at (fork_NewStore w) k = None"
  by (simp add: cached_at_def fork_NewStore_def)

lemma map_of_fork_cache_all:
  "map_of (fork_cache_all b es cache) k =
     (case map_of (rev (map (\<lambda>e. (fst (entry_kv e), e)) es)) k of
        None \<Rightarrow> map_of cache k
      | Some e \<Rightarrow> Some \<lparr>ce_entry = e, ce_blockNumber = b\<rparr>)"
  unfolding fork_cache_all_def
  by (induction es arbitrary: cache) (auto simp: map_add_def split: option.split)

lemma distinct_fork_cache_all: "distinct_keys cache \<Longrightarrow> distinct_keys (fork_cache_all b es cache)"
  unfolding fork_cache_all_def by (induction es arbitrary: cache) auto

lemma map_of_self_keys:
  "map_of (map (\<lambda>e. (fst (entry_kv e), e)) es) k = Some e \<Longrightarrow> e \<in> set es \<and> fst (entry_kv e) = k"
  by (auto dest: map_of_SomeD)

lemma last_write_self_keys:
  "last_write es k = map_option (\<lambda>e. snd (entry_kv e)) (map_of (rev (map (\<lambda>e. (fst (entry_kv e), e)) es)) k)"
proof -
  have "map_of (map entry_kv xs) k =
      map_option (\<lambda>e. snd (entry_kv e)) (map_of (map (\<lambda>e. (fst (entry_kv e), e)) xs) k)" for xs
    by (induction xs) (auto split: prod.splits)
  from this [of "rev es"] show ?thesis by (simp add: last_write_def rev_map)
qed

lemma fork_cache_all_inv:
  assumes "fork_inv U s" and "entries_for U es"
  shows "fork_inv U (s\<lparr>fs_cache := fork_cache_all b es (fs_cache s)\<rparr>)"
proof -
  let ?s = "s\<lparr>fs_cache := fork_cache_all b es (fs_cache s)\<rparr>"
  have d: "distinct_keys (fs_cache ?s)"
    using assms(1) by (simp add: fork_inv_def distinct_fork_cache_all)
  have "entry_ok (ce_entry c) \<and> fst (entry_kv (ce_entry c)) = k \<and> U k"
    if "(k, c) \<in> set (fs_cache ?s)" for k c
  proof -
    have m: "map_of (fork_cache_all b es (fs_cache s)) k = Some c" using that d by simp
    show ?thesis
    proof (cases "map_of (rev (map (\<lambda>e. (fst (entry_kv e), e)) es)) k")
      case None
      then show ?thesis using m fork_invD [OF assms(1)] by (simp add: map_of_fork_cache_all)
    next
      case (Some e)
      then have "e \<in> set es \<and> fst (entry_kv e) = k"
        using map_of_self_keys [of "rev es" k e] by (simp add: rev_map)
      then show ?thesis using m Some assms(2) by (auto simp: map_of_fork_cache_all entries_for_def)
    qed
  qed
  with d show ?thesis by (auto simp: fork_inv_def)
qed

lemma cached_at_fork_cache_all:
  "cached_at (s\<lparr>fs_cache := fork_cache_all b es (fs_cache s)\<rparr>) k =
     (case last_write es k of None \<Rightarrow> cached_at s k | Some v \<Rightarrow> Some (b, v))"
  by (auto simp: cached_at_def map_of_fork_cache_all last_write_self_keys split: option.split)

section \<open>Evict\<close>

lemma fork_EvictUpToBlock_frame:
  assumes "fork_EvictUpToBlock s n = (s', r)"
  shows "fs_wrapped s' = fs_wrapped s" and "fs_flushUpToBlock s' = fs_flushUpToBlock s" and "r = Inr ()"
  using assms by (auto simp: fork_EvictUpToBlock_def Let_def)

lemma fork_EvictUpToBlock_cache:
  assumes "distinct_keys (fs_cache s)" and "fork_EvictUpToBlock s n = (s', r)"
  shows "map_of (fs_cache s') k =
    (case map_of (fs_cache s) k of
       Some c \<Rightarrow> if ce_blockNumber c < n then Some c else None
     | None \<Rightarrow> None)"
proof -
  let ?ks = "map fst (filter (\<lambda>(_, cached). n \<le> ce_blockNumber cached) (fs_cache s))"
  have e: "map_of (fs_cache s') k = (if k \<in> set ?ks then None else map_of (fs_cache s) k)"
  proof -
    have "fs_cache s' = fold AList.delete ?ks (fs_cache s)"
      using assms(2) by (auto simp: fork_EvictUpToBlock_def Let_def)
    then show ?thesis by (simp only: map_of_fold_delete)
  qed
  have "k \<in> set ?ks \<longleftrightarrow> (\<exists>c. map_of (fs_cache s) k = Some c \<and> n \<le> ce_blockNumber c)"
    using assms(1) by (force simp: image_iff)
  then show ?thesis unfolding e by (simp split: option.split) (simp add: not_le [symmetric])
qed

lemma fork_EvictUpToBlock_cached_at:
  assumes "fork_inv U s" and "fork_EvictUpToBlock s n = (s', r)"
  shows "cached_at s' k =
    (case cached_at s k of Some (b, v) \<Rightarrow> if b < n then Some (b, v) else None | None \<Rightarrow> None)"
  using fork_EvictUpToBlock_cache [OF _ assms(2), of k] assms(1)
  by (auto simp: cached_at_def fork_inv_def split: option.splits)

lemma map_of_sub_inv:
  assumes "fork_inv U s" and "distinct_keys (fs_cache s')"
    and "\<And>k c. map_of (fs_cache s') k = Some c \<Longrightarrow> map_of (fs_cache s) k = Some c"
  shows "fork_inv U s'"
  using assms fork_invD [OF assms(1)] by (fastforce simp: fork_inv_def)

lemma fork_EvictUpToBlock_inv [inv_intros]:
  assumes "fork_inv U s" and "fork_EvictUpToBlock s n = (s', r)"
  shows "fork_inv U s'"
proof (rule map_of_sub_inv [OF assms(1)])
  have d: "distinct_keys (fs_cache s)" using assms(1) by (simp add: fork_inv_def)
  then show "distinct_keys (fs_cache s')"
    using assms(2) by (auto simp: fork_EvictUpToBlock_def Let_def)
  show "map_of (fs_cache s') k = Some c \<Longrightarrow> map_of (fs_cache s) k = Some c" for k c
    using fork_EvictUpToBlock_cache [OF d assms(2), of k] by (auto split: option.splits if_splits)
qed

section \<open>Flush\<close>

text \<open>The entries that a flush collects.\<close>

definition to_flush :: "((bytes \<times> cachedEntry) list \<Rightarrow> (bytes \<times> cachedEntry) list) \<Rightarrow>
    (bytes \<times> cachedEntry) list \<Rightarrow> u64 \<Rightarrow> Entry option list" where
  "to_flush ord cache n = map (\<lambda>(_, cached). ce_entry cached)
     (filter (\<lambda>(_, cached). ce_blockNumber cached \<le> n) (ord cache))"

lemma fork_FlushUpToBlock_alt:
  "fork_FlushUpToBlock W ord s n ine =
     (if to_flush ord (fs_cache s) n = [] then (s\<lparr>fs_flushUpToBlock := n\<rparr>, Inr ())
      else (case op_SetAll W (fs_wrapped s) (to_flush ord (fs_cache s) n) ine n of
              (w, Inl f) \<Rightarrow> (s\<lparr>fs_flushUpToBlock := n, fs_wrapped := w\<rparr>,
                wrap_res ''failed to flush entries to wrapped foundational-store'' (Inl f))
            | (w, Inr _) \<Rightarrow> (s\<lparr>fs_flushUpToBlock := n, fs_wrapped := w,
                fs_cache := fold (\<lambda>entry. AList.delete (fst (entry_kv entry)))
                  (to_flush ord (fs_cache s) n) (fs_cache s)\<rparr>, Inr ())))"
  unfolding fork_FlushUpToBlock_def to_flush_def Let_def ..

lemma set_to_flush:
  assumes "map_order ord"
  shows "e \<in> set (to_flush ord cache n) \<longleftrightarrow>
    (\<exists>k c. (k, c) \<in> set cache \<and> ce_blockNumber c \<le> n \<and> e = ce_entry c)"
  by (force simp: to_flush_def map_order_set [OF assms])

lemma to_flush_iff:
  assumes "fork_inv U s" and "map_order ord"
  shows "e \<in> set (to_flush ord (fs_cache s) n) \<longleftrightarrow>
    (\<exists>c. map_of (fs_cache s) (fst (entry_kv e)) = Some c \<and> ce_entry c = e \<and> ce_blockNumber c \<le> n)"
proof
  assume "e \<in> set (to_flush ord (fs_cache s) n)"
  then obtain k c where c: "(k, c) \<in> set (fs_cache s)" "ce_blockNumber c \<le> n" "e = ce_entry c"
    using set_to_flush [OF assms(2)] by blast
  then have m: "map_of (fs_cache s) k = Some c" using assms(1) by (simp add: fork_inv_def)
  then have "fst (entry_kv e) = k" using fork_invD [OF assms(1)] c(3) by blast
  then show "\<exists>c. map_of (fs_cache s) (fst (entry_kv e)) = Some c \<and> ce_entry c = e \<and> ce_blockNumber c \<le> n"
    using m c by blast
next
  assume "\<exists>c. map_of (fs_cache s) (fst (entry_kv e)) = Some c \<and> ce_entry c = e \<and> ce_blockNumber c \<le> n"
  then show "e \<in> set (to_flush ord (fs_cache s) n)"
    using set_to_flush [OF assms(2)] map_of_SomeD by metis
qed

lemma cached_at_Some:
  "cached_at s k = Some (b, v) \<longleftrightarrow>
    (\<exists>c. map_of (fs_cache s) k = Some c \<and> ce_blockNumber c = b \<and> snd (entry_kv (ce_entry c)) = v)"
  by (auto simp: cached_at_def)

lemma to_flush_entries:
  assumes "fork_inv U s" and "map_order ord"
  shows "entries_for U (to_flush ord (fs_cache s) n)"
  using assms(1) by (fastforce simp: entries_for_def set_to_flush [OF assms(2)] fork_inv_def)

lemma to_flush_values:
  assumes "fork_inv U s" and "map_order ord"
  shows "(k, v) \<in> set (map entry_kv (to_flush ord (fs_cache s) n)) \<longleftrightarrow>
    (\<exists>b. cached_at s k = Some (b, v) \<and> b \<le> n)"
proof
  assume "(k, v) \<in> set (map entry_kv (to_flush ord (fs_cache s) n))"
  then obtain e where e: "e \<in> set (to_flush ord (fs_cache s) n)" "entry_kv e = (k, v)" by force
  then show "\<exists>b. cached_at s k = Some (b, v) \<and> b \<le> n"
    unfolding to_flush_iff [OF assms] cached_at_Some by force
next
  assume "\<exists>b. cached_at s k = Some (b, v) \<and> b \<le> n"
  then obtain c where c: "map_of (fs_cache s) k = Some c" "ce_blockNumber c \<le> n"
    "snd (entry_kv (ce_entry c)) = v"
    unfolding cached_at_Some by blast
  then have k: "fst (entry_kv (ce_entry c)) = k" using fork_invD [OF assms(1)] by blast
  then have "ce_entry c \<in> set (to_flush ord (fs_cache s) n)"
    unfolding to_flush_iff [OF assms] using c by blast
  moreover have "entry_kv (ce_entry c) = (k, v)" using k c(3) by (simp add: prod_eq_iff)
  ultimately show "(k, v) \<in> set (map entry_kv (to_flush ord (fs_cache s) n))"
    by (metis image_eqI set_map)
qed

lemma entry_keys_to_flush:
  assumes "fork_inv U s" and "map_order ord"
  shows "k \<in> entry_keys (to_flush ord (fs_cache s) n) \<longleftrightarrow> (\<exists>b v. cached_at s k = Some (b, v) \<and> b \<le> n)"
  using to_flush_values [OF assms] entry_keys_iff by metis

lemma distinct_to_flush:
  assumes "fork_inv U s" and "map_order ord"
  shows "distinct (map fst (map entry_kv (to_flush ord (fs_cache s) n)))"
proof -
  let ?P = "\<lambda>(_ :: bytes, cached). ce_blockNumber cached \<le> n"
  have s: "set (filter ?P (ord (fs_cache s))) \<subseteq> set (fs_cache s)"
    using map_order_set [OF assms(2)] by auto
  have "map fst (map entry_kv (to_flush ord (fs_cache s) n)) = map fst (filter ?P (ord (fs_cache s)))"
    unfolding to_flush_def map_map
  proof (rule map_cong [OF refl])
    fix x assume "x \<in> set (filter ?P (ord (fs_cache s)))"
    then have "x \<in> set (fs_cache s)" using s by blast
    then show "(fst \<circ> (entry_kv \<circ> (\<lambda>(_, cached). ce_entry cached))) x = fst x"
      using assms(1) by (auto simp: fork_inv_def split: prod.split)
  qed
  moreover have "distinct (map fst (filter ?P (ord (fs_cache s))))"
    using assms by (simp add: distinct_map_filter map_order_distinct_keys fork_inv_def)
  ultimately show ?thesis by simp
qed

lemma last_write_to_flush:
  assumes "fork_inv U s" and "map_order ord"
  shows "last_write (to_flush ord (fs_cache s) n) k =
    (case cached_at s k of Some (b, v) \<Rightarrow> if b \<le> n then Some v else None | None \<Rightarrow> None)"
proof (cases "\<exists>b v. cached_at s k = Some (b, v) \<and> b \<le> n")
  case True
  then obtain b v where c: "cached_at s k = Some (b, v)" "b \<le> n" by blast
  then have "(k, v) \<in> set (map entry_kv (to_flush ord (fs_cache s) n))"
    using to_flush_values [OF assms] by blast
  then have "last_write (to_flush ord (fs_cache s) n) k = Some v"
    unfolding last_write_def using distinct_to_flush [OF assms, of n]
    by (intro map_of_is_SomeI) (simp_all add: rev_map [symmetric])
  then show ?thesis using c by simp
next
  case False
  then have "last_write (to_flush ord (fs_cache s) n) k = None"
    by (simp add: last_write_None_iff entry_keys_to_flush [OF assms])
  then show ?thesis using False by (auto split: option.split)
qed

lemma fork_FlushUpToBlock_cache:
  assumes "fork_FlushUpToBlock W ord s n ine = (s', Inr ())"
  shows "fs_cache s' = fold (\<lambda>entry. AList.delete (fst (entry_kv entry))) (to_flush ord (fs_cache s) n) (fs_cache s)"
proof (cases "to_flush ord (fs_cache s) n = []")
  case False
  obtain w x where "op_SetAll W (fs_wrapped s) (to_flush ord (fs_cache s) n) ine n = (w, x)"
    by (cases "op_SetAll W (fs_wrapped s) (to_flush ord (fs_cache s) n) ine n")
  then show ?thesis
    using assms False by (cases x) (auto simp: fork_FlushUpToBlock_alt wrap_res_ok_iff)
qed (use assms in \<open>auto simp: fork_FlushUpToBlock_alt\<close>)

text \<open>After a flush that succeeds: nothing at or below its block is cached.\<close>

lemma fork_FlushUpToBlock_cached_at:
  assumes "fork_inv U s" and "map_order ord" and "fork_FlushUpToBlock W ord s n ine = (s', Inr ())"
  shows "cached_at s' k =
    (case cached_at s k of Some (b, v) \<Rightarrow> if b \<le> n then None else Some (b, v) | None \<Rightarrow> None)"
proof -
  let ?es = "to_flush ord (fs_cache s) n"
  have fold: "fold (\<lambda>entry. AList.delete (fst (entry_kv entry))) xs m = fold AList.delete (map (\<lambda>e. fst (entry_kv e)) xs) m"
    for xs and m :: "(bytes \<times> cachedEntry) list"
    by (induction xs arbitrary: m) auto
  have "map_of (fs_cache s') k = (if k \<in> entry_keys ?es then None else map_of (fs_cache s) k)"
    using fork_FlushUpToBlock_cache [OF assms(3)]
    by (auto simp: fold map_of_fold_delete entry_keys_def image_image)
  then have "cached_at s' k = (if k \<in> entry_keys ?es then None else cached_at s k)"
    by (simp add: cached_at_def)
  then show ?thesis
    by (auto simp: entry_keys_to_flush [OF assms(1,2)] split: option.split)
qed

lemma fork_FlushUpToBlock_inv [inv_intros]:
  assumes "fork_inv U s" and "fork_FlushUpToBlock W ord s n ine = (s', r)"
  shows "fork_inv U s'"
proof (rule map_of_sub_inv [OF assms(1)])
  have fold: "fold (\<lambda>entry. AList.delete (fst (entry_kv entry))) xs m = fold AList.delete (map (\<lambda>e. fst (entry_kv e)) xs) m"
    for xs and m :: "(bytes \<times> cachedEntry) list"
    by (induction xs arbitrary: m) auto
  show "distinct_keys (fs_cache s')"
    using assms by (auto simp: fork_inv_def fork_FlushUpToBlock_alt fold
        split: if_splits prod.splits sum.splits)
  show "map_of (fs_cache s') k = Some c \<Longrightarrow> map_of (fs_cache s) k = Some c" for k c
    using assms(2) by (auto simp: fork_FlushUpToBlock_alt fold map_of_fold_delete
        split: if_splits prod.splits sum.splits)
qed

lemma fork_FlushUpToBlock_lib:
  "fork_FlushUpToBlock W ord s n ine = (s', r) \<Longrightarrow> fs_flushUpToBlock s' = n"
  by (auto simp: fork_FlushUpToBlock_alt split: if_splits prod.splits sum.splits)

lemma fork_FlushUpToBlock_wrapped:
  assumes "fork_FlushUpToBlock W ord s n ine = (s', Inr ())"
  shows "to_flush ord (fs_cache s) n = [] \<and> fs_wrapped s' = fs_wrapped s \<or>
    op_SetAll W (fs_wrapped s) (to_flush ord (fs_cache s) n) ine n = (fs_wrapped s', Inr ())"
  using assms by (auto simp: fork_FlushUpToBlock_alt wrap_res_ok_iff split: if_splits prod.splits sum.splits)

section \<open>Reads\<close>

text \<open>The answer for one key, and what a reader learns from an answer.\<close>

definition overlaid :: "(bytes \<times> cachedEntry) list \<Rightarrow> u64 \<Rightarrow> Key \<Rightarrow> QueriedEntry option \<Rightarrow> QueriedEntry option" where
  "overlaid cache c k q =
     (case map_of cache (Key_Bytes k) of
        Some cached \<Rightarrow> if ce_blockNumber cached \<le> c
          then Some \<lparr>QueriedEntry_Code = RESPONSE_CODE_FOUND, QueriedEntry_Entry = ce_entry cached\<rparr>
          else q
      | None \<Rightarrow> q)"

definition answer_value :: "QueriedEntry option \<Rightarrow> bytes option" where
  "answer_value q =
     (if QueriedEntry_GetCode q = RESPONSE_CODE_FOUND
      then map_option Any_Value (Entry_GetValue (QueriedEntry_GetEntry q)) else None)"

lemma answer_value_found [simp]:
  "answer_value (Some (found k t v)) = Some v" "answer_value (Some (not_found k)) = None"
  by (simp_all add: answer_value_def found_def not_found_def)

lemma answer_value_answer [simp]:
  "answer_value (Some (answer t V c k)) = latest_at (V (Key_Bytes k)) c"
  by (auto simp: answer_def split: option.split)

definition fork_view :: "('w \<Rightarrow> bytes \<Rightarrow> versions) \<Rightarrow> 'w fork_store \<Rightarrow> bytes \<Rightarrow> u64 \<Rightarrow> bytes option" where
  "fork_view V s k c =
     (case cached_at s k of
        Some (b, v) \<Rightarrow> if b \<le> c then Some v else latest_at (V (fs_wrapped s) k) c
      | None \<Rightarrow> latest_at (V (fs_wrapped s) k) c)"

lemma answer_value_cached: "entry_ok e \<Longrightarrow>
  answer_value (Some \<lparr>QueriedEntry_Code = RESPONSE_CODE_FOUND, QueriedEntry_Entry = e\<rparr>) = Some (snd (entry_kv e))"
  by (cases e) (auto simp: answer_value_def entry_kv_def)

lemma answer_value_overlaid:
  assumes "fork_inv U s"
  shows "answer_value (overlaid (fs_cache s) c k (Some (answer t (V (fs_wrapped s)) c k))) =
    fork_view V s (Key_Bytes k) c"
  using fork_invD [OF assms]
  by (auto simp: overlaid_def fork_view_def cached_at_def answer_value_cached split: option.split)

lemma fork_overlay_answers:
  "length pre = i \<Longrightarrow>
   fork_overlay cache c i (map Some ks) (Some \<lparr>QueriedEntries_Entries = pre @ map f ks\<rparr>) =
     Inr (Some \<lparr>QueriedEntries_Entries = pre @ map (\<lambda>k. overlaid cache c k (f k)) ks\<rparr>)"
proof (induction ks arbitrary: i pre)
  case (Cons k ks)
  have step: "fork_overlay cache c (i + 1) (map Some ks) (Some \<lparr>QueriedEntries_Entries = pre @ q # map f ks\<rparr>) =
      Inr (Some \<lparr>QueriedEntries_Entries = pre @ q # map (\<lambda>k. overlaid cache c k (f k)) ks\<rparr>)" for q
    using Cons.IH [of "pre @ [q]" "i + 1"] Cons.prems by simp
  show ?case
    using Cons.prems step by (auto simp: overlaid_def list_update_append split: option.split)
qed simp

lemma fork_Get_overlay:
  assumes "op_Get W (fs_wrapped s) req = Inr (response (map f ks))" and "GetRequest_Keys req = map Some ks"
  shows "fork_Get W s req = Inr (response (map (\<lambda>k. overlaid (fs_cache s) (GetRequest_BlockNumber req) k (f k)) ks))"
  using fork_overlay_answers [of "[]" 0 "fs_cache s" _ ks f] assms
  by (simp add: fork_Get_def response_def)

lemma fork_GetFirst_overlay:
  assumes "op_GetFirst W (fs_wrapped s) req = Inr (response (map f ks))" and "GetRequest_Keys req = map Some ks"
  shows "fork_GetFirst W s req = Inr (response (map (\<lambda>k. overlaid (fs_cache s) (GetRequest_BlockNumber req) k (f k)) ks))"
  using fork_overlay_answers [of "[]" 0 "fs_cache s" _ ks f] assms
  by (simp add: fork_GetFirst_def response_def)

context kv_store
begin

lemma fork_Get_answers:
  assumes "ok (fs_wrapped s)" and "GetRequest_Keys req = map Some ks"
    and "\<forall>k\<in>set ks. user_key (Key_Bytes k)" and "fork_Get W s req = Inr r"
  shows "r = response (map (\<lambda>k. overlaid (fs_cache s) (GetRequest_BlockNumber req) k
      (Some (answer (turl (fs_wrapped s)) (vers (fs_wrapped s)) (GetRequest_BlockNumber req) k))) ks)"
proof -
  obtain r0 where r0: "op_Get W (fs_wrapped s) req = Inr r0"
    using assms(4) by (auto simp: fork_Get_def split: sum.splits)
  have "r0 = read_response (turl (fs_wrapped s)) (vers (fs_wrapped s)) (GetRequest_BlockNumber req) ks"
    by (rule get_answers [OF assms(1-3) r0])
  then have "op_Get W (fs_wrapped s) req = Inr (response (map (\<lambda>k.
      Some (answer (turl (fs_wrapped s)) (vers (fs_wrapped s)) (GetRequest_BlockNumber req) k)) ks))"
    using r0 by (simp add: read_response_def)
  from fork_Get_overlay [OF this assms(2)] show ?thesis using assms(4) by simp
qed

end

section \<open>SetAll\<close>

lemma fork_candidates_ok:
  "\<forall>e\<in>set es. entry_ok e \<Longrightarrow>
   fork_candidates cache ine es = Inr (filter (\<lambda>e. \<not> (ine \<and> map_of cache (fst (entry_kv e)) \<noteq> None)) es)"
  by (induction es) (auto simp: entry_ok_key)

lemma fork_filter_found_ok:
  "fork_filter_found (map (\<lambda>e. Some (f e)) es) es =
     Inr (filter (\<lambda>e. QueriedEntry_Code (f e) \<noteq> RESPONSE_CODE_FOUND) es)"
  by (induction es) auto

text \<open>The entries that \<open>SetAll\<close> sets: with \<open>IfNotExist\<close>, those of keys not visible at the block.\<close>

definition chosen :: "('w \<Rightarrow> bytes \<Rightarrow> versions) \<Rightarrow> 'w fork_store \<Rightarrow> bool \<Rightarrow> u64 \<Rightarrow> Entry option list \<Rightarrow>
    Entry option list" where
  "chosen V s ine b es =
     filter (\<lambda>e. ine \<longrightarrow> cached_at s (fst (entry_kv e)) = None \<and>
                     latest_at (V (fs_wrapped s) (fst (entry_kv e))) b = None) es"

lemma chosen_all [simp]: "chosen V s False b es = es"
  by (simp add: chosen_def)

lemma entries_for_filter: "entries_for U es \<Longrightarrow> entries_for U (filter P es)"
  by (auto simp: entries_for_def)

lemma entries_for_chosen: "entries_for U es \<Longrightarrow> entries_for U (chosen V s ine b es)"
  by (simp add: chosen_def entries_for_filter)

context kv_store
begin

lemma entries_for_keys:
  assumes "entries_for U es"
  shows "map Entry_GetKey es = map Some (map (\<lambda>e. the (Entry_GetKey e)) es)"
    and "e \<in> set es \<Longrightarrow> Key_Bytes (the (Entry_GetKey e)) = fst (entry_kv e)"
    and "\<forall>k\<in>set (map (\<lambda>e. the (Entry_GetKey e)) es). U (Key_Bytes k)"
proof -
  have some: "Entry_GetKey e = Some (the (Entry_GetKey e)) \<and>
      Key_Bytes (the (Entry_GetKey e)) = fst (entry_kv e)" if "e \<in> set es" for e
    by (rule entry_ok_GetKey) (use that assms in \<open>simp add: entries_for_def\<close>)
  then show "map Entry_GetKey es = map Some (map (\<lambda>e. the (Entry_GetKey e)) es)"
    and "e \<in> set es \<Longrightarrow> Key_Bytes (the (Entry_GetKey e)) = fst (entry_kv e)"
    and "\<forall>k\<in>set (map (\<lambda>e. the (Entry_GetKey e)) es). U (Key_Bytes k)"
    using assms by (auto simp: entries_for_def)
qed

lemma fork_existing_eq:
  assumes "ok w" and "entries_for user_key es"
    and "op_Get W w \<lparr>GetRequest_BlockNumber = b, GetRequest_BlockHash = [],
                     GetRequest_Keys = map Entry_GetKey es\<rparr> = Inr r"
  shows "fork_existing W w b es = Inr (filter (\<lambda>e. latest_at (vers w (fst (entry_kv e))) b = None) es)"
proof -
  let ?req = "\<lparr>GetRequest_BlockNumber = b, GetRequest_BlockHash = [], GetRequest_Keys = map Entry_GetKey es\<rparr>"
  let ?key = "\<lambda>e. the (Entry_GetKey e)"
  note K = entries_for_keys [OF assms(2)]
  have keys: "GetRequest_Keys ?req = map Some (map ?key es)" using K(1) by simp
  have "r = read_response (turl w) (vers w) b (map ?key es)"
    using get_answers [OF assms(1) keys K(3) assms(3)] by simp
  then have "fork_existing W w b es =
      fork_filter_found (map (\<lambda>e. Some (answer (turl w) (vers w) b (?key e))) es) es"
    using assms(3) by (simp add: fork_existing_def read_response_def comp_def)
  also have "\<dots> = Inr (filter (\<lambda>e. QueriedEntry_Code (answer (turl w) (vers w) b (?key e)) \<noteq> RESPONSE_CODE_FOUND) es)"
    by (simp add: fork_filter_found_ok)
  also have "filter (\<lambda>e. QueriedEntry_Code (answer (turl w) (vers w) b (?key e)) \<noteq> RESPONSE_CODE_FOUND) es =
      filter (\<lambda>e. latest_at (vers w (fst (entry_kv e))) b = None) es"
    using K(2) by (intro filter_cong) (auto simp: answer_def split: option.split)
  finally show ?thesis .
qed

lemma fork_existing_ok:
  assumes "ok w" and "entries_for user_key es" and "fork_existing W w b es = Inr es'"
  shows "es' = filter (\<lambda>e. latest_at (vers w (fst (entry_kv e))) b = None) es"
proof -
  obtain r where "op_Get W w \<lparr>GetRequest_BlockNumber = b, GetRequest_BlockHash = [],
      GetRequest_Keys = map Entry_GetKey es\<rparr> = Inr r"
    using assms(3) by (auto simp: fork_existing_def Let_def split: sum.splits)
  from fork_existing_eq [OF assms(1,2) this] assms(3) show ?thesis by simp
qed

text \<open>The entries that are left after both existence checks.\<close>

lemma fork_chosen:
  assumes "ok (fs_wrapped s)" and "entries_for user_key es"
    and "c = filter (\<lambda>e. \<not> (ine \<and> map_of (fs_cache s) (fst (entry_kv e)) \<noteq> None)) es"
    and "(if ine \<and> c \<noteq> [] then fork_existing W (fs_wrapped s) b c else Inr c) = Inr toSet"
  shows "toSet = chosen vers s ine b es"
proof (cases "ine \<and> c \<noteq> []")
  case True
  then have "fork_existing W (fs_wrapped s) b c = Inr toSet" using assms(4) by simp
  from fork_existing_ok [OF assms(1) _ this] entries_for_filter [OF assms(2)] True show ?thesis
    by (auto simp: assms(3) chosen_def cached_at_def intro: filter_cong)
next
  case False
  then have "toSet = c" using assms(4) by auto
  with False show ?thesis
    by (auto simp: assms(3) chosen_def cached_at_def filter_empty_conv intro!: filter_cong)
qed

text \<open>Every outcome of \<open>SetAll\<close>.\<close>

lemma fork_SetAll_cases:
  assumes "ok (fs_wrapped s)" and "entries_for user_key es" and "fork_SetAll W s es ine b = (s', r)"
  obtains (nothing_set) f where "s' = s" "r = Inl f"
  | (cached) "s' = s\<lparr>fs_cache := fork_cache_all b (chosen vers s ine b es) (fs_cache s)\<rparr>" "r = Inr ()"
      "fs_flushUpToBlock s < b \<or> chosen vers s ine b es = []"
  | (written) w x where "s' = s\<lparr>fs_cache := fork_cache_all b (chosen vers s ine b es) (fs_cache s), fs_wrapped := w\<rparr>"
      "op_SetAll W (fs_wrapped s) (chosen vers s ine b es) ine b = (w, x)"
      "b \<le> fs_flushUpToBlock s" "r = Inr () \<longleftrightarrow> x = Inr ()"
proof -
  let ?c = "filter (\<lambda>e. \<not> (ine \<and> map_of (fs_cache s) (fst (entry_kv e)) \<noteq> None)) es"
  let ?g = "if ine \<and> ?c \<noteq> [] then fork_existing W (fs_wrapped s) b ?c else Inr ?c"
  have cand: "fork_candidates (fs_cache s) ine es = Inr ?c"
    using assms(2) by (intro fork_candidates_ok) (auto simp: entries_for_def)
  obtain g where g: "?g = g" by blast
  have main: "(case g of Inl f \<Rightarrow> (s, Inl f)
      | Inr toSet \<Rightarrow>
          (let s1 = s\<lparr>fs_cache := fork_cache_all b toSet (fs_cache s)\<rparr>;
               toFlush = filter (\<lambda>entry. b \<le> fs_flushUpToBlock s) toSet
           in if toFlush = [] then (s1, Inr ())
              else (case op_SetAll W (fs_wrapped s) toFlush ine b of
                      (w, r) \<Rightarrow> (s1\<lparr>fs_wrapped := w\<rparr>,
                        wrap_res ''failed to set entries in wrapped foundational-store'' r)))) = (s', r)"
    using assms(3) unfolding fork_SetAll_def cand sum.case g .
  show thesis
  proof (cases g)
    case (Inl f)
    then have "s' = s" "r = Inl f" using main by simp_all
    then show thesis by (rule nothing_set)
  next
    case (Inr toSet)
    have toSet: "toSet = chosen vers s ine b es"
      by (rule fork_chosen [OF assms(1,2) refl]) (use g Inr in simp)
    let ?s1 = "s\<lparr>fs_cache := fork_cache_all b toSet (fs_cache s)\<rparr>"
    let ?fl = "filter (\<lambda>entry. b \<le> fs_flushUpToBlock s) toSet"
    have r: "(if ?fl = [] then (?s1, Inr ())
        else (case op_SetAll W (fs_wrapped s) ?fl ine b of
          (w, r) \<Rightarrow> (?s1\<lparr>fs_wrapped := w\<rparr>,
            wrap_res ''failed to set entries in wrapped foundational-store'' r))) = (s', r)"
      using main Inr by (simp add: Let_def)
    show thesis
    proof (cases "b \<le> fs_flushUpToBlock s \<and> toSet \<noteq> []")
      case True
      then have fl: "?fl = toSet" by simp
      obtain w x where "op_SetAll W (fs_wrapped s) toSet ine b = (w, x)"
        by (cases "op_SetAll W (fs_wrapped s) toSet ine b")
      then show thesis using r True unfolding fl toSet [symmetric]
        by (intro written [of w x]) (auto simp: toSet wrap_res_ok_iff)
    next
      case False
      then have fl: "?fl = []" by (auto simp: filter_empty_conv)
      show thesis
        using r False unfolding fl by (intro cached) (auto simp: toSet)
    qed
  qed
qed

end

context reliable_kv_store
begin

lemma fork_SetAll_returns:
  assumes "ok (fs_wrapped s)" and "entries_for user_key es"
  shows "snd (fork_SetAll W s es ine b) = Inr ()"
proof -
  let ?c = "filter (\<lambda>e. \<not> (ine \<and> map_of (fs_cache s) (fst (entry_kv e)) \<noteq> None)) es"
  have cand: "fork_candidates (fs_cache s) ine es = Inr ?c"
    using assms(2) by (intro fork_candidates_ok) (auto simp: entries_for_def)
  have c: "entries_for user_key ?c" by (rule entries_for_filter [OF assms(2)])
  have "\<exists>toSet. (if ine \<and> ?c \<noteq> [] then fork_existing W (fs_wrapped s) b ?c else Inr ?c) = Inr toSet \<and>
      entries_for user_key toSet"
  proof (cases "ine \<and> ?c \<noteq> []")
    case True
    note K = entries_for_keys [OF c]
    let ?req = "\<lparr>GetRequest_BlockNumber = b, GetRequest_BlockHash = [], GetRequest_Keys = map Entry_GetKey ?c\<rparr>"
    have "GetRequest_Keys ?req = map Some (map (\<lambda>e. the (Entry_GetKey e)) ?c)" using K(1) by simp
    then obtain r where "op_Get W (fs_wrapped s) ?req = Inr r"
      using get_returns [OF assms(1) _ K(3)] by blast
    from fork_existing_eq [OF assms(1) c this] show ?thesis
      unfolding if_P [OF True] using entries_for_filter [OF c] by blast
  next
    case False
    then show ?thesis unfolding if_not_P [OF False] using c by blast
  qed
  then obtain toSet where t: "(if ine \<and> ?c \<noteq> [] then fork_existing W (fs_wrapped s) b ?c else Inr ?c) = Inr toSet"
    and e: "entries_for user_key toSet" by blast
  let ?fl = "filter (\<lambda>entry. b \<le> fs_flushUpToBlock s) toSet"
  have "snd (op_SetAll W (fs_wrapped s) ?fl ine b) = Inr ()"
    by (rule set_all_returns [OF assms(1) entries_for_filter [OF e]])
  then show ?thesis
    unfolding fork_SetAll_def cand sum.case t Let_def by (auto split: prod.split)
qed

lemma fork_FlushUpToBlock_returns:
  assumes "fork_inv user_key s" and "ok (fs_wrapped s)" and "map_order ord"
  shows "snd (fork_FlushUpToBlock W ord s n ine) = Inr ()"
proof -
  have "snd (op_SetAll W (fs_wrapped s) (to_flush ord (fs_cache s) n) ine n) = Inr ()"
    by (rule set_all_returns [OF assms(2) to_flush_entries [OF assms(1,3)]])
  then show ?thesis by (auto simp: fork_FlushUpToBlock_alt split: prod.split sum.split)
qed

lemma fork_Get_returns:
  assumes "ok (fs_wrapped s)" and "GetRequest_Keys req = map Some ks"
    and "\<forall>k\<in>set ks. user_key (Key_Bytes k)"
  shows "\<exists>r. fork_Get W s req = Inr r"
  using fork_Get_overlay [OF get_eq [OF assms, unfolded read_response_def] assms(2)] by blast

end

end
