(* ===== verification/Badger_Api.thy ===== *)
theory Badger_Api
  imports Bytes
begin

text \<open>
  Badger (\<open>github.com/dgraph-io/badger/v3\<close>) is not part of the repository: the stores
  are definitions over a record of the calls they make, and the theorems assume what
  Badger documents of these calls, the locale \<open>badger_kv\<close>.  \<open>badger_reliable\<close> adds that
  the calls do not fail on admissible keys.  An in-memory instance shows that the
  assumptions can hold, and the witnesses evaluate the code on it.
\<close>

section \<open>The calls\<close>

text \<open>
  \<^item> \<open>txn_get db k\<close>: \<open>txn.Get(k)\<close> in a \<open>db.View\<close> transaction;
  \<^item> \<open>item_key\<close>, \<open>item_value\<close>: \<open>item.Key()\<close> and \<open>item.Value\<close> / \<open>item.ValueCopy\<close>;
  \<^item> \<open>iter_seek db reverse k\<close>: the items that an iterator of a \<open>db.View\<close> transaction,
    opened with \<open>opts.Reverse = reverse\<close> and positioned by \<open>Seek(k)\<close>, yields by \<open>Valid\<close>,
    \<open>Item\<close> and \<open>Next\<close>;
  \<^item> \<open>db_update db f\<close>: \<open>db.Update\<close>; \<open>txn_new db\<close> is the transaction that it passes to
    \<open>f\<close>, and \<open>txn_set\<close> is \<open>txn.Set\<close>;
  \<^item> \<open>wb_new\<close>, \<open>wb_set\<close>, \<open>wb_flush\<close>, \<open>wb_cancel\<close>: a \<open>WriteBatch\<close>.  A batch that outgrows
    a transaction commits what it has and goes on, so \<open>wb_set\<close> too returns the database.
\<close>

record ('db, 'it, 'txn, 'wb) badger_api =
  txn_get :: "'db \<Rightarrow> bytes \<Rightarrow> error + 'it"
  item_key :: "'it \<Rightarrow> bytes"
  item_value :: "'it \<Rightarrow> error + bytes"
  iter_seek :: "'db \<Rightarrow> bool \<Rightarrow> bytes \<Rightarrow> 'it list"
  db_update :: "'db \<Rightarrow> ('txn \<Rightarrow> error + 'txn) \<Rightarrow> 'db \<times> (error + unit)"
  txn_new :: "'db \<Rightarrow> 'txn"
  txn_set :: "'txn \<Rightarrow> bytes \<Rightarrow> bytes \<Rightarrow> error + 'txn"
  wb_new :: "'db \<Rightarrow> 'wb"
  wb_set :: "'db \<Rightarrow> 'wb \<Rightarrow> bytes \<Rightarrow> bytes \<Rightarrow> 'db \<times> (error + 'wb)"
  wb_flush :: "'db \<Rightarrow> 'wb \<Rightarrow> 'db \<times> (error + unit)"
  wb_cancel :: "'db \<Rightarrow> 'wb \<Rightarrow> 'db"

section \<open>What Badger documents\<close>

text \<open>
  \<open>kv db\<close> is the committed content, \<open>txw\<close> and \<open>pend\<close> are the writes that a transaction
  or a batch holds.  Calls may fail; these laws say what a call that succeeds has done,
  and that a failed \<open>Update\<close> has done nothing.  A batch call, successful or not, may have
  committed a first part of the writes it holds.
\<close>

locale badger_kv =
  fixes B :: "('db, 'it, 'txn, 'wb) badger_api"
    and kv :: "'db \<Rightarrow> bytes \<Rightarrow> bytes option"
    and txw :: "'txn \<Rightarrow> (bytes \<times> bytes) list"
    and pend :: "'wb \<Rightarrow> (bytes \<times> bytes) list"
  assumes get_item: "txn_get B db k = Inr it \<Longrightarrow> item_key B it = k \<and> kv db k \<noteq> None"
    and get_value: "txn_get B db k = Inr it \<Longrightarrow> item_value B it = Inr v \<Longrightarrow> kv db k = Some v"
    and get_none: "txn_get B db k = Inl e \<Longrightarrow> errors_is e ErrKeyNotFound \<Longrightarrow> kv db k = None"
    and seek_forward: "map (item_key B) (iter_seek B db False s) =
        sorted_list_of_set {k \<in> dom (kv db). s \<le> k}"
    and seek_reverse: "s \<noteq> [] \<Longrightarrow> map (item_key B) (iter_seek B db True s) =
        rev (sorted_list_of_set {k \<in> dom (kv db). k \<le> s})"
    and seek_value: "it \<in> set (iter_seek B db r s) \<Longrightarrow> item_value B it = Inr v \<Longrightarrow>
        kv db (item_key B it) = Some v"
    and update_ok: "db_update B db f = (db', Inr ()) \<Longrightarrow>
        \<exists>t. f (txn_new B db) = Inr t \<and> kv db' = apply_sets (txw t) (kv db)"
    and update_fail: "db_update B db f = (db', Inl e) \<Longrightarrow> kv db' = kv db"
    and txn_empty: "txw (txn_new B db) = []"
    and txn_set_ok: "txn_set B t k v = Inr t' \<Longrightarrow> txw t' = txw t @ [(k, v)]"
    and wb_empty: "pend (wb_new B db) = []"
    and wb_set_ok: "wb_set B db wb k v = (db', Inr wb') \<Longrightarrow>
        \<exists>ps. pend wb @ [(k, v)] = ps @ pend wb' \<and> kv db' = apply_sets ps (kv db)"
    and wb_set_fail: "wb_set B db wb k v = (db', Inl e) \<Longrightarrow>
        \<exists>ps qs. pend wb = ps @ qs \<and> kv db' = apply_sets ps (kv db)"
    and wb_flush_ok: "wb_flush B db wb = (db', Inr ()) \<Longrightarrow> kv db' = apply_sets (pend wb) (kv db)"
    and wb_flush_fail: "wb_flush B db wb = (db', Inl e) \<Longrightarrow>
        \<exists>ps qs. pend wb = ps @ qs \<and> kv db' = apply_sets ps (kv db)"
    and wb_cancel: "kv (wb_cancel B db wb) = kv db"
    and finite_kv: "finite (dom (kv db))"
begin

lemma seek_forward_head:
  assumes "iter_seek B db False s = it # its"
  shows "s \<le> item_key B it" and "kv db (item_key B it) \<noteq> None"
    and "\<And>k. kv db k \<noteq> None \<Longrightarrow> s \<le> k \<Longrightarrow> item_key B it \<le> k"
proof -
  let ?S = "{k \<in> dom (kv db). s \<le> k}"
  have f: "finite ?S" using finite_kv by simp
  have l: "sorted_list_of_set ?S = item_key B it # map (item_key B) its"
    using seek_forward [of db s] assms by simp
  have st: "set (item_key B it # map (item_key B) its) = ?S"
    using set_sorted_list_of_set [OF f] by (simp only: l)
  then have "item_key B it \<in> ?S" by auto
  then show "s \<le> item_key B it" and "kv db (item_key B it) \<noteq> None" by auto
  have so: "sorted (item_key B it # map (item_key B) its)"
    using sorted_sorted_list_of_set [of ?S] by (simp only: l)
  show "item_key B it \<le> k" if "kv db k \<noteq> None" "s \<le> k" for k
  proof -
    have "k \<in> set (item_key B it # map (item_key B) its)"
      unfolding st using that by (simp add: dom_def)
    with so show ?thesis by auto
  qed
qed

lemma seek_forward_Nil:
  assumes "iter_seek B db False s = []" and "s \<le> k"
  shows "kv db k = None"
proof -
  have "sorted_list_of_set {k \<in> dom (kv db). s \<le> k} = []"
    using seek_forward [of db s] assms(1) by simp
  then have "{k \<in> dom (kv db). s \<le> k} = {}" using finite_kv by simp
  with assms(2) show ?thesis by auto
qed

lemma seek_reverse_head:
  assumes "iter_seek B db True s = it # its" and "s \<noteq> []"
  shows "item_key B it \<le> s" and "kv db (item_key B it) \<noteq> None"
    and "\<And>k. kv db k \<noteq> None \<Longrightarrow> k \<le> s \<Longrightarrow> k \<le> item_key B it"
proof -
  let ?S = "{k \<in> dom (kv db). k \<le> s}"
  have f: "finite ?S" using finite_kv by simp
  have l: "rev (sorted_list_of_set ?S) = item_key B it # map (item_key B) its"
    using seek_reverse [of s db] assms by simp
  have l': "sorted_list_of_set ?S = rev (item_key B it # map (item_key B) its)"
    using arg_cong [OF l, of rev] by (simp only: rev_rev_ident)
  have st: "set (item_key B it # map (item_key B) its) = ?S"
    using set_sorted_list_of_set [OF f] by (simp only: l' set_rev)
  then have "item_key B it \<in> ?S" by auto
  then show "item_key B it \<le> s" and "kv db (item_key B it) \<noteq> None" by auto
  have so: "sorted (rev (item_key B it # map (item_key B) its))"
    using sorted_sorted_list_of_set [of ?S] by (simp only: l')
  show "k \<le> item_key B it" if "kv db k \<noteq> None" "k \<le> s" for k
  proof -
    have "k \<in> set (item_key B it # map (item_key B) its)"
      unfolding st using that by (simp add: dom_def)
    with so show ?thesis by (auto simp: sorted_append)
  qed
qed

lemma seek_reverse_Nil:
  assumes "iter_seek B db True s = []" and "s \<noteq> []" and "k \<le> s"
  shows "kv db k = None"
proof -
  have "sorted_list_of_set {k \<in> dom (kv db). k \<le> s} = []"
    using seek_reverse [of s db] assms(1,2) by simp
  then have "{k \<in> dom (kv db). k \<le> s} = {}" using finite_kv by simp
  with assms(3) show ?thesis by auto
qed

lemma update_set_ok:
  assumes "db_update B db (\<lambda>t. txn_set B t k v) = (db', Inr ())"
  shows "kv db' = (kv db)(k \<mapsto> v)"
  using update_ok [OF assms] txn_set_ok txn_empty by fastforce

end

text \<open>No failure on keys that the database accepts.\<close>

locale badger_reliable = badger_kv +
  fixes key_ok :: "bytes \<Rightarrow> bool"
  assumes get_total: "key_ok k \<Longrightarrow> txn_get B db k = Inl e \<Longrightarrow> e = ErrKeyNotFound"
    and value_total: "\<exists>v. item_value B it = Inr v"
    and txn_set_total: "key_ok k \<Longrightarrow> \<exists>t'. txn_set B t k v = Inr t'"
    and update_total: "f (txn_new B db) = Inr t \<Longrightarrow> snd (db_update B db f) = Inr ()"
    and wb_set_total: "key_ok k \<Longrightarrow> \<exists>db' wb'. wb_set B db wb k v = (db', Inr wb')"
    and wb_flush_total: "snd (wb_flush B db wb) = Inr ()"

section \<open>An in-memory instance\<close>

text \<open>
  Association lists with the documented behaviour; a batch commits nothing before
  \<open>Flush\<close>.  As in Badger, the empty key is refused.
\<close>

type_synonym mem_db = "(bytes \<times> bytes) list"

definition mem_write :: "mem_db \<Rightarrow> (bytes \<times> bytes) list \<Rightarrow> mem_db" where
  "mem_write db ps = fold (\<lambda>(k, v). AList.update k v) ps db"

definition mem_items :: "mem_db \<Rightarrow> (bytes \<Rightarrow> bool) \<Rightarrow> (bytes \<times> bytes) list" where
  "mem_items db P = map (\<lambda>k. (k, the (map_of db k))) (sort (filter P (remdups (map fst db))))"

definition mem_badger :: "(mem_db, bytes \<times> bytes, (bytes \<times> bytes) list, (bytes \<times> bytes) list) badger_api" where
  "mem_badger =
     \<lparr>txn_get = (\<lambda>db k. if k = [] then Inl (Ext ''Key cannot be empty'')
        else case map_of db k of None \<Rightarrow> Inl ErrKeyNotFound | Some v \<Rightarrow> Inr (k, v)),
      item_key = fst,
      item_value = (\<lambda>it. Inr (snd it)),
      iter_seek = (\<lambda>db reverse s.
        if reverse then rev (mem_items db (\<lambda>k. k \<le> s)) else mem_items db (\<lambda>k. s \<le> k)),
      db_update = (\<lambda>db f. case f [] of Inl e \<Rightarrow> (db, Inl e) | Inr t \<Rightarrow> (mem_write db t, Inr ())),
      txn_new = (\<lambda>db. []),
      txn_set = (\<lambda>t k v. if k = [] then Inl (Ext ''Key cannot be empty'') else Inr (t @ [(k, v)])),
      wb_new = (\<lambda>db. []),
      wb_set = (\<lambda>db wb k v. if k = [] then (db, Inl (Ext ''Key cannot be empty''))
        else (db, Inr (wb @ [(k, v)]))),
      wb_flush = (\<lambda>db wb. (mem_write db wb, Inr ())),
      wb_cancel = (\<lambda>db wb. db)\<rparr>"

lemma map_of_mem_write: "map_of (mem_write db ps) = apply_sets ps (map_of db)"
  by (induction ps arbitrary: db) (auto simp: mem_write_def)

lemma mem_items_keys: "map fst (mem_items db P) = sorted_list_of_set {k \<in> dom (map_of db). P k}"
proof -
  let ?ks = "filter P (remdups (map fst db))"
  have "{k \<in> dom (map_of db). P k} = set ?ks"
    by (auto simp: dom_map_of_conv_image_fst)
  moreover have "sorted_list_of_set (set ?ks) = sort (remdups ?ks)"
    by (rule sorted_list_of_set_sort_remdups)
  moreover have "remdups ?ks = ?ks" by (rule distinct_remdups_id) simp
  ultimately show ?thesis by (simp only: mem_items_def) (simp add: comp_def)
qed

lemma mem_items_value: "(k, v) \<in> set (mem_items db P) \<Longrightarrow> map_of db k = Some v"
  by (auto simp: mem_items_def weak_map_of_SomeI dest: weak_map_of_SomeI)

lemma mem_seek_items: "\<exists>P. set (iter_seek mem_badger db r s) = set (mem_items db P)"
  by (cases r) (auto simp: mem_badger_def)

interpretation mem: badger_reliable mem_badger map_of "\<lambda>t. t" "\<lambda>wb. wb" "\<lambda>k. k \<noteq> []"
proof unfold_locales
  fix db s
  show "map (item_key mem_badger) (iter_seek mem_badger db False s) =
      sorted_list_of_set {k \<in> dom (map_of db). s \<le> k}"
    by (simp add: mem_badger_def mem_items_keys)
  show "map (item_key mem_badger) (iter_seek mem_badger db True s) =
      rev (sorted_list_of_set {k \<in> dom (map_of db). k \<le> s})"
    by (simp add: mem_badger_def mem_items_keys rev_map [symmetric])
next
  fix it db r s v
  assume it: "it \<in> set (iter_seek mem_badger db r s)" and "item_value mem_badger it = Inr v"
  then have v: "it = (fst it, v)" by (simp add: mem_badger_def prod_eq_iff)
  obtain P where "set (iter_seek mem_badger db r s) = set (mem_items db P)"
    using mem_seek_items by blast
  with it v have "(fst it, v) \<in> set (mem_items db P)" by simp
  then show "map_of db (item_key mem_badger it) = Some v"
    using mem_items_value by (simp add: mem_badger_def)
qed (auto simp: mem_badger_def map_of_mem_write finite_dom_map_of intro: exI [of _ "[]"]
  split: if_splits option.splits sum.splits)

end
