(* ===== verification/Badger_Batch.thy ===== *)
theory Badger_Batch
  imports Badger_Api Store_Interface
begin

text \<open>
  The write path that both Badger stores share in shape: fill a \<open>WriteBatch\<close> entry by
  entry, skipping existing keys when \<open>IfNotExist\<close> is set, then flush it.  The stores have
  their own definitions of it (as the code has); they are shown equal to the functions
  below, which are generic in the existence check and in the encoding of an entry, and
  whose effect on the database is established once, for every Badger.
\<close>

section \<open>Filling and flushing a batch\<close>

fun batch_fill :: "('db, 'it, 'txn, 'wb) badger_api \<Rightarrow> ('db \<Rightarrow> bytes \<Rightarrow> bool res) \<Rightarrow>
    (bytes \<Rightarrow> bytes \<Rightarrow> bytes \<times> bytes) \<Rightarrow> bool \<Rightarrow> Entry option list \<Rightarrow> 'db \<Rightarrow> 'wb \<Rightarrow>
    'db \<times> 'wb \<times> unit res" where
  "batch_fill B exists enc ine [] db wb = (db, wb, Inr ())"
| "batch_fill B exists enc ine (e # es) db wb =
     (case (if ine then bind_res (entry_key_bytes e) (exists db) else Inr False) of
        Inl f \<Rightarrow> (db, wb, Inl f)
      | Inr True \<Rightarrow> batch_fill B exists enc ine es db wb
      | Inr False \<Rightarrow>
          (case bind_res (entry_value_bytes e) (\<lambda>v. bind_res (entry_key_bytes e) (\<lambda>k. Inr (enc k v))) of
             Inl f \<Rightarrow> (db, wb, Inl f)
           | Inr kv \<Rightarrow>
               (case wb_set B db wb (fst kv) (snd kv) of
                  (db', Inl err) \<Rightarrow> (db', wb, Inl (Error (Wrap ''failed to add entry to batch'' err)))
                | (db', Inr wb') \<Rightarrow> batch_fill B exists enc ine es db' wb')))"

definition batch_write :: "('db, 'it, 'txn, 'wb) badger_api \<Rightarrow> ('db \<Rightarrow> bytes \<Rightarrow> bool res) \<Rightarrow>
    (bytes \<Rightarrow> bytes \<Rightarrow> bytes \<times> bytes) \<Rightarrow> bool \<Rightarrow> Entry option list \<Rightarrow> 'db \<Rightarrow> 'db \<times> unit res" where
  "batch_write B exists enc ine es db =
     (case batch_fill B exists enc ine es db (wb_new B db) of
        (db1, wb, Inl f) \<Rightarrow> (wb_cancel B db1 wb, Inl f)
      | (db1, wb, Inr _) \<Rightarrow>
          (case wb_flush B db1 wb of
             (db2, Inl err) \<Rightarrow>
               (wb_cancel B db2 wb, Inl (Error (Wrap ''failed to flush batch to Badger'' err)))
           | (db2, Inr _) \<Rightarrow> (wb_cancel B db2 wb, Inr ())))"

definition raw :: "(bytes \<Rightarrow> bytes \<Rightarrow> bytes \<times> bytes) \<Rightarrow> Entry option \<Rightarrow> bytes \<times> bytes" where
  "raw enc e = enc (fst (entry_kv e)) (snd (entry_kv e))"

section \<open>Its effect on the database\<close>

text \<open>
  \<open>fresh m k\<close> is what the existence check decides about the key \<open>k\<close> on the content \<open>m\<close>.
\<close>

definition existence_check :: "('db \<Rightarrow> bytes \<Rightarrow> bytes option) \<Rightarrow> ('db \<Rightarrow> bytes \<Rightarrow> bool res) \<Rightarrow>
    ((bytes \<Rightarrow> bytes option) \<Rightarrow> bytes \<Rightarrow> bool) \<Rightarrow> bool" where
  "existence_check kv exists fresh \<longleftrightarrow>
     (\<forall>db k. exists db k = Inr False \<longrightarrow> fresh (kv db) k) \<and>
     (\<forall>db k. exists db k = Inr True \<longrightarrow> \<not> fresh (kv db) k) \<and>
     (\<forall>m ps k. fresh (apply_sets ps m) k \<longrightarrow> fresh m k)"

text \<open>
  \<open>written\<close> relates a list of entries, the content before and the entries that were put
  in the batch.
\<close>

definition written :: "((bytes \<Rightarrow> bytes option) \<Rightarrow> bytes \<Rightarrow> bool) \<Rightarrow> bool \<Rightarrow> Entry option list \<Rightarrow>
    (bytes \<Rightarrow> bytes option) \<Rightarrow> Entry option list \<Rightarrow> bool" where
  "written fresh ine es m es' \<longleftrightarrow>
     set es' \<subseteq> set es \<and> (ine \<longrightarrow> (\<forall>e\<in>set es'. fresh m (fst (entry_kv e))))"

lemma written_skip: "written fresh ine es m es' \<Longrightarrow> written fresh ine (e # es) m es'"
  by (auto simp: written_def)

lemma written_none [simp]: "written fresh ine es m []"
  by (simp add: written_def)

text \<open>One turn of the loop, for an entry with a key and a value.\<close>

lemma batch_fill_Cons:
  assumes "entry_ok e"
  shows "batch_fill B exists enc ine (e # es) db wb =
    (case (if ine then exists db (fst (entry_kv e)) else Inr False) of
       Inl f \<Rightarrow> (db, wb, Inl f)
     | Inr True \<Rightarrow> batch_fill B exists enc ine es db wb
     | Inr False \<Rightarrow>
         (case wb_set B db wb (fst (raw enc e)) (snd (raw enc e)) of
            (db', Inl err) \<Rightarrow> (db', wb, Inl (Error (Wrap ''failed to add entry to batch'' err)))
          | (db', Inr wb') \<Rightarrow> batch_fill B exists enc ine es db' wb'))"
  by (simp add: entry_ok_key [OF assms] entry_ok_value [OF assms] raw_def split: sum.split bool.split)

declare batch_fill.simps(2) [simp del]

context badger_kv
begin

text \<open>An entry that is put in the batch, before the entries \<open>es'\<close> of the rest.\<close>

lemma fill_put:
  assumes "existence_check kv exists fresh" and "ine \<Longrightarrow> fresh (kv db) (fst (entry_kv e))"
    and "wb_set B db wb (fst (raw enc e)) (snd (raw enc e)) = (db1, Inr wb1)"
    and "written fresh ine es (kv db1) es'" and "kv db' = apply_sets ps (kv db1)"
    and "pend wb1 @ map (raw enc) es' = ps @ qs"
  obtains ps' where "written fresh ine (e # es) (kv db) (e # es')" and "kv db' = apply_sets ps' (kv db)"
    and "pend wb @ map (raw enc) (e # es') = ps' @ qs"
    and "apply_sets (pend wb1 @ map (raw enc) es') (kv db1) = apply_sets (pend wb @ map (raw enc) (e # es')) (kv db)"
proof -
  obtain us where u: "pend wb @ [raw enc e] = us @ pend wb1" "kv db1 = apply_sets us (kv db)"
    using wb_set_ok [OF assms(3)] by auto
  have all: "pend wb @ map (raw enc) (e # es') = us @ pend wb1 @ map (raw enc) es'"
    using u(1) by (metis append.assoc append_Cons append_Nil list.simps(9))
  show thesis
  proof (rule that [of "us @ ps"])
    show "written fresh ine (e # es) (kv db) (e # es')"
      using assms(1,2,4) u(2) by (auto simp: written_def existence_check_def)
  qed (use all u(2) assms(5,6) in simp_all)
qed

lemma batch_fill_ok:
  assumes "existence_check kv exists fresh" and "\<forall>e\<in>set es. entry_ok e"
    and "batch_fill B exists enc ine es db wb = (db', wb', Inr ())"
  shows "\<exists>es' ps. written fresh ine es (kv db) es' \<and> kv db' = apply_sets ps (kv db) \<and>
      pend wb @ map (raw enc) es' = ps @ pend wb' \<and> (\<not> ine \<longrightarrow> es' = es) \<and>
      (\<forall>e\<in>set es. e \<in> set es' \<or> \<not> fresh (apply_sets (pend wb @ map (raw enc) es') (kv db)) (fst (entry_kv e)))"
  using assms(2,3)
proof (induction es arbitrary: db wb)
  case Nil
  then show ?case by (auto intro!: exI [of _ "[]"])
next
  case (Cons e es)
  let ?k = "fst (entry_kv e)"
  have ok: "entry_ok e" and es: "\<forall>e\<in>set es. entry_ok e" using Cons.prems(1) by simp_all
  note f = Cons.prems(2) [unfolded batch_fill_Cons [OF ok]]
  show ?case
  proof (cases "ine \<and> exists db ?k = Inr True")
    case True
    then have "batch_fill B exists enc ine es db wb = (db', wb', Inr ())" using f by simp
    note IH = Cons.IH [OF es this]
    have "\<not> fresh (apply_sets ps (kv db)) ?k" for ps
      using True assms(1) unfolding existence_check_def by blast
    then show ?thesis using IH True written_skip by (metis set_ConsD)
  next
    case False
    have fr: "ine \<Longrightarrow> fresh (kv db) ?k"
      using False f assms(1) by (auto simp: existence_check_def split: sum.splits bool.splits)
    obtain db1 wb1 where w: "wb_set B db wb (fst (raw enc e)) (snd (raw enc e)) = (db1, Inr wb1)"
      and g: "batch_fill B exists enc ine es db1 wb1 = (db', wb', Inr ())"
      using f False by (auto split: prod.splits sum.splits bool.splits if_splits)
    obtain es' ps where h: "written fresh ine es (kv db1) es'" "kv db' = apply_sets ps (kv db1)"
      "pend wb1 @ map (raw enc) es' = ps @ pend wb'" "\<not> ine \<longrightarrow> es' = es"
      "\<forall>e\<in>set es. e \<in> set es' \<or> \<not> fresh (apply_sets (pend wb1 @ map (raw enc) es') (kv db1)) (fst (entry_kv e))"
      using Cons.IH [OF es g] by blast
    show ?thesis
    proof (rule fill_put [OF assms(1) fr w h(1-3)], assumption)
      fix ps'
      assume p: "written fresh ine (e # es) (kv db) (e # es')" "kv db' = apply_sets ps' (kv db)"
        "pend wb @ map (raw enc) (e # es') = ps' @ pend wb'"
        "apply_sets (pend wb1 @ map (raw enc) es') (kv db1) = apply_sets (pend wb @ map (raw enc) (e # es')) (kv db)"
      show ?thesis
        by (intro exI [of _ "e # es'"] exI [of _ ps'] conjI p(1-3)) (use h(4,5) [unfolded p(4)] in auto)
    qed
  qed
qed

lemma batch_fill_any:
  assumes "existence_check kv exists fresh" and "\<forall>e\<in>set es. entry_ok e"
    and "batch_fill B exists enc ine es db wb = (db', wb', r)"
  shows "\<exists>es' ps qs. written fresh ine es (kv db) es' \<and> kv db' = apply_sets ps (kv db) \<and>
      pend wb @ map (raw enc) es' = ps @ qs"
  using assms(2,3)
proof (induction es arbitrary: db wb)
  case Nil
  then show ?case by (intro exI [of _ "[]"] exI [of _ "pend wb"]) simp
next
  case (Cons e es)
  let ?k = "fst (entry_kv e)"
  have ok: "entry_ok e" and es: "\<forall>e\<in>set es. entry_ok e" using Cons.prems(1) by simp_all
  note f = Cons.prems(2) [unfolded batch_fill_Cons [OF ok]]
  have stays: ?case if "pend wb = ps @ qs" "kv db' = apply_sets ps (kv db)" for ps qs
    using that by (intro exI [of _ "[]"] exI [of _ ps] exI [of _ qs]) simp
  consider (skip) "batch_fill B exists enc ine es db wb = (db', wb', r)" | (fail) "db' = db"
    | (put) db1 x where "wb_set B db wb (fst (raw enc e)) (snd (raw enc e)) = (db1, x)" "ine \<Longrightarrow> fresh (kv db) ?k"
        "(case x of Inl err \<Rightarrow> (db1, wb, Inl (Error (Wrap ''failed to add entry to batch'' err)))
          | Inr wb1 \<Rightarrow> batch_fill B exists enc ine es db1 wb1) = (db', wb', r)"
    using f assms(1) by (cases "wb_set B db wb (fst (raw enc e)) (snd (raw enc e))")
      (auto simp: existence_check_def split: sum.splits bool.splits if_splits)
  then show ?case
  proof cases
    case skip
    then show ?thesis using Cons.IH [OF es skip] written_skip by blast
  next
    case fail
    then show ?thesis using stays [of "[]"] by simp
  next
    case put
    show ?thesis
    proof (cases x)
      case (Inl err)
      then have "db1 = db'" using put(3) by simp
      with wb_set_fail [of db wb _ _ db1 err] put(1) Inl stays show ?thesis by blast
    next
      case (Inr wb1)
      then have g: "batch_fill B exists enc ine es db1 wb1 = (db', wb', r)" using put(3) by simp
      obtain es' ps qs where h: "written fresh ine es (kv db1) es'" "kv db' = apply_sets ps (kv db1)"
        "pend wb1 @ map (raw enc) es' = ps @ qs"
        using Cons.IH [OF es g] by blast
      show ?thesis
        by (rule fill_put [OF assms(1) put(2) put(1) [unfolded Inr] h], assumption) blast
    qed
  qed
qed

text \<open>A batch that is written: all chosen entries are stored.\<close>

lemma batch_write_ok:
  assumes "existence_check kv exists fresh" and "\<forall>e\<in>set es. entry_ok e"
    and "batch_write B exists enc ine es db = (db', Inr ())"
  shows "\<exists>es'. written fresh ine es (kv db) es' \<and> kv db' = apply_sets (map (raw enc) es') (kv db) \<and>
      (\<not> ine \<longrightarrow> es' = es) \<and>
      (\<forall>e\<in>set es. e \<in> set es' \<or> \<not> fresh (kv db') (fst (entry_kv e)))"
proof -
  obtain db1 wb db2 where f: "batch_fill B exists enc ine es db (wb_new B db) = (db1, wb, Inr ())"
    and fl: "wb_flush B db1 wb = (db2, Inr ())" and c: "db' = wb_cancel B db2 wb"
    using assms(3) by (auto simp: batch_write_def split: prod.splits sum.splits)
  obtain es' ps where h: "written fresh ine es (kv db) es'" "kv db1 = apply_sets ps (kv db)"
    "map (raw enc) es' = ps @ pend wb" "\<not> ine \<longrightarrow> es' = es"
    "\<forall>e\<in>set es. e \<in> set es' \<or> \<not> fresh (apply_sets (map (raw enc) es') (kv db)) (fst (entry_kv e))"
    using batch_fill_ok [OF assms(1,2) f] unfolding wb_empty append_Nil by blast
  have "kv db' = apply_sets (map (raw enc) es') (kv db)"
    using wb_flush_ok [OF fl] h(2,3) by (simp add: c wb_cancel)
  with h show ?thesis by auto
qed

text \<open>A batch that fails may have stored a first part of the chosen entries.\<close>

lemma batch_write_any:
  assumes "existence_check kv exists fresh" and "\<forall>e\<in>set es. entry_ok e"
    and "batch_write B exists enc ine es db = (db', r)"
  shows "\<exists>es'. written fresh ine es (kv db) es' \<and> kv db' = apply_sets (map (raw enc) es') (kv db)"
proof -
  obtain db1 wb x where f: "batch_fill B exists enc ine es db (wb_new B db) = (db1, wb, x)"
    by (metis prod_cases3)
  have part: "\<exists>es''. written fresh ine es (kv db) es'' \<and> apply_sets ps (kv db) = apply_sets (map (raw enc) es'') (kv db)"
    if "written fresh ine es (kv db) es'" "map (raw enc) es' = ps @ qs" for es' ps qs
  proof -
    have "map (raw enc) (take (length ps) es') = ps" using that(2) by (metis append_eq_conv_conj take_map)
    moreover have "written fresh ine es (kv db) (take (length ps) es')"
      using that(1) by (auto simp: written_def dest: in_set_takeD)
    ultimately show ?thesis by auto
  qed
  show ?thesis
  proof (cases x)
    case (Inl g)
    then have "kv db' = kv db1" using assms(3) f by (auto simp: batch_write_def wb_cancel)
    moreover obtain es' ps qs where "written fresh ine es (kv db) es'" "kv db1 = apply_sets ps (kv db)"
      "map (raw enc) es' = ps @ qs"
      using batch_fill_any [OF assms(1,2) f] unfolding wb_empty append_Nil by blast
    ultimately show ?thesis using part by metis
  next
    case (Inr u)
    then have f': "batch_fill B exists enc ine es db (wb_new B db) = (db1, wb, Inr ())" using f by simp
    obtain es' ps where h: "written fresh ine es (kv db) es'" "kv db1 = apply_sets ps (kv db)"
      "map (raw enc) es' = ps @ pend wb"
      using batch_fill_ok [OF assms(1,2) f'] unfolding wb_empty append_Nil by blast
    obtain db2 y where fl: "wb_flush B db1 wb = (db2, y)" by (cases "wb_flush B db1 wb")
    then have "db' = wb_cancel B db2 wb"
      using assms(3) f' by (auto simp: batch_write_def split: sum.splits)
    then have k: "kv db' = kv db2" by (simp add: wb_cancel)
    show ?thesis
    proof (cases y)
      case (Inr v)
      then have "kv db2 = apply_sets (pend wb) (kv db1)" using wb_flush_ok [of db1 wb db2] fl by simp
      then show ?thesis using h k by (metis apply_sets_append)
    next
      case (Inl err)
      then obtain us vs where u: "pend wb = us @ vs" "kv db2 = apply_sets us (kv db1)"
        using wb_flush_fail [of db1 wb db2 err] fl by auto
      then have "kv db' = apply_sets (ps @ us) (kv db)" "map (raw enc) es' = (ps @ us) @ vs"
        using h k by simp_all
      then show ?thesis using part [OF h(1)] by metis
    qed
  qed
qed

end

text \<open>On a database that does not fail, a batch of admissible entries is written.\<close>

context badger_reliable
begin

lemma batch_fill_returns:
  assumes "\<forall>e\<in>set es. entry_ok e \<and> key_ok (fst (raw enc e)) \<and>
      (\<forall>db. \<exists>x. exists db (fst (entry_kv e)) = Inr x)"
  shows "\<exists>db' wb'. batch_fill B exists enc ine es db wb = (db', wb', Inr ())"
  using assms
proof (induction es arbitrary: db wb)
  case (Cons e es)
  have ok: "entry_ok e" using Cons.prems by simp
  obtain db1 wb1 where w: "wb_set B db wb (fst (raw enc e)) (snd (raw enc e)) = (db1, Inr wb1)"
    using wb_set_total Cons.prems by (metis list.set_intros(1))
  have "\<forall>db. \<exists>x. exists db (fst (entry_kv e)) = Inr x" using Cons.prems by simp
  then obtain x where x: "exists db (fst (entry_kv e)) = Inr x" by blast
  have IH: "\<And>db wb. \<exists>db' wb'. batch_fill B exists enc ine es db wb = (db', wb', Inr ())"
    using Cons by auto
  show ?case
    using IH [of db wb] IH [of db1 wb1] w x by (cases x) (auto simp: batch_fill_Cons [OF ok])
qed simp

lemma batch_write_returns:
  assumes "\<forall>e\<in>set es. entry_ok e \<and> key_ok (fst (raw enc e)) \<and>
      (\<forall>db. \<exists>x. exists db (fst (entry_kv e)) = Inr x)"
  shows "snd (batch_write B exists enc ine es db) = Inr ()"
proof -
  obtain db1 wb where "batch_fill B exists enc ine es db (wb_new B db) = (db1, wb, Inr ())"
    using batch_fill_returns [OF assms] by blast
  moreover obtain db2 where "wb_flush B db1 wb = (db2, Inr ())"
    using wb_flush_total [of db1 wb] by (cases "wb_flush B db1 wb") auto
  ultimately show ?thesis by (simp add: batch_write_def)
qed

end

section \<open>Stores that write in batches\<close>

text \<open>\<open>SetAll\<close> of both stores: nothing is opened for an empty list.\<close>

definition batch_set :: "('db, 'it, 'txn, 'wb) badger_api \<Rightarrow> ('db \<Rightarrow> bytes \<Rightarrow> bool res) \<Rightarrow>
    (bytes \<Rightarrow> bytes \<Rightarrow> bytes \<times> bytes) \<Rightarrow> bool \<Rightarrow> Entry option list \<Rightarrow> 'db \<Rightarrow> 'db \<times> unit res" where
  "batch_set B exists enc ine es db =
     (if es = [] then (db, Inr ()) else batch_write B exists enc ine es db)"

context badger_kv
begin

lemma batch_set_ok:
  assumes "existence_check kv exists fresh" and "\<forall>e\<in>set es. entry_ok e"
    and "batch_set B exists enc ine es db = (db', Inr ())"
  shows "\<exists>es'. written fresh ine es (kv db) es' \<and> kv db' = apply_sets (map (raw enc) es') (kv db) \<and>
      (\<not> ine \<longrightarrow> es' = es) \<and> (\<forall>e\<in>set es. e \<in> set es' \<or> \<not> fresh (kv db') (fst (entry_kv e)))"
  using assms(3) batch_write_ok [OF assms(1,2)]
  by (cases "es = []") (auto simp: batch_set_def intro: exI [of _ "[]"])

lemma batch_set_any:
  assumes "existence_check kv exists fresh" and "\<forall>e\<in>set es. entry_ok e"
    and "batch_set B exists enc ine es db = (db', r)"
  shows "\<exists>es'. written fresh ine es (kv db) es' \<and> kv db' = apply_sets (map (raw enc) es') (kv db)"
  using assms(3) batch_write_any [OF assms(1,2)]
  by (cases "es = []") (auto simp: batch_set_def intro: exI [of _ "[]"])

end

context badger_reliable
begin

lemma batch_set_returns:
  assumes "\<forall>e\<in>set es. entry_ok e \<and> key_ok (fst (raw enc e)) \<and> (\<forall>db. \<exists>x. exists db (fst (entry_kv e)) = Inr x)"
  shows "snd (batch_set B exists enc ine es db) = Inr ()"
  using batch_write_returns [OF assms] by (simp add: batch_set_def)

end

text \<open>
  What the two stores have in common: a database in their state, an existence check and an
  encoding of entries, and the versions that the content stands for.  This is enough for
  the contract of a backend.
\<close>

locale batch_store = badger_kv B kv txw pend
  for B :: "('db, 'it, 'txn, 'wb) badger_api" and kv txw pend +
  fixes W :: "('w, 'x) store_ops_scheme"
    and db_of :: "'w \<Rightarrow> 'db" and with_db :: "'w \<Rightarrow> 'db \<Rightarrow> 'w"
    and exists :: "'db \<Rightarrow> bytes \<Rightarrow> bool res"
    and enc :: "u64 \<Rightarrow> bytes \<Rightarrow> bytes \<Rightarrow> bytes \<times> bytes"
    and fresh :: "(bytes \<Rightarrow> bytes option) \<Rightarrow> bytes \<Rightarrow> bool"
    and vers :: "'w \<Rightarrow> bytes \<Rightarrow> versions" and turl :: "'w \<Rightarrow> string"
    and ok :: "'w \<Rightarrow> bool" and user_key :: "bytes \<Rightarrow> bool"
    and put :: "versions \<Rightarrow> u64 \<Rightarrow> bytes \<Rightarrow> versions"
  assumes get_ans: "ok w \<Longrightarrow> GetRequest_Keys req = map Some ks \<Longrightarrow>
      \<forall>k\<in>set ks. user_key (Key_Bytes k) \<Longrightarrow> op_Get W w req = Inr r \<Longrightarrow>
      r = read_response (turl w) (vers w) (GetRequest_BlockNumber req) ks"
    and set_all_batch: "op_SetAll W w es ine b =
      (case batch_set B exists (enc b) ine es (db_of w) of (db', r) \<Rightarrow> (with_db w db', r))"
    and db_of_with_db: "db_of (with_db w db) = db"
    and turl_with_db: "turl (with_db w db) = turl w"
    and check: "existence_check kv exists fresh"
    and vers_after: "kv (db_of w') = apply_sets (map (raw (enc b)) es) (kv (db_of w)) \<Longrightarrow>
      vers w' k = (case last_write es k of None \<Rightarrow> vers w k | Some v \<Rightarrow> put (vers w k) b v)"
    and ok_after: "ok w \<Longrightarrow> entries_for user_key es \<Longrightarrow>
      kv (db_of w') = apply_sets (map (raw (enc b)) es) (kv (db_of w)) \<Longrightarrow> ok w'"
    and fresh_iff: "ok w \<Longrightarrow> user_key k \<Longrightarrow> fresh (kv (db_of w)) k \<longleftrightarrow> vers w k = (\<lambda>_. None)"
    and put_now: "put m b v b = Some v"
    and put_else: "b' \<noteq> b \<Longrightarrow> put m b v b' = None \<or> put m b v b' = m b'"
begin

lemma written_user: "written fresh ine es m es' \<Longrightarrow> entries_for user_key es \<Longrightarrow> entries_for user_key es'"
  by (auto simp: written_def entries_for_def)

lemma set_any:
  assumes "entries_for user_key es" and "op_SetAll W w es ine b = (w', x)"
  obtains es' where "written fresh ine es (kv (db_of w)) es'"
    and "kv (db_of w') = apply_sets (map (raw (enc b)) es') (kv (db_of w))" and "turl w' = turl w"
proof -
  obtain db' where b: "batch_set B exists (enc b) ine es (db_of w) = (db', x)" and w': "w' = with_db w db'"
    using assms(2) by (auto simp: set_all_batch split: prod.splits)
  have "\<forall>e\<in>set es. entry_ok e" using assms(1) by (simp add: entries_for_def)
  from batch_set_any [OF check this b] show thesis
    using that by (auto simp: w' db_of_with_db turl_with_db)
qed

lemma set_ok:
  assumes "entries_for user_key es" and "op_SetAll W w es ine b = (w', Inr ())"
  obtains es' where "written fresh ine es (kv (db_of w)) es'"
    and "kv (db_of w') = apply_sets (map (raw (enc b)) es') (kv (db_of w))" and "\<not> ine \<Longrightarrow> es' = es"
    and "\<And>e. e \<in> set es \<Longrightarrow> e \<in> set es' \<or> \<not> fresh (kv (db_of w')) (fst (entry_kv e))"
proof -
  obtain db' where b: "batch_set B exists (enc b) ine es (db_of w) = (db', Inr ())" and w': "w' = with_db w db'"
    using assms(2) by (auto simp: set_all_batch split: prod.splits)
  have "\<forall>e\<in>set es. entry_ok e" using assms(1) by (simp add: entries_for_def)
  from batch_set_ok [OF check this b] obtain es' where "written fresh ine es (kv (db_of w)) es'"
    "kv (db_of w') = apply_sets (map (raw (enc b)) es') (kv (db_of w))" "\<not> ine \<longrightarrow> es' = es"
    "\<forall>e\<in>set es. e \<in> set es' \<or> \<not> fresh (kv (db_of w')) (fst (entry_kv e))"
    unfolding w' db_of_with_db by blast
  then show thesis by (intro that [of es']) simp_all
qed

text \<open>A key that is not among the written entries keeps its versions.\<close>

lemma unwritten:
  assumes "kv (db_of w') = apply_sets (map (raw (enc b)) es') (kv (db_of w))"
    and "\<And>e. e \<in> set es' \<Longrightarrow> fst (entry_kv e) \<noteq> k"
  shows "vers w' k = vers w k"
proof -
  have "k \<notin> entry_keys es'" using assms(2) by (force simp: entry_keys_def)
  then show ?thesis using vers_after [OF assms(1), of k] by (simp add: last_write_None_iff [symmetric])
qed

lemma inserted:
  assumes "ok w" and "entries_for user_key es" and "op_SetAll W w es True b = (w', Inr ())"
    and "user_key k" and "k \<in> entry_keys es" and "vers w k = (\<lambda>_. None)"
  shows "\<exists>v. (k, v) \<in> set (map entry_kv es) \<and> vers w' k = put (\<lambda>_. None) b v"
proof -
  obtain es' where w: "written fresh True es (kv (db_of w)) es'"
    and e: "kv (db_of w') = apply_sets (map (raw (enc b)) es') (kv (db_of w))"
    and all: "\<And>e. e \<in> set es \<Longrightarrow> e \<in> set es' \<or> \<not> fresh (kv (db_of w')) (fst (entry_kv e))"
    using set_ok [OF assms(2,3)] by metis
  have ok': "ok w'" by (rule ok_after [OF assms(1) written_user [OF w assms(2)] e])
  obtain x where x: "x \<in> set es" "fst (entry_kv x) = k" using assms(5) by (auto simp: entry_keys_def)
  have "last_write es' k \<noteq> None"
  proof
    assume n: "last_write es' k = None"
    then have "fresh (kv (db_of w')) k"
      using vers_after [OF e, of k] assms(6) fresh_iff [OF ok' assms(4)] by simp
    with all [OF x(1)] x(2) have "x \<in> set es'" by auto
    with n x show False by (auto simp: last_write_None_iff entry_keys_def)
  qed
  then obtain v where v: "last_write es' k = Some v" by auto
  have "(k, v) \<in> set (map entry_kv es)" using last_write_in [OF v] w by (auto simp: written_def)
  then show ?thesis using vers_after [OF e, of k] v assms(6) by auto
qed

end

sublocale batch_store \<subseteq> batch: kv_store W vers turl ok user_key put
proof
  fix w es ine b w' x k
  assume ok: "ok w" and es: "entries_for user_key es"
  show "op_SetAll W w es ine b = (w', x) \<Longrightarrow> ok w' \<and> turl w' = turl w"
    by (erule set_any [OF es]) (use ok_after [OF ok written_user [OF _ es]] in blast)
  assume k: "user_key k"
  show "op_SetAll W w es False b = (w', Inr ()) \<Longrightarrow>
      vers w' k = (case last_write es k of None \<Rightarrow> vers w k | Some v \<Rightarrow> put (vers w k) b v)"
    by (erule set_ok [OF es]) (use vers_after in blast)
  show "op_SetAll W w es ine b = (w', x) \<Longrightarrow> k \<notin> entry_keys es \<Longrightarrow> vers w' k = vers w k"
    by (erule set_any [OF es], erule unwritten) (auto simp: written_def entry_keys_def)
  show "op_SetAll W w es True b = (w', x) \<Longrightarrow> vers w k \<noteq> (\<lambda>_. None) \<Longrightarrow> vers w' k = vers w k"
    by (erule set_any [OF es], erule unwritten) (use fresh_iff [OF ok k] in \<open>auto simp: written_def\<close>)
  show "op_SetAll W w es ine b = (w', x) \<Longrightarrow> vers w' k b' \<noteq> None \<Longrightarrow> b' = b \<or> vers w k b' \<noteq> None" for b'
  proof (erule set_any [OF es])
    fix es'
    assume "vers w' k b' \<noteq> None" and "kv (db_of w') = apply_sets (map (raw (enc b)) es') (kv (db_of w))"
    then show "b' = b \<or> vers w k b' \<noteq> None"
      using vers_after [of w' b es' w k] put_else [of b' b "vers w k" "the (last_write es' k)"]
      by (cases "b' = b"; cases "last_write es' k") auto
  qed
  show "op_SetAll W w es True b = (w', Inr ()) \<Longrightarrow> k \<in> entry_keys es \<Longrightarrow> vers w k = (\<lambda>_. None) \<Longrightarrow>
      \<exists>v. (k, v) \<in> set (map entry_kv es) \<and> vers w' k = put (\<lambda>_. None) b v"
    by (rule inserted [OF ok es _ k])
qed (use get_ans put_now put_else in blast)+

end
