(* ===== verification/Fanout.thy ===== *)
theory Fanout
  imports Prelude
begin

text \<open>
  The worker pool that the Badger getters are built on: one goroutine per requested key,
  a semaphore channel of capacity \<open>numWorkers\<close>, an error channel of capacity one that
  keeps the first error sent, a slice slot per key, and \<open>wg.Wait\<close>.  \<open>fan_out\<close> is what the
  caller gets when the goroutines finish in the order \<open>sched\<close>; the step relation
  \<open>pool_step\<close> has every interleaving, and its complete runs are exactly the results of
  \<open>fan_out\<close> for the order in which the goroutines finished.
\<close>

section \<open>The result of a pool\<close>

text \<open>
  \<open>job i\<close> is the body of the \<open>db.View\<close> closure of goroutine \<open>i\<close>.  A panic in a goroutine
  is not recovered: it ends the process.
\<close>

fun run_jobs :: "(nat \<Rightarrow> 'r res) \<Rightarrow> nat list \<Rightarrow> 'r option list \<times> error option \<Rightarrow>
    ('r option list \<times> error option) res" where
  "run_jobs job [] st = Inr st"
| "run_jobs job (i # is) (slots, errc) =
     (case job i of
        Inr r \<Rightarrow> run_jobs job is (slots[i := Some r], errc)
      | Inl (Error e) \<Rightarrow> run_jobs job is (slots, (case errc of None \<Rightarrow> Some e | Some e' \<Rightarrow> Some e'))
      | Inl f \<Rightarrow> Inl f)"

definition fan_out :: "int \<Rightarrow> string \<Rightarrow> nat list \<Rightarrow> nat \<Rightarrow> (nat \<Rightarrow> 'r res) \<Rightarrow> 'r option list res" where
  "fan_out workers msg sched n job =
     (if workers < 0 then Inl (Panic ''makechan: size out of range'')
      else if workers = 0 \<and> 0 < n then Inl Blocked
      else case run_jobs job sched (replicate n None, None) of
          Inl f \<Rightarrow> Inl f
        | Inr (slots, Some e) \<Rightarrow> Inl (Error (Wrap msg e))
        | Inr (slots, None) \<Rightarrow> Inr slots)"

text \<open>An order in which \<open>n\<close> goroutines can finish.\<close>

definition schedule :: "nat \<Rightarrow> nat list \<Rightarrow> bool" where
  "schedule n sched \<longleftrightarrow> distinct sched \<and> set sched = {..<n}"

lemma schedule_upt [simp]: "schedule n [0..<n]"
  by (auto simp: schedule_def)

lemma run_jobs_ok:
  assumes "\<And>i. i \<in> set sched \<Longrightarrow> job i = Inr (r i)"
    and "\<And>i. i \<in> set sched \<Longrightarrow> i < length slots"
  shows "run_jobs job sched (slots, errc) =
    Inr (map (\<lambda>i. if i \<in> set sched then Some (r i) else slots ! i) [0..<length slots], errc)"
  using assms
proof (induction sched arbitrary: slots)
  case Nil
  then show ?case by (simp add: map_nth)
next
  case (Cons i sched)
  have "run_jobs job (i # sched) (slots, errc) = run_jobs job sched (slots[i := Some (r i)], errc)"
    using Cons.prems(1) [of i] by simp
  also have "\<dots> = Inr (map (\<lambda>j. if j \<in> set sched then Some (r j) else slots[i := Some (r i)] ! j)
      [0..<length slots], errc)"
    using Cons.IH [of "slots[i := Some (r i)]"] Cons.prems by simp
  also have "map (\<lambda>j. if j \<in> set sched then Some (r j) else slots[i := Some (r i)] ! j) [0..<length slots] =
      map (\<lambda>j. if j \<in> set (i # sched) then Some (r j) else slots ! j) [0..<length slots]"
    using Cons.prems(2) [of i] by (auto simp: nth_list_update)
  finally show ?case .
qed

text \<open>The error channel ends up empty exactly when it was and no job sent an error.\<close>

lemma run_jobs_keeps_error: "run_jobs job sched (slots, Some e) = Inr (slots', x) \<Longrightarrow> x = Some e"
  by (induction sched arbitrary: slots) (auto split: sum.splits fail.splits)

lemma run_jobs_no_error:
  assumes "run_jobs job sched (slots, errc) = Inr (slots', None)" and "i \<in> set sched"
  shows "\<exists>r. job i = Inr r"
  using assms
proof (induction sched arbitrary: slots errc)
  case (Cons j sched)
  obtain r where j: "job j = Inr r"
    using Cons.prems(1)
    by (auto split: sum.splits fail.splits option.splits dest: run_jobs_keeps_error)
  with Cons.prems(1) have "run_jobs job sched (slots[j := Some r], errc) = Inr (slots', None)"
    by simp
  with Cons.IH Cons.prems(2) j show ?case by auto
qed simp

lemma run_jobs_error:
  assumes "run_jobs job sched (slots, errc) = Inr (slots', Some e)"
  shows "errc = Some e \<or> (errc = None \<and> (\<exists>i\<in>set sched. job i = Inl (Error e)))"
  using assms
proof (induction sched arbitrary: slots errc)
  case (Cons i sched)
  show ?case
  proof (cases "job i")
    case (Inl f)
    then obtain e1 where f: "f = Error e1" using Cons.prems by (cases f) auto
    have "run_jobs job sched (slots, (case errc of None \<Rightarrow> Some e1 | Some e' \<Rightarrow> Some e')) =
        Inr (slots', Some e)"
      using Cons.prems Inl f by simp
    from Cons.IH [OF this] show ?thesis using Inl f by (cases errc) auto
  next
    case (Inr r)
    then show ?thesis using Cons by auto
  qed
qed simp

lemma run_jobs_panic:
  assumes "run_jobs job sched st = Inl f"
  shows "\<exists>i\<in>set sched. job i = Inl f \<and> (\<forall>e. f \<noteq> Error e)"
  using assms
  by (induction job sched st rule: run_jobs.induct) (auto split: sum.splits fail.splits option.splits)

text \<open>All jobs succeed: the slots hold their results, whatever the order.\<close>

lemma fan_out_ok:
  assumes "0 < workers" and "schedule n sched" and "\<And>i. i < n \<Longrightarrow> job i = Inr (r i)"
  shows "fan_out workers msg sched n job = Inr (map (\<lambda>i. Some (r i)) [0..<n])"
proof -
  have s: "set sched = {..<n}" using assms(2) by (simp add: schedule_def)
  have "run_jobs job sched (replicate n None, None) =
      Inr (map (\<lambda>i. if i \<in> set sched then Some (r i) else replicate n None ! i) [0..<n], None)"
    using run_jobs_ok [of sched job r "replicate n None" None] assms(3) s by simp
  moreover have "map (\<lambda>i. if i \<in> set sched then Some (r i) else replicate n None ! i) [0..<n] =
      map (\<lambda>i. Some (r i)) [0..<n]"
    using s by simp
  ultimately show ?thesis using assms(1) by (simp add: fan_out_def)
qed

lemma fan_out_okD:
  assumes "fan_out workers msg sched n job = Inr slots" and "schedule n sched"
  shows "\<forall>i<n. \<exists>r. job i = Inr r" and "slots = map (\<lambda>i. Some (projr (job i))) [0..<n]"
proof -
  obtain s where s: "run_jobs job sched (replicate n None, None) = Inr (s, None)"
    using assms(1) by (auto simp: fan_out_def split: if_splits sum.splits option.splits)
  show all: "\<forall>i<n. \<exists>r. job i = Inr r"
    using run_jobs_no_error [OF s] assms(2) by (auto simp: schedule_def)
  then have j: "\<And>i. i < n \<Longrightarrow> job i = Inr (projr (job i))" by force
  have w: "0 < workers \<or> n = 0"
    using assms(1) by (auto simp: fan_out_def split: if_splits)
  show "slots = map (\<lambda>i. Some (projr (job i))) [0..<n]"
  proof (cases "n = 0")
    case True
    then show ?thesis using assms by (auto simp: fan_out_def schedule_def split: if_splits)
  next
    case False
    then show ?thesis using fan_out_ok [OF _ assms(2) j, where workers = workers and msg = msg] w assms(1) by simp
  qed
qed

text \<open>A read in which every job answers for its key.\<close>

lemma fan_out_answers:
  assumes "fan_out workers msg sched (length ks) (\<lambda>i. f (map Some ks ! i)) = Inr slots"
    and "schedule (length ks) sched" and "\<And>k q. k \<in> set ks \<Longrightarrow> f (Some k) = Inr q \<Longrightarrow> q = g k"
  shows "slots = map (\<lambda>k. Some (g k)) ks"
proof -
  note ok = fan_out_okD [OF assms(1,2)]
  have "projr (f (map Some ks ! i)) = g (ks ! i)" if "i < length ks" for i
    using ok(1) assms(3) [of "ks ! i"] that by auto
  then show ?thesis unfolding ok(2) by (intro nth_equalityI) simp_all
qed

text \<open>An error that is returned is one that some job sent, wrapped.\<close>

lemma fan_out_errorD:
  assumes "fan_out workers msg sched n job = Inl (Error e)" and "schedule n sched"
  shows "\<exists>i<n. \<exists>e'. job i = Inl (Error e') \<and> e = Wrap msg e'"
proof -
  have "\<nexists>f. run_jobs job sched (replicate n None, None) = Inl (Error f)"
    using run_jobs_panic by blast
  then obtain s e' where s: "run_jobs job sched (replicate n None, None) = Inr (s, Some e')"
    and e: "e = Wrap msg e'"
    using assms(1) by (auto simp: fan_out_def split: if_splits sum.splits option.splits)
  from run_jobs_error [OF s] assms(2) e show ?thesis by (auto simp: schedule_def)
qed

text \<open>A failing job makes the whole call fail, and only the choice of the error depends on the order.\<close>

lemma fan_out_fails:
  assumes "schedule n sched" and "i < n" and "job i = Inl f"
  shows "\<exists>g. fan_out workers msg sched n job = Inl g"
proof (cases "fan_out workers msg sched n job")
  case (Inr s)
  from fan_out_okD(1) [OF this assms(1)] assms(2,3) show ?thesis by fastforce
qed simp

section \<open>Every interleaving\<close>

text \<open>
  A goroutine waits for the semaphore, holds it while it works, and has returned.  \<open>order\<close>
  records the goroutines that have returned, in the order they did.
\<close>

datatype phase = Waiting | Holding | Returned

record 'r pool =
  phases :: "phase list"
  slots :: "'r option list"
  errc :: "error option"
  crash :: "fail option"
  order :: "nat list"

definition start_pool :: "nat \<Rightarrow> 'r pool" where
  "start_pool n = \<lparr>phases = replicate n Waiting, slots = replicate n None, errc = None,
                   crash = None, order = []\<rparr>"

lemma start_pool_simps [simp]:
  "phases (start_pool n) = replicate n Waiting" "slots (start_pool n) = replicate n None"
  "errc (start_pool n) = None" "crash (start_pool n) = None" "order (start_pool n) = []"
  by (simp_all add: start_pool_def)

definition in_phase :: "phase \<Rightarrow> 'r pool \<Rightarrow> nat set" where
  "in_phase ph p = {i. i < length (phases p) \<and> phases p ! i = ph}"

lemma in_phase_start [simp]: "in_phase ph (start_pool n) = (if ph = Waiting then {..<n} else {})"
  by (auto simp: in_phase_def)

inductive pool_step :: "int \<Rightarrow> (nat \<Rightarrow> 'r res) \<Rightarrow> 'r pool \<Rightarrow> 'r pool \<Rightarrow> bool"
  for workers :: int and job :: "nat \<Rightarrow> 'r res" where
  acquire: "crash p = None \<Longrightarrow> i \<in> in_phase Waiting p \<Longrightarrow>
     int (card (in_phase Holding p)) < workers \<Longrightarrow>
     pool_step workers job p (p\<lparr>phases := (phases p)[i := Holding]\<rparr>)"
| finish_ok: "crash p = None \<Longrightarrow> i \<in> in_phase Holding p \<Longrightarrow> job i = Inr r \<Longrightarrow>
     pool_step workers job p (p\<lparr>phases := (phases p)[i := Returned],
       slots := (slots p)[i := Some r], order := order p @ [i]\<rparr>)"
| finish_error: "crash p = None \<Longrightarrow> i \<in> in_phase Holding p \<Longrightarrow> job i = Inl (Error e) \<Longrightarrow>
     pool_step workers job p (p\<lparr>phases := (phases p)[i := Returned],
       errc := (case errc p of None \<Rightarrow> Some e | Some e' \<Rightarrow> Some e'), order := order p @ [i]\<rparr>)"
| finish_panic: "crash p = None \<Longrightarrow> i \<in> in_phase Holding p \<Longrightarrow> job i = Inl f \<Longrightarrow>
     \<forall>e. f \<noteq> Error e \<Longrightarrow>
     pool_step workers job p (p\<lparr>phases := (phases p)[i := Returned], crash := Some f\<rparr>)"

inductive_simps crashed_pool_step: "pool_step workers job (p\<lparr>crash := Some f\<rparr>) p'"

inductive pool_reach :: "int \<Rightarrow> (nat \<Rightarrow> 'r res) \<Rightarrow> nat \<Rightarrow> 'r pool \<Rightarrow> bool"
  for workers :: int and job :: "nat \<Rightarrow> 'r res" and n :: nat where
  start: "pool_reach workers job n (start_pool n)"
| step: "pool_reach workers job n p \<Longrightarrow> pool_step workers job p p' \<Longrightarrow> pool_reach workers job n p'"

lemma finite_in_phase [simp]: "finite (in_phase ph p)"
  by (simp add: in_phase_def)

lemma in_phase_update:
  "i < length (phases p) \<Longrightarrow>
   in_phase ph (p\<lparr>phases := (phases p)[i := q]\<rparr>) =
     (if ph = q then insert i (in_phase ph p) else in_phase ph p - {i})"
  by (auto simp: in_phase_def nth_list_update)

lemma in_phase_other [simp]:
  "in_phase ph (p\<lparr>slots := s\<rparr>) = in_phase ph p"
  "in_phase ph (p\<lparr>errc := e\<rparr>) = in_phase ph p"
  "in_phase ph (p\<lparr>crash := c\<rparr>) = in_phase ph p"
  "in_phase ph (p\<lparr>order := ord\<rparr>) = in_phase ph p"
  by (simp_all add: in_phase_def)

lemma in_phaseD: "i \<in> in_phase ph p \<Longrightarrow> i < length (phases p)"
  by (simp add: in_phase_def)

definition pool_inv :: "int \<Rightarrow> (nat \<Rightarrow> 'r res) \<Rightarrow> nat \<Rightarrow> 'r pool \<Rightarrow> bool" where
  "pool_inv workers job n p \<longleftrightarrow>
     length (phases p) = n \<and>
     int (card (in_phase Holding p)) \<le> max 0 workers \<and>
     (crash p = None \<longrightarrow> distinct (order p) \<and> set (order p) = in_phase Returned p \<and>
        run_jobs job (order p) (replicate n None, None) = Inr (slots p, errc p))"

lemma run_jobs_append:
  "run_jobs job (xs @ ys) st = bind_res (run_jobs job xs st) (run_jobs job ys)"
  by (induction job xs st rule: run_jobs.induct) (auto split: sum.splits fail.splits)

lemma in_phase_distinct: "i \<in> in_phase ph p \<Longrightarrow> ph \<noteq> ph' \<Longrightarrow> i \<notin> in_phase ph' p"
  by (auto simp: in_phase_def)

lemma in_phase_finish:
  assumes "i \<in> in_phase Holding p"
  shows "in_phase Holding (p\<lparr>phases := (phases p)[i := Returned]\<rparr>) = in_phase Holding p - {i}"
    and "in_phase Returned (p\<lparr>phases := (phases p)[i := Returned]\<rparr>) = insert i (in_phase Returned p)"
    and "card (in_phase Holding p - {i}) \<le> card (in_phase Holding p)"
  using assms by (simp_all add: in_phase_update in_phaseD card_Diff1_le)

lemma pool_inv_finish:
  assumes "pool_inv workers job n p" and "crash p = None" and i: "i \<in> in_phase Holding p"
    and "run_jobs job [i] (slots p, errc p) = Inr (s, e)"
  shows "pool_inv workers job n (p\<lparr>phases := (phases p)[i := Returned], slots := s, errc := e,
    order := order p @ [i]\<rparr>)"
proof -
  have "i \<notin> set (order p)"
    using assms(1,2) in_phase_distinct [OF i, of Returned] by (simp add: pool_inv_def)
  moreover have "run_jobs job (order p @ [i]) (replicate n None, None) = Inr (s, e)"
    using assms(1,2,4) by (simp add: pool_inv_def run_jobs_append)
  moreover have "int (card (in_phase Holding p - {i})) \<le> max 0 workers"
    using assms(1) in_phase_finish(3) [OF i] by (simp add: pool_inv_def)
  ultimately show ?thesis
    using assms(1,2) by (simp add: pool_inv_def in_phase_finish(1,2) [OF i])
qed

lemma pool_step_inv:
  assumes "pool_step workers job p p'" and "pool_inv workers job n p"
  shows "pool_inv workers job n p'"
  using assms
proof (induction rule: pool_step.induct)
  case (acquire p i)
  then have i: "i < length (phases p)" "i \<notin> in_phase Holding p" "i \<notin> in_phase Returned p"
    by (simp_all add: in_phaseD in_phase_distinct)
  have "in_phase Holding (p\<lparr>phases := (phases p)[i := Holding]\<rparr>) = insert i (in_phase Holding p)"
    "in_phase Returned (p\<lparr>phases := (phases p)[i := Holding]\<rparr>) = in_phase Returned p"
    using i by (simp_all add: in_phase_update)
  moreover have "int (card (insert i (in_phase Holding p))) \<le> max 0 workers"
    using acquire.hyps(3) i(2) by simp
  ultimately show ?case using acquire by (simp add: pool_inv_def)
next
  case (finish_ok p i r)
  with pool_inv_finish [of workers job n p i "(slots p)[i := Some r]" "errc p"] show ?case by simp
next
  case (finish_error p i e)
  with pool_inv_finish [of workers job n p i "slots p"
      "case errc p of None \<Rightarrow> Some e | Some e' \<Rightarrow> Some e'"] show ?case by simp
next
  case (finish_panic p i f)
  have "int (card (in_phase Holding p - {i})) \<le> max 0 workers"
    using finish_panic.prems in_phase_finish(3) [OF finish_panic.hyps(2)]
    unfolding pool_inv_def by linarith
  with finish_panic show ?case by (simp add: pool_inv_def in_phase_finish(1))
qed

lemma pool_reach_inv: "pool_reach workers job n p \<Longrightarrow> pool_inv workers job n p"
proof (induction rule: pool_reach.induct)
  case start
  show ?case by (simp add: pool_inv_def)
next
  case (step p p')
  then show ?case by (blast intro: pool_step_inv)
qed

text \<open>What is left to do shrinks with every step, so every run of the pool ends.\<close>

fun phase_work :: "phase \<Rightarrow> nat" where
  "phase_work Waiting = 2"
| "phase_work Holding = 1"
| "phase_work Returned = 0"

definition pool_work :: "'r pool \<Rightarrow> nat" where
  "pool_work p = (\<Sum>i<length (phases p). phase_work (phases p ! i))"

lemma pool_work_update:
  assumes "i < length (phases p)" and "phase_work q < phase_work (phases p ! i)"
  shows "pool_work (p\<lparr>phases := (phases p)[i := q]\<rparr>) < pool_work p"
  unfolding pool_work_def using assms
  by (auto simp: nth_list_update intro!: sum_strict_mono_ex1)

lemma pool_work_other [simp]:
  "pool_work (p\<lparr>slots := s\<rparr>) = pool_work p" "pool_work (p\<lparr>errc := e\<rparr>) = pool_work p"
  "pool_work (p\<lparr>crash := c\<rparr>) = pool_work p" "pool_work (p\<lparr>order := ord\<rparr>) = pool_work p"
  by (simp_all add: pool_work_def)

lemma pool_finish_work:
  "i \<in> in_phase Holding p \<Longrightarrow> pool_work (p\<lparr>phases := (phases p)[i := Returned]\<rparr>) < pool_work p"
  by (intro pool_work_update) (auto simp: in_phase_def)

lemma pool_step_work: "pool_step workers job p p' \<Longrightarrow> pool_work p' < pool_work p"
proof (induction rule: pool_step.induct)
  case (acquire p i)
  then show ?case by (intro pool_work_update) (auto simp: in_phase_def)
qed (simp_all add: pool_work_def pool_finish_work [unfolded pool_work_def, simplified])

text \<open>With a positive number of workers a pool that cannot step has crashed or is done.\<close>

lemma holding_steps:
  assumes "crash p = None" and "i \<in> in_phase Holding p"
  shows "\<exists>p'. pool_step workers job p p'"
proof (cases "job i")
  case (Inr r)
  from pool_step.finish_ok [of p i job, OF assms this] show ?thesis by blast
next
  case (Inl f)
  show ?thesis
  proof (cases f)
    case (Error e)
    with Inl have "job i = Inl (Error e)" by simp
    from pool_step.finish_error [of p i job, OF assms this] show ?thesis by blast
  qed (use pool_step.finish_panic [of p i job, OF assms Inl] in auto)
qed

lemma pool_stuck_done:
  assumes "0 < workers" and "pool_inv workers job n p" and "\<nexists>p'. pool_step workers job p p'"
  shows "crash p \<noteq> None \<or> in_phase Returned p = {..<n}"
proof (rule ccontr)
  assume h: "\<not> (crash p \<noteq> None \<or> in_phase Returned p = {..<n})"
  then have c: "crash p = None" by simp
  then have nohold: "in_phase Holding p = {}" using holding_steps [OF c] assms(3) by blast
  have "in_phase Returned p \<subseteq> {..<n}" using assms(2) by (auto simp: pool_inv_def in_phase_def)
  with h obtain i where i: "i < n" "i \<notin> in_phase Returned p" by blast
  then have "i \<in> in_phase Waiting p"
    using nohold assms(2) by (cases "phases p ! i") (auto simp: pool_inv_def in_phase_def)
  moreover have "int (card (in_phase Holding p)) < workers" using nohold assms(1) by simp
  ultimately have "pool_step workers job p (p\<lparr>phases := (phases p)[i := Holding]\<rparr>)"
    using c by (intro pool_step.acquire)
  with assms(3) show False by blast
qed

text \<open>The answer of the main goroutine after \<open>wg.Wait\<close>.\<close>

definition pool_result :: "string \<Rightarrow> 'r pool \<Rightarrow> 'r option list res" where
  "pool_result msg p = (case crash p of Some f \<Rightarrow> Inl f | None \<Rightarrow>
     (case errc p of Some e \<Rightarrow> Inl (Error (Wrap msg e)) | None \<Rightarrow> Inr (slots p)))"

lemma pool_result_fan_out:
  assumes "0 < workers" "pool_reach workers job n p" "\<nexists>p'. pool_step workers job p p'" "crash p = None"
  shows "schedule n (order p)" and "pool_result msg p = fan_out workers msg (order p) n job"
proof -
  have inv: "pool_inv workers job n p" using assms(2) by (rule pool_reach_inv)
  have "in_phase Returned p = {..<n}" using pool_stuck_done [OF assms(1) inv assms(3)] assms(4) by simp
  then show "schedule n (order p)" using inv assms(4) by (simp add: pool_inv_def schedule_def)
  have "run_jobs job (order p) (replicate n None, None) = Inr (slots p, errc p)"
    using inv assms(4) by (simp add: pool_inv_def)
  then show "pool_result msg p = fan_out workers msg (order p) n job"
    using assms(1,4) by (auto simp: pool_result_def fan_out_def split: option.splits)
qed

text \<open>Without workers no goroutine ever gets past the semaphore.\<close>

lemma no_workers_stuck: "\<not> pool_step 0 job (start_pool n) p'"
  by (auto elim!: pool_step.cases simp: start_pool_def in_phase_def)

end
