(* ===== verification/Badger_Store.thy ===== *)
theory Badger_Store
  imports Badger_Batch Fanout
begin

text \<open>
  The latest-value Badger store (\<open>store/badger\<close>): one value per key, prefixed with the
  number of the block that wrote it, and the persisted readiness flag of the remote-feed
  mode.  The store is a definition over the Badger calls \<open>B\<close>; \<open>sched\<close> is the order in
  which the goroutines of a read finish.
\<close>

section \<open>State and operations\<close>

record 'db badger_store =
  st_db :: 'db
  st_typeUrl :: string
  st_numWorkers :: int
  st_ready :: bool

definition readyKey :: bytes where
  "readyKey = [0, 0, 0, 0] @ map (\<lambda>c. of_nat (of_char c)) ''__remote_feed_ready__''"

text \<open>\<open>valueWithBlockInfo\<close>: the block number, then the value.\<close>

definition value_with_block :: "u64 \<Rightarrow> bytes \<Rightarrow> bytes" where
  "value_with_block blockNumber v = putUint64 blockNumber @ v"

text \<open>The check of \<open>IfNotExist\<close>.\<close>

definition badger_exists :: "('db, 'it, 'txn, 'wb) badger_api \<Rightarrow> 'db \<Rightarrow> bytes \<Rightarrow> bool res" where
  "badger_exists B db k =
     (case txn_get B db k of
        Inr it \<Rightarrow> Inr True
      | Inl e \<Rightarrow> if errors_is e ErrKeyNotFound then Inr False
          else Inl (Error (Wrap ''failed to check existence of key'' e)))"

definition badger_Set :: "('db, 'it, 'txn, 'wb) badger_api \<Rightarrow> 'db badger_store \<Rightarrow> Entry option \<Rightarrow>
    bool \<Rightarrow> u64 \<Rightarrow> 'db badger_store \<times> unit res" where
  "badger_Set B s entry ifNotExist blockNumber =
     (case (if ifNotExist then bind_res (entry_key_bytes entry) (badger_exists B (st_db s)) else Inr False) of
        Inl f \<Rightarrow> (s, Inl f)
      | Inr True \<Rightarrow> (s, Inr ())
      | Inr False \<Rightarrow>
          (case entry_value_bytes entry of
             Inl f \<Rightarrow> (s, Inl f)
           | Inr v \<Rightarrow>
               (case entry_key_bytes entry of
                  Inl f \<Rightarrow> (s, Inl f)
                | Inr k \<Rightarrow>
                    (let (db', r) = db_update B (st_db s) (\<lambda>txn.
                         case txn_set B txn k (value_with_block blockNumber v) of
                           Inl e \<Rightarrow> Inl (Wrap ''failed to set value in Badger'' e)
                         | Inr txn' \<Rightarrow> Inr txn')
                     in (s\<lparr>st_db := db'\<rparr>, wrap_res ''failed to update Badger'' (of_err r))))))"

text \<open>The loop of \<open>SetAll\<close> over the entries, with the database and the write batch.\<close>

fun badger_fill :: "('db, 'it, 'txn, 'wb) badger_api \<Rightarrow> bool \<Rightarrow> u64 \<Rightarrow> Entry option list \<Rightarrow> 'db \<Rightarrow> 'wb \<Rightarrow>
    'db \<times> 'wb \<times> unit res" where
  "badger_fill B ifNotExist blockNumber [] db wb = (db, wb, Inr ())"
| "badger_fill B ifNotExist blockNumber (entry # entries) db wb =
     (case (if ifNotExist then bind_res (entry_key_bytes entry) (badger_exists B db) else Inr False) of
        Inl f \<Rightarrow> (db, wb, Inl f)
      | Inr True \<Rightarrow> badger_fill B ifNotExist blockNumber entries db wb
      | Inr False \<Rightarrow>
          (case entry_value_bytes entry of
             Inl f \<Rightarrow> (db, wb, Inl f)
           | Inr v \<Rightarrow>
               (case entry_key_bytes entry of
                  Inl f \<Rightarrow> (db, wb, Inl f)
                | Inr k \<Rightarrow>
                    (case wb_set B db wb k (value_with_block blockNumber v) of
                       (db', Inl e) \<Rightarrow> (db', wb, Inl (Error (Wrap ''failed to add entry to batch'' e)))
                     | (db', Inr wb') \<Rightarrow> badger_fill B ifNotExist blockNumber entries db' wb'))))"

definition badger_SetAll :: "('db, 'it, 'txn, 'wb) badger_api \<Rightarrow> 'db badger_store \<Rightarrow> Entry option list \<Rightarrow>
    bool \<Rightarrow> u64 \<Rightarrow> 'db badger_store \<times> unit res" where
  "badger_SetAll B s entries ifNotExist blockNumber =
     (if entries = [] then (s, Inr ())
      else case badger_fill B ifNotExist blockNumber entries (st_db s) (wb_new B (st_db s)) of
          (db1, wb, Inl f) \<Rightarrow> (s\<lparr>st_db := wb_cancel B db1 wb\<rparr>, Inl f)
        | (db1, wb, Inr _) \<Rightarrow>
            (case wb_flush B db1 wb of
               (db2, Inl e) \<Rightarrow> (s\<lparr>st_db := wb_cancel B db2 wb\<rparr>,
                 Inl (Error (Wrap ''failed to flush batch to Badger'' e)))
             | (db2, Inr _) \<Rightarrow> (s\<lparr>st_db := wb_cancel B db2 wb\<rparr>, Inr ())))"

text \<open>The \<open>db.View\<close> closure of one goroutine of \<open>Get\<close>.\<close>

definition badger_get_one :: "('db, 'it, 'txn, 'wb) badger_api \<Rightarrow> 'db badger_store \<Rightarrow> u64 \<Rightarrow>
    Key option \<Rightarrow> QueriedEntry res" where
  "badger_get_one B s reqBlock key =
     (case key_bytes key of
        Inl f \<Rightarrow> Inl f
      | Inr k \<Rightarrow>
          (case txn_get B (st_db s) k of
             Inl e \<Rightarrow> if e = ErrKeyNotFound then Inr (not_found key) else Inl (Error e)
           | Inr it \<Rightarrow>
               (case item_value B it of
                  Inl e \<Rightarrow> Inl (Error e)
                | Inr storedValue \<Rightarrow>
                    if length storedValue < 8
                    then Inl (Error (Err ''invalid stored value: expected at least 8 bytes for block number''))
                    else let blockNumber = getUint64 (take 8 storedValue);
                             actualValue = drop 8 storedValue
                      in if reqBlock < blockNumber then Inr (not_found key)
                         else Inr (found key (st_typeUrl s) actualValue))))"

definition badger_Get :: "('db, 'it, 'txn, 'wb) badger_api \<Rightarrow> nat list \<Rightarrow> 'db badger_store \<Rightarrow>
    GetRequest \<Rightarrow> GetResponse res" where
  "badger_Get B sched s request =
     (let keys = GetRequest_Keys request
      in case fan_out (st_numWorkers s) ''failed to get values from Badger'' sched (length keys)
           (\<lambda>i. badger_get_one B s (GetRequest_BlockNumber request) (keys ! i)) of
           Inl f \<Rightarrow> Inl f
         | Inr entries \<Rightarrow> Inr (response entries))"

definition badger_GetFirst :: "('db, 'it, 'txn, 'wb) badger_api \<Rightarrow> nat list \<Rightarrow> 'db badger_store \<Rightarrow>
    GetRequest \<Rightarrow> GetResponse res" where
  "badger_GetFirst B sched s request = badger_Get B sched s request"

section \<open>The readiness flag\<close>

definition badger_SetReady :: "('db, 'it, 'txn, 'wb) badger_api \<Rightarrow> 'db badger_store \<Rightarrow> bool \<Rightarrow>
    'db badger_store \<times> unit res" where
  "badger_SetReady B s ready =
     (let value = [if ready then 1 else 0 :: byte]
      in case db_update B (st_db s) (\<lambda>txn. txn_set B txn readyKey value) of
           (db', Inl e) \<Rightarrow> (s\<lparr>st_db := db'\<rparr>, Inl (Error (Wrap ''failed to persist readiness flag'' e)))
         | (db', Inr _) \<Rightarrow> (s\<lparr>st_db := db', st_ready := ready\<rparr>, Inr ()))"

definition badger_IsReady :: "'db badger_store \<Rightarrow> bool res" where
  "badger_IsReady s = Inr (st_ready s)"

definition readReadyFromDB :: "('db, 'it, 'txn, 'wb) badger_api \<Rightarrow> 'db \<Rightarrow> bool res" where
  "readReadyFromDB B db =
     (case txn_get B db readyKey of
        Inl e \<Rightarrow> if errors_is e ErrKeyNotFound then Inr False
          else Inl (Error (Wrap ''failed to read readiness flag'' e))
      | Inr it \<Rightarrow>
          (case item_value B it of
             Inl e \<Rightarrow> Inl (Error (Wrap ''failed to read readiness flag'' e))
           | Inr val \<Rightarrow> Inr (case val of [] \<Rightarrow> False | b # _ \<Rightarrow> b = 1)))"

text \<open>
  Opening the store: \<open>mkdir\<close> is \<open>os.MkdirAll\<close>, \<open>open_db\<close> is \<open>badger.Open\<close> with the options
  of the code; \<open>path\<close> is the database field of the DSN.
\<close>

definition badger_NewStore :: "('db, 'it, 'txn, 'wb) badger_api \<Rightarrow> (string \<Rightarrow> error + unit) \<Rightarrow>
    (string \<Rightarrow> error + 'db) \<Rightarrow> string \<Rightarrow> string \<Rightarrow> int \<Rightarrow> 'db badger_store res" where
  "badger_NewStore B mkdir open_db path typeUrl numWorkers =
     (case mkdir path of
        Inl e \<Rightarrow> Inl (Error (Wrap ''failed to create directory for Badger DB'' e))
      | Inr _ \<Rightarrow>
          (case open_db path of
             Inl e \<Rightarrow> Inl (Error (Wrap ''failed to open Badger DB'' e))
           | Inr db \<Rightarrow>
               (case readReadyFromDB B db of
                  Inl (Error e) \<Rightarrow> Inl (Error (Wrap ''failed to load readiness flag'' e))
                | Inl f \<Rightarrow> Inl f
                | Inr ready \<Rightarrow> Inr \<lparr>st_db = db, st_typeUrl = typeUrl, st_numWorkers = numWorkers,
                                    st_ready = ready\<rparr>)))"

text \<open>The store as an implementation of \<open>store.Store\<close>; \<open>sched n\<close> orders a read of \<open>n\<close> keys.\<close>

definition badger_ops :: "('db, 'it, 'txn, 'wb) badger_api \<Rightarrow> (nat \<Rightarrow> nat list) \<Rightarrow>
    'db badger_store store_ops" where
  "badger_ops B sched =
     \<lparr>op_SetAll = badger_SetAll B,
      op_Get = (\<lambda>s req. badger_Get B (sched (length (GetRequest_Keys req))) s req),
      op_GetFirst = (\<lambda>s req. badger_GetFirst B (sched (length (GetRequest_Keys req))) s req)\<rparr>"

section \<open>What the store holds\<close>

definition latest_version :: "bytes \<Rightarrow> versions" where
  "latest_version sv = [getUint64 (take 8 sv) \<mapsto> drop 8 sv]"

definition badger_vers :: "('db \<Rightarrow> bytes \<Rightarrow> bytes option) \<Rightarrow> 'db badger_store \<Rightarrow> bytes \<Rightarrow> versions" where
  "badger_vers kv s k = (case kv (st_db s) k of None \<Rightarrow> (\<lambda>_. None) | Some sv \<Rightarrow> latest_version sv)"

definition app_key :: "bytes \<Rightarrow> bool" where
  "app_key k \<longleftrightarrow> k \<noteq> readyKey"

text \<open>Every value but the readiness flag begins with a block number; there is a worker.\<close>

definition badger_ok :: "('db \<Rightarrow> bytes \<Rightarrow> bytes option) \<Rightarrow> 'db badger_store \<Rightarrow> bool" where
  "badger_ok kv s \<longleftrightarrow> (\<forall>k v. app_key k \<longrightarrow> kv (st_db s) k = Some v \<longrightarrow> 8 \<le> length v)"

definition put_latest :: "versions \<Rightarrow> u64 \<Rightarrow> bytes \<Rightarrow> versions" where
  "put_latest m b v = [b \<mapsto> v]"

lemma latest_version_value_with_block [simp]: "latest_version (value_with_block b v) = [b \<mapsto> v]"
  by (simp add: latest_version_def value_with_block_def)

lemma latest_version_not_empty [simp]: "latest_version sv \<noteq> (\<lambda>_. None)"
  by (auto simp: latest_version_def fun_eq_iff)

definition badger_fresh :: "(bytes \<Rightarrow> bytes option) \<Rightarrow> bytes \<Rightarrow> bool" where
  "badger_fresh m k \<longleftrightarrow> m k = None"

lemma badger_vers_empty_iff:
  "badger_vers kv s k = (\<lambda>_. None) \<longleftrightarrow> badger_fresh (kv (st_db s)) k"
  by (auto simp: badger_vers_def badger_fresh_def split: option.splits)

section \<open>SetAll against the batch\<close>

definition badger_enc :: "u64 \<Rightarrow> bytes \<Rightarrow> bytes \<Rightarrow> bytes \<times> bytes" where
  "badger_enc b k v = (k, value_with_block b v)"

lemma badger_fill_batch:
  "badger_fill B ine b es db wb = batch_fill B (badger_exists B) (badger_enc b) ine es db wb"
proof (induction es arbitrary: db wb)
  case (Cons e es)
  obtain g where g: "(if ine then bind_res (entry_key_bytes e) (badger_exists B db) else Inr False) = g"
    by blast
  consider (fail) f where "g = Inl f" | (skip) "g = Inr True" | (put) "g = Inr False"
    by (metis (full_types) obj_sumE)
  then show ?case
  proof cases
    case put
    then show ?thesis
      unfolding badger_fill.simps batch_fill.simps Cons.IH g
      by (cases "entry_value_bytes e"; cases "entry_key_bytes e") (simp_all add: badger_enc_def)
  qed (simp_all only: badger_fill.simps batch_fill.simps Cons.IH g sum.case bool.case)
qed simp

lemma badger_SetAll_batch:
  "badger_SetAll B s es ine b =
     (case batch_set B (badger_exists B) (badger_enc b) ine es (st_db s) of (db', r) \<Rightarrow> (s\<lparr>st_db := db'\<rparr>, r))"
  by (simp add: badger_SetAll_def batch_set_def batch_write_def badger_fill_batch split: prod.split sum.split)

context badger_kv
begin

lemma badger_existence_check: "existence_check kv (badger_exists B) badger_fresh"
  unfolding existence_check_def
proof (intro conjI allI impI)
  fix db k
  show "badger_exists B db k = Inr False \<Longrightarrow> badger_fresh (kv db) k"
    by (auto simp: badger_exists_def badger_fresh_def split: sum.splits if_splits intro: get_none)
  show "badger_exists B db k = Inr True \<Longrightarrow> \<not> badger_fresh (kv db) k"
    by (auto simp: badger_exists_def badger_fresh_def split: sum.splits if_splits dest: get_item)
next
  fix m :: "bytes \<Rightarrow> bytes option" and ps k
  show "badger_fresh (apply_sets ps m) k \<Longrightarrow> badger_fresh m k"
    by (auto simp: badger_fresh_def apply_sets_eq split: option.splits)
qed

lemma SetAll_any:
  assumes "\<forall>e\<in>set es. entry_ok e" and "badger_SetAll B s es ine b = (s', r)"
  shows "\<exists>es'. written badger_fresh ine es (kv (st_db s)) es' \<and>
      kv (st_db s') = apply_sets (map (raw (badger_enc b)) es') (kv (st_db s)) \<and>
      st_typeUrl s' = st_typeUrl s \<and> st_numWorkers s' = st_numWorkers s \<and> st_ready s' = st_ready s"
  using assms(2) batch_set_any [OF badger_existence_check assms(1)]
  by (auto simp: badger_SetAll_batch split: prod.splits)

lemma SetAll_ok:
  assumes "\<forall>e\<in>set es. entry_ok e" and "badger_SetAll B s es ine b = (s', Inr ())"
  shows "\<exists>es'. written badger_fresh ine es (kv (st_db s)) es' \<and>
      kv (st_db s') = apply_sets (map (raw (badger_enc b)) es') (kv (st_db s)) \<and>
      (\<not> ine \<longrightarrow> es' = es) \<and>
      (\<forall>e\<in>set es. e \<in> set es' \<or> \<not> badger_fresh (kv (st_db s')) (fst (entry_kv e)))"
  using assms(2) batch_set_ok [OF badger_existence_check assms(1)]
  by (auto simp: badger_SetAll_batch split: prod.splits)

end

text \<open>The versions after writing a list of entries.\<close>

lemma raw_badger_enc: "raw (badger_enc b) e = (fst (entry_kv e), value_with_block b (snd (entry_kv e)))"
  by (simp add: raw_def badger_enc_def)

lemma map_of_raw_badger:
  "map_of (map (raw (badger_enc b)) es) k = map_option (value_with_block b) (map_of (map entry_kv es) k)"
  by (induction es) (auto simp: raw_badger_enc split: prod.split)

lemma apply_raw_badger:
  "apply_sets (map (raw (badger_enc b)) es) m k =
     (case last_write es k of None \<Rightarrow> m k | Some v \<Rightarrow> Some (value_with_block b v))"
  by (simp add: apply_sets_eq last_write_def rev_map map_of_raw_badger split: option.split)

section \<open>The store fulfils the contract of a backend\<close>

lemma badger_ok_after:
  assumes "badger_ok kv s" and "kv (st_db s') = apply_sets (map (raw (badger_enc b)) es) (kv (st_db s))"
  shows "badger_ok kv s'"
  using assms
  by (auto simp: badger_ok_def apply_raw_badger value_with_block_def split: option.splits)

lemma badger_vers_after:
  assumes "kv (st_db s') = apply_sets (map (raw (badger_enc b)) es) (kv (st_db s))"
  shows "badger_vers kv s' k =
     (case last_write es k of None \<Rightarrow> badger_vers kv s k | Some v \<Rightarrow> [b \<mapsto> v])"
  by (simp add: badger_vers_def assms apply_raw_badger split: option.split)

locale badger_latest = badger_kv +
  fixes sched :: "nat \<Rightarrow> nat list"
  assumes sched: "schedule n (sched n)"
begin

lemma get_one_answers:
  assumes "badger_ok kv s" and "app_key (Key_Bytes k)" and "badger_get_one B s c (Some k) = Inr q"
  shows "q = answer (st_typeUrl s) (badger_vers kv s) c k"
proof (cases "txn_get B (st_db s) (Key_Bytes k)")
  case (Inl e)
  then have "e = ErrKeyNotFound" "q = not_found (Some k)"
    using assms(3) by (auto simp: badger_get_one_def split: if_splits)
  moreover have "kv (st_db s) (Key_Bytes k) = None"
    using get_none [OF Inl] \<open>e = ErrKeyNotFound\<close> by simp
  ultimately show ?thesis by (simp add: answer_def badger_vers_def)
next
  case (Inr it)
  then obtain sv where sv: "item_value B it = Inr sv"
    using assms(3) by (auto simp: badger_get_one_def split: sum.splits)
  then have kv: "kv (st_db s) (Key_Bytes k) = Some sv" using get_value [OF Inr] by simp
  then have "\<not> length sv < 8" using assms(1,2) by (fastforce simp: badger_ok_def)
  then have "q = (if c < getUint64 (take 8 sv) then not_found (Some k)
      else found (Some k) (st_typeUrl s) (drop 8 sv))"
    using assms(3) Inr sv by (auto simp: badger_get_one_def Let_def split: if_splits)
  then show ?thesis
    by (auto simp: answer_def badger_vers_def kv latest_version_def)
qed

lemma Get_answers:
  assumes "badger_ok kv s" and "GetRequest_Keys req = map Some ks"
    and "\<forall>k\<in>set ks. app_key (Key_Bytes k)" and "schedule (length ks) sch"
    and "badger_Get B sch s req = Inr r"
  shows "r = read_response (st_typeUrl s) (badger_vers kv s) (GetRequest_BlockNumber req) ks"
proof -
  let ?job = "badger_get_one B s (GetRequest_BlockNumber req)"
  obtain es where es: "fan_out (st_numWorkers s) ''failed to get values from Badger'' sch
      (length ks) (\<lambda>i. ?job (map Some ks ! i)) = Inr es"
    and r: "r = response es"
    using assms(5) by (auto simp: badger_Get_def assms(2) split: sum.splits)
  have "es = map (\<lambda>k. Some (answer (st_typeUrl s) (badger_vers kv s) (GetRequest_BlockNumber req) k)) ks"
    by (rule fan_out_answers [OF es assms(4)]) (use get_one_answers [OF assms(1)] assms(3) in blast)
  then show ?thesis by (simp add: r read_response_def)
qed

end

sublocale badger_latest \<subseteq> latest: batch_store B kv txw pend "badger_ops B sched" st_db "\<lambda>s db. s\<lparr>st_db := db\<rparr>"
  "badger_exists B" badger_enc badger_fresh "badger_vers kv" st_typeUrl "badger_ok kv" app_key put_latest
proof
  fix w req ks r
  assume "badger_ok kv w" "GetRequest_Keys req = map Some ks" "\<forall>k\<in>set ks. app_key (Key_Bytes k)"
    "op_Get (badger_ops B sched) w req = Inr r"
  then show "r = read_response (st_typeUrl w) (badger_vers kv w) (GetRequest_BlockNumber req) ks"
    using Get_answers [of w req ks "sched (length ks)" r] sched by (simp add: badger_ops_def)
next
  fix w w' :: "'a badger_store" and es b k
  assume "kv (st_db w') = apply_sets (map (raw (badger_enc b)) es) (kv (st_db w))"
  then show "badger_vers kv w' k =
      (case last_write es k of None \<Rightarrow> badger_vers kv w k | Some v \<Rightarrow> put_latest (badger_vers kv w k) b v)"
    by (simp add: badger_vers_after put_latest_def split: option.split)
qed (auto simp: badger_ops_def badger_SetAll_batch badger_existence_check badger_vers_empty_iff put_latest_def
    intro: badger_ok_after split: prod.split)

context badger_latest
begin

lemma contract: "kv_store (badger_ops B sched) (badger_vers kv) st_typeUrl (badger_ok kv) app_key put_latest"
  by (rule latest.batch.kv_store_axioms)

end

text \<open>On a database that does not fail, every call on admissible keys returns.\<close>

locale badger_latest_reliable = badger_latest + badger_reliable
begin

lemma exists_returns: "key_ok k \<Longrightarrow> \<exists>x. badger_exists B db k = Inr x"
  using get_total [of k db] by (auto simp: badger_exists_def split: sum.split)

lemma get_one_returns:
  assumes "badger_ok kv s" and "app_key (Key_Bytes k)" and "key_ok (Key_Bytes k)"
  shows "\<exists>q. badger_get_one B s c (Some k) = Inr q"
proof (cases "txn_get B (st_db s) (Key_Bytes k)")
  case (Inl e)
  then show ?thesis using get_total [OF assms(3) Inl] by (simp add: badger_get_one_def)
next
  case (Inr it)
  obtain sv where sv: "item_value B it = Inr sv" using value_total by blast
  then have "kv (st_db s) (Key_Bytes k) = Some sv" using get_value [OF Inr] by simp
  then have "\<not> length sv < 8" using assms(1,2) by (fastforce simp: badger_ok_def)
  then show ?thesis by (simp add: badger_get_one_def Inr sv Let_def)
qed

lemma Get_returns:
  assumes "badger_ok kv s" and "0 < st_numWorkers s" and "GetRequest_Keys req = map Some ks"
    and "\<forall>k\<in>set ks. app_key (Key_Bytes k) \<and> key_ok (Key_Bytes k)" and "schedule (length ks) sch"
  shows "\<exists>r. badger_Get B sch s req = Inr r"
proof -
  let ?job = "\<lambda>i. badger_get_one B s (GetRequest_BlockNumber req) (map Some ks ! i)"
  have "?job i = Inr (projr (?job i))" if "i < length ks" for i
  proof -
    have "app_key (Key_Bytes (ks ! i))" "key_ok (Key_Bytes (ks ! i))" using assms(4) that by auto
    from get_one_returns [OF assms(1) this, of "GetRequest_BlockNumber req"]
    show ?thesis using that by auto
  qed
  from fan_out_ok [OF assms(2,5) this] show ?thesis
    by (simp add: badger_Get_def assms(3))
qed

lemma SetAll_returns:
  assumes "\<forall>e\<in>set es. entry_ok e \<and> key_ok (fst (entry_kv e))"
  shows "snd (badger_SetAll B s es ine b) = Inr ()"
proof -
  have "snd (batch_set B (badger_exists B) (badger_enc b) ine es (st_db s)) = Inr ()"
    using assms exists_returns by (intro batch_set_returns) (auto simp: raw_badger_enc)
  then show ?thesis by (auto simp: badger_SetAll_batch split: prod.split)
qed

end

lemma badger_SetAll_numWorkers:
  "badger_SetAll B s es ine b = (s', x) \<Longrightarrow> st_numWorkers s' = st_numWorkers s"
  by (auto simp: badger_SetAll_batch split: if_splits prod.splits)

sublocale badger_latest_reliable \<subseteq> total: reliable_kv_store "badger_ops B sched" "badger_vers kv"
  st_typeUrl "\<lambda>s. badger_ok kv s \<and> 0 < st_numWorkers s" "\<lambda>k. app_key k \<and> key_ok k" put_latest
proof (intro reliable_kv_store.intro reliable_kv_store_axioms.intro)
  show "kv_store (badger_ops B sched) (badger_vers kv) st_typeUrl
      (\<lambda>s. badger_ok kv s \<and> 0 < st_numWorkers s) (\<lambda>k. app_key k \<and> key_ok k) put_latest"
    by (rule latest.batch.restricted) (auto simp: badger_ops_def dest: badger_SetAll_numWorkers)
next
  fix w ks and req :: GetRequest
  assume "badger_ok kv w \<and> 0 < st_numWorkers w" and "GetRequest_Keys req = map Some ks"
    and "\<forall>k\<in>set ks. app_key (Key_Bytes k) \<and> key_ok (Key_Bytes k)"
  then show "\<exists>r. op_Get (badger_ops B sched) w req = Inr r"
    using Get_returns [of w req ks "sched (length ks)"] sched by (simp add: badger_ops_def)
next
  fix w es ine b
  assume "entries_for (\<lambda>k. app_key k \<and> key_ok k) es"
  then show "snd (op_SetAll (badger_ops B sched) w es ine b) = Inr ()"
    by (simp add: badger_ops_def entries_for_def SetAll_returns)
qed

interpretation mem_latest: badger_latest_reliable mem_badger map_of "\<lambda>t. t" "\<lambda>wb. wb"
    "\<lambda>n. [0..<n]" "\<lambda>k. k \<noteq> []"
  by unfold_locales simp

section \<open>Readiness across restarts\<close>

text \<open>What a database says about readiness.\<close>

definition ready_flag :: "(bytes \<Rightarrow> bytes option) \<Rightarrow> bool" where
  "ready_flag m = (case m readyKey of Some (b # _) \<Rightarrow> b = 1 | _ \<Rightarrow> False)"

context badger_kv
begin

lemma readReady_flag: "readReadyFromDB B db = Inr x \<Longrightarrow> x = ready_flag (kv db)"
  by (auto simp: readReadyFromDB_def ready_flag_def dest: get_none get_value
      split: sum.splits if_splits list.splits)

lemma NewStore_flag:
  "badger_NewStore B mkdir open_db path t n = Inr s \<Longrightarrow>
    \<exists>db. open_db path = Inr db \<and> st_db s = db \<and> st_typeUrl s = t \<and> st_numWorkers s = n \<and>
      st_ready s = ready_flag (kv db)"
  by (auto simp: badger_NewStore_def dest: readReady_flag split: sum.splits fail.splits)

lemma SetReady_ok:
  assumes "badger_SetReady B s r = (s', Inr ())"
  shows "kv (st_db s') = (kv (st_db s))(readyKey \<mapsto> [if r then 1 else 0])" and "st_ready s' = r"
    and "ready_flag (kv (st_db s')) = r"
proof -
  have u: "db_update B (st_db s) (\<lambda>txn. txn_set B txn readyKey [if r then 1 else 0]) = (st_db s', Inr ())"
    and r: "st_ready s' = r"
    using assms by (auto simp: badger_SetReady_def Let_def split: prod.splits sum.splits)
  show k: "kv (st_db s') = (kv (st_db s))(readyKey \<mapsto> [if r then 1 else 0])"
    by (rule update_set_ok [OF u])
  show "st_ready s' = r" by (rule r)
  show "ready_flag (kv (st_db s')) = r" unfolding k by (simp add: ready_flag_def)
qed

lemma SetReady_fail:
  "badger_SetReady B s r = (s', Inl f) \<Longrightarrow> kv (st_db s') = kv (st_db s) \<and> st_ready s' = st_ready s"
  by (auto simp: badger_SetReady_def Let_def dest: update_fail split: prod.splits sum.splits)

lemma SetAll_flag:
  assumes "entries_for app_key es" and "badger_SetAll B s es ine b = (s', x)"
  shows "ready_flag (kv (st_db s')) = ready_flag (kv (st_db s))" and "st_ready s' = st_ready s"
proof -
  obtain es' where w: "written badger_fresh ine es (kv (st_db s)) es'"
    and k: "kv (st_db s') = apply_sets (map (raw (badger_enc b)) es') (kv (st_db s))"
    and r: "st_ready s' = st_ready s"
    using SetAll_any [of es s ine b s' x] assms by (auto simp: entries_for_def)
  have "last_write es' readyKey = None"
    using w assms(1)
    by (fastforce simp: last_write_None_iff entry_keys_def written_def entries_for_def app_key_def)
  then have "kv (st_db s') readyKey = kv (st_db s) readyKey" by (simp add: k apply_raw_badger)
  then show "ready_flag (kv (st_db s')) = ready_flag (kv (st_db s))" by (simp add: ready_flag_def)
  show "st_ready s' = st_ready s" by (rule r)
qed

end

text \<open>
  The life of a remote-feed store: opened on a database without a flag, written to by the
  feed, marked ready or not ready, and restarted at any moment.  The boolean is the
  argument of the last \<open>SetReady\<close> that returned without an error.  \<open>reopen\<close> is
  \<open>badger.Open\<close> on the files of a database.
\<close>

inductive feed_run :: "('db, 'it, 'txn, 'wb) badger_api \<Rightarrow> ('db \<Rightarrow> error + 'db) \<Rightarrow>
    ('db \<Rightarrow> bytes \<Rightarrow> bytes option) \<Rightarrow> 'db badger_store \<Rightarrow> bool \<Rightarrow> bool"
  for B reopen kv where
  feed_open: "badger_NewStore B mkdir open_db path t n = Inr s \<Longrightarrow> kv (st_db s) readyKey = None \<Longrightarrow>
    feed_run B reopen kv s False"
| feed_ready: "feed_run B reopen kv s r \<Longrightarrow> badger_SetReady B s r' = (s', Inr ()) \<Longrightarrow>
    feed_run B reopen kv s' r'"
| feed_ready_fails: "feed_run B reopen kv s r \<Longrightarrow> badger_SetReady B s r' = (s', Inl f) \<Longrightarrow>
    feed_run B reopen kv s' r"
| feed_set: "feed_run B reopen kv s r \<Longrightarrow> entries_for app_key es \<Longrightarrow>
    badger_SetAll B s es ine b = (s', x) \<Longrightarrow> feed_run B reopen kv s' r"
| feed_restart: "feed_run B reopen kv s r \<Longrightarrow>
    badger_NewStore B mkdir (\<lambda>_. reopen (st_db s)) path t n = Inr s' \<Longrightarrow>
    feed_run B reopen kv s' r"

context badger_kv
begin

lemma feed_run_flag:
  assumes "feed_run B reopen kv s r" and durable: "\<And>db db'. reopen db = Inr db' \<Longrightarrow> kv db' = kv db"
  shows "st_ready s = r \<and> ready_flag (kv (st_db s)) = r"
  using assms(1)
proof (induction rule: feed_run.induct)
  case (feed_open mkdir open_db path t n s)
  then show ?case using NewStore_flag by (fastforce simp: ready_flag_def)
next
  case (feed_ready s r r' s')
  then show ?case using SetReady_ok by blast
next
  case (feed_ready_fails s r r' s' f)
  then show ?case using SetReady_fail by metis
next
  case (feed_set s r es ine b s' x)
  then show ?case using SetAll_flag by metis
next
  case (feed_restart s r mkdir path t n s')
  then show ?case using NewStore_flag [OF feed_restart.hyps(2)] durable by fastforce
qed

end

end
