(* ===== verification/Grpc_Reads.thy ===== *)
theory Grpc_Reads
  imports Grpc_Server Fork_Aware Badger_Store
begin

text \<open>
  What the servers rely on: a store that answers a read key by key.  The locale
  \<open>read_store\<close> states it for an operation \<open>get\<close>; every reliable backend and the
  fork-aware store over one fulfil it.  Inside the locale the answers of the v2 and v1
  services are computed.
\<close>

section \<open>The interface\<close>

text \<open>An answer: its key, and FOUND with a value, or NOT_FOUND without one.\<close>

definition answer_ok :: "Key \<Rightarrow> QueriedEntry \<Rightarrow> bool" where
  "answer_ok k q \<longleftrightarrow>
     QueriedEntry_Entry q \<noteq> None \<and>
     Key_GetBytes (Entry_GetKey (QueriedEntry_Entry q)) = Key_Bytes k \<and>
     (QueriedEntry_Code q = RESPONSE_CODE_FOUND \<or>
      QueriedEntry_Code q = RESPONSE_CODE_NOT_FOUND \<and> Entry_GetValue (QueriedEntry_Entry q) = None)"

lemma answer_ok_answer: "answer_ok k (answer t V c k)"
  by (simp add: answer_ok_def answer_def found_def not_found_def split: option.split)

lemma answer_ok_cached: "entry_ok e \<Longrightarrow> fst (entry_kv e) = Key_Bytes k \<Longrightarrow>
  answer_ok k \<lparr>QueriedEntry_Code = RESPONSE_CODE_FOUND, QueriedEntry_Entry = e\<rparr>"
  by (cases e) (auto simp: answer_ok_def entry_kv_def)

locale read_store =
  fixes get :: "'w \<Rightarrow> GetRequest \<Rightarrow> GetResponse res"
    and ok :: "'w \<Rightarrow> bool"
    and user_key :: "bytes \<Rightarrow> bool"
    and ans :: "'w \<Rightarrow> u64 \<Rightarrow> Key \<Rightarrow> QueriedEntry"
  assumes get_by_key: "ok w \<Longrightarrow> GetRequest_Keys req = map Some ks \<Longrightarrow>
      \<forall>k\<in>set ks. user_key (Key_Bytes k) \<Longrightarrow>
      get w req = Inr (response (map (\<lambda>k. Some (ans w (GetRequest_BlockNumber req) k)) ks))"
    and ans_ok: "ok w \<Longrightarrow> user_key (Key_Bytes k) \<Longrightarrow> answer_ok k (ans w c k)"

section \<open>The providers\<close>

sublocale reliable_kv_store \<subseteq> reads: read_store "op_Get W" ok user_key
  "\<lambda>w. answer (turl w) (vers w)"
  by unfold_locales (use get_eq in \<open>auto simp: read_response_def answer_ok_answer\<close>)

definition fork_answer :: "('w \<Rightarrow> string) \<Rightarrow> ('w \<Rightarrow> bytes \<Rightarrow> versions) \<Rightarrow> 'w fork_store \<Rightarrow> u64 \<Rightarrow> Key \<Rightarrow> QueriedEntry" where
  "fork_answer t V s c k =
     the (overlaid (fs_cache s) c k (Some (answer (t (fs_wrapped s)) (V (fs_wrapped s)) c k)))"

lemma fork_answer_Some:
  "overlaid (fs_cache s) c k (Some (answer (t (fs_wrapped s)) (V (fs_wrapped s)) c k)) = Some (fork_answer t V s c k)"
  by (auto simp: fork_answer_def overlaid_def split: option.split)

lemma answer_value_fork_answer:
  "fork_inv U s \<Longrightarrow> answer_value (Some (fork_answer t V s c k)) = fork_view V s (Key_Bytes k) c"
  unfolding fork_answer_Some [symmetric] by (rule answer_value_overlaid)

sublocale reliable_kv_store \<subseteq> fork_reads: read_store "fork_Get W"
  "\<lambda>s. fork_inv user_key s \<and> ok (fs_wrapped s)" user_key "fork_answer turl vers"
proof
  fix w ks and req :: GetRequest
  assume w: "fork_inv user_key w \<and> ok (fs_wrapped w)" and ks: "GetRequest_Keys req = map Some ks"
    and U: "\<forall>k\<in>set ks. user_key (Key_Bytes k)"
  from fork_Get_overlay [OF get_eq [OF _ ks U, of "fs_wrapped w", unfolded read_response_def] ks] w
  show "fork_Get W w req = Inr (response (map (\<lambda>k. Some (fork_answer turl vers w (GetRequest_BlockNumber req) k)) ks))"
    by (simp add: fork_answer_Some)
next
  fix w k c
  assume w: "fork_inv user_key w \<and> ok (fs_wrapped w)"
  show "answer_ok k (fork_answer turl vers w c k)"
    using fork_invD [of user_key w] w
    by (auto simp: fork_answer_def overlaid_def answer_ok_answer intro: answer_ok_cached split: option.split)
qed

interpretation mem_reads: read_store "op_Get (badger_ops mem_badger (\<lambda>n. [0..<n]))"
  "\<lambda>s. badger_ok map_of s \<and> 0 < st_numWorkers s" "\<lambda>k. app_key k \<and> k \<noteq> []"
  "\<lambda>w. answer (st_typeUrl w) (badger_vers map_of w)"
  by (rule mem_latest.total.reads.read_store_axioms)

section \<open>The answers of the services\<close>

lemma found_keys_response: "\<exists>n. found_keys (map (\<lambda>k. Some (f k)) ks) = Inr n"
  by (induction ks) auto

lemma reached_response [simp]: "response qs\<lparr>GetResponse_BlockReached := True\<rparr> = response qs"
  by (simp add: response_def)

text \<open>The v2 request that a v1 request for several keys stands for.\<close>

definition v2_request :: "u64 \<Rightarrow> bytes \<Rightarrow> bytes list \<Rightarrow> GetRequest" where
  "v2_request n h ks = \<lparr>GetRequest_BlockNumber = n, GetRequest_BlockHash = h,
     GetRequest_Keys = map (\<lambda>k. Some \<lparr>Key_Bytes = k\<rparr>) ks\<rparr>"

lemma v2_request_simps [simp]:
  "GetRequest_BlockNumber (v2_request n h ks) = n"
  "GetRequest_Keys (v2_request n h ks) = map Some (map (\<lambda>k. \<lparr>Key_Bytes = k\<rparr>) ks)"
  by (simp_all add: v2_request_def)

context read_store
begin

lemma grpc_Get_answers:
  assumes "ok w" and "op_Get (gs_store S) = get" and "grpc_checkReady S w = Inr True"
    and "GetRequest_Keys req = map Some ks" and "\<forall>k\<in>set ks. user_key (Key_Bytes k)"
  shows "grpc_Get S w req = Inr
    (if gs_headBlockFetcher S w < GetRequest_BlockNumber req then not_reached
     else response (map (\<lambda>k. Some (ans w (GetRequest_BlockNumber req) k)) ks))"
proof -
  obtain n where "found_keys (map (\<lambda>k. Some (ans w (GetRequest_BlockNumber req) k)) ks) = Inr n"
    using found_keys_response by blast
  then show ?thesis
    using get_by_key [OF assms(1,4,5)] by (simp add: grpc_Get_def assms(2,3))
qed

lemma get_v2_request:
  assumes "ok w" and "\<forall>k\<in>set ks. user_key k"
  shows "get w (v2_request n h ks) = Inr (response (map (\<lambda>k. Some (ans w n \<lparr>Key_Bytes = k\<rparr>)) ks))"
  using get_by_key [OF assms(1) v2_request_simps(2)] assms(2) by (simp add: comp_def)

lemma legacy_GetAll_answers:
  assumes "ok w" and "op_Get (ls_store L) = get" and "\<forall>k\<in>set (V1GetAllRequest_Keys req). user_key k"
    and "V1GetAllRequest_BlockNumber req \<le> ls_headBlockFetcher L w"
  shows "legacy_GetAll L w req = Inr \<lparr>V1GetAllResponse_Entries =
      map (\<lambda>k. Some (legacy_getall_entry (V1GetAllRequest_OmitDeleted req)
        (Some (ans w (V1GetAllRequest_BlockNumber req) \<lparr>Key_Bytes = k\<rparr>)))) (V1GetAllRequest_Keys req),
      V1GetAllResponse_BlockReached = True\<rparr>"
  using get_v2_request [OF assms(1,3), of "V1GetAllRequest_BlockNumber req" "V1GetAllRequest_BlockHash req"] assms(2,4)
  by (simp add: legacy_GetAll_def v2_request_def comp_def)

lemma legacy_Get_answers:
  assumes "ok w" and "op_Get (ls_store L) = get" and "user_key (V1GetRequest_Key req)"
    and "V1GetRequest_BlockNumber req \<le> ls_headBlockFetcher L w"
  shows "legacy_Get L w req = Inr (legacy_get_entry (V1GetRequest_OmitDeleted req)
      (Some (ans w (V1GetRequest_BlockNumber req) \<lparr>Key_Bytes = V1GetRequest_Key req\<rparr>)))"
  using get_v2_request [OF assms(1), of "[V1GetRequest_Key req]" "V1GetRequest_BlockNumber req" "V1GetRequest_BlockHash req"] assms(2-4)
  by (simp add: legacy_Get_def v2_request_def)

text \<open>The two v1 methods adapt an answer in the same way.\<close>

lemma legacy_entries_agree:
  assumes "ok w" and "user_key k"
  shows "legacy_getall_entry om (Some (ans w n \<lparr>Key_Bytes = k\<rparr>)) = \<lparr>V1ResponseEntry_Key = k,
      V1ResponseEntry_Response = Some (legacy_get_entry om (Some (ans w n \<lparr>Key_Bytes = k\<rparr>)))\<rparr>"
  using ans_ok [OF assms(1), of "\<lparr>Key_Bytes = k\<rparr>" n] assms(2)
  by (auto simp: legacy_getall_entry_def legacy_get_entry_def answer_ok_def Let_def)

end

end
