(* ===== verification/Fork_Refinement.thy ===== *)
theory Fork_Refinement
  imports Fork_Aware
begin

text \<open>
  What the fork-aware store promises: it behaves like a store of versions of a chain of
  blocks in which the blocks above the last final one can be taken back.  The operations
  of the code are shown to simulate those of this specification, for every wrapped store
  that fulfils the contract \<open>kv_store\<close>.  The cache has one entry per key, so that a key
  written by several blocks that are not final keeps its last version only: the
  specification records from which block on the reads of a key are exact, and
  \<open>spec_allows\<close> excludes the undo that would need a version that is lost.
\<close>

section \<open>Operations as data\<close>

datatype fork_op =
    SetAllOp "Entry option list" bool u64
  | FlushOp u64 bool
  | EvictOp u64

fun fork_step :: "('w, 'x) store_ops_scheme \<Rightarrow>
    ((bytes \<times> cachedEntry) list \<Rightarrow> (bytes \<times> cachedEntry) list) \<Rightarrow> fork_op \<Rightarrow> 'w fork_store \<Rightarrow>
    'w fork_store \<times> unit res" where
  "fork_step W ord (SetAllOp es ine b) s = fork_SetAll W s es ine b"
| "fork_step W ord (FlushOp n ine) s = fork_FlushUpToBlock W ord s n ine"
| "fork_step W ord (EvictOp n) s = fork_EvictUpToBlock s n"

text \<open>A run of operations, up to the first that fails.\<close>

fun fork_run :: "('w, 'x) store_ops_scheme \<Rightarrow>
    ((bytes \<times> cachedEntry) list \<Rightarrow> (bytes \<times> cachedEntry) list) \<Rightarrow> fork_op list \<Rightarrow> 'w fork_store \<Rightarrow>
    'w fork_store \<times> unit res" where
  "fork_run W ord [] s = (s, Inr ())"
| "fork_run W ord (op # ops) s =
     (case fork_step W ord op s of
        (s', Inl f) \<Rightarrow> (s', Inl f)
      | (s', Inr _) \<Rightarrow> fork_run W ord ops s')"

section \<open>The specification\<close>

record chain_spec =
  sp_versions :: "bytes \<Rightarrow> versions"
  sp_final :: u64
  sp_exact :: "bytes \<Rightarrow> u64"

text \<open>Whether \<open>SetAll\<close> writes a key, and whether the write hides an earlier version above the final block.\<close>

definition spec_writes :: "chain_spec \<Rightarrow> Entry option list \<Rightarrow> bool \<Rightarrow> u64 \<Rightarrow> bytes \<Rightarrow> bool" where
  "spec_writes A es ine b k \<longleftrightarrow>
     last_write es k \<noteq> None \<and> (ine \<longrightarrow> latest_at (sp_versions A k) b = None)"

definition spec_hides :: "chain_spec \<Rightarrow> u64 \<Rightarrow> bytes \<Rightarrow> bool" where
  "spec_hides A b k \<longleftrightarrow> (\<exists>b'. sp_final A < b' \<and> b' < b \<and> sp_versions A k b' \<noteq> None)"

fun spec_step :: "fork_op \<Rightarrow> chain_spec \<Rightarrow> chain_spec" where
  "spec_step (SetAllOp es ine b) A =
     A\<lparr>sp_versions := (\<lambda>k. if spec_writes A es ine b k then (sp_versions A k)(b := last_write es k)
                           else sp_versions A k),
       sp_exact := (\<lambda>k. if spec_writes A es ine b k \<and> spec_hides A b k then b else sp_exact A k)\<rparr>"
| "spec_step (FlushOp n ine) A = A\<lparr>sp_final := n\<rparr>"
| "spec_step (EvictOp n) A = A\<lparr>sp_versions := (\<lambda>k b. if b < n then sp_versions A k b else None)\<rparr>"

fun spec_run :: "fork_op list \<Rightarrow> chain_spec \<Rightarrow> chain_spec" where
  "spec_run [] A = A"
| "spec_run (op # ops) A = spec_run ops (spec_step op A)"

fun spec_allows :: "(bytes \<Rightarrow> bool) \<Rightarrow> fork_op \<Rightarrow> chain_spec \<Rightarrow> bool" where
  "spec_allows U (SetAllOp es ine b) A \<longleftrightarrow> entries_for U es \<and> sp_final A < b \<and>
     (\<forall>k\<in>entry_keys es. \<forall>b'. sp_versions A k b' \<noteq> None \<longrightarrow> b' \<le> b)"
| "spec_allows U (FlushOp n ine) A \<longleftrightarrow> sp_final A \<le> n \<and>
     (ine \<longrightarrow> (\<forall>k b b'. U k \<longrightarrow> sp_final A < b \<longrightarrow> b \<le> n \<longrightarrow> sp_versions A k b \<noteq> None \<longrightarrow>
                  b' \<le> sp_final A \<longrightarrow> sp_versions A k b' = None))"
| "spec_allows U (EvictOp n) A \<longleftrightarrow> sp_final A < n \<and>
     (\<forall>k. U k \<longrightarrow> sp_exact A k \<le> sp_final A \<or> sp_exact A k < n)"

fun spec_allows_run :: "(bytes \<Rightarrow> bool) \<Rightarrow> fork_op list \<Rightarrow> chain_spec \<Rightarrow> bool" where
  "spec_allows_run U [] A \<longleftrightarrow> True"
| "spec_allows_run U (op # ops) A \<longleftrightarrow> spec_allows U op A \<and> spec_allows_run U ops (spec_step op A)"

text \<open>The blocks at which a key can be read.\<close>

definition reads_exactly :: "chain_spec \<Rightarrow> u64 \<Rightarrow> bytes \<Rightarrow> bool" where
  "reads_exactly A c k \<longleftrightarrow> sp_final A \<le> c \<and> sp_exact A k \<le> c"

text \<open>
  The store represents a state of the specification.  The wrapped store has no version
  above the final block, and the latest final version of every key whose reads are exact
  there; the cache has the last version of a key if it is above the final block, and the
  other versions above the final block are below the block from which the reads are exact.
\<close>

definition represents :: "(bytes \<Rightarrow> bool) \<Rightarrow> ('w \<Rightarrow> bytes \<Rightarrow> versions) \<Rightarrow> 'w fork_store \<Rightarrow>
    chain_spec \<Rightarrow> bool" where
  "represents U V s A \<longleftrightarrow> fork_inv U s \<and> fs_flushUpToBlock s \<le> sp_final A \<and>
     (\<forall>k. U k \<longrightarrow>
        (\<forall>b. V (fs_wrapped s) k b \<noteq> None \<longrightarrow> b \<le> sp_final A) \<and>
        (sp_exact A k \<le> sp_final A \<or> latest_at (sp_versions A k) (sp_final A) = None \<longrightarrow>
           latest_at (V (fs_wrapped s) k) (sp_final A) = latest_at (sp_versions A k) (sp_final A)) \<and>
        (\<forall>b v. cached_at s k = Some (b, v) \<longrightarrow> sp_final A < b \<and> sp_versions A k b = Some v \<and>
           (\<forall>b'. sp_versions A k b' \<noteq> None \<longrightarrow> b' \<le> b)) \<and>
        (\<forall>b. sp_final A < b \<longrightarrow> sp_versions A k b \<noteq> None \<longrightarrow>
           (\<exists>c v. cached_at s k = Some (c, v) \<and> (b = c \<or> b < sp_exact A k))) \<and>
        (sp_final A < sp_exact A k \<longrightarrow> (\<exists>v. cached_at s k = Some (sp_exact A k, v))))"

lemma representsD:
  assumes "represents U V s A"
  shows "fork_inv U s" and "fs_flushUpToBlock s \<le> sp_final A"
    and "U k \<Longrightarrow> V (fs_wrapped s) k b \<noteq> None \<Longrightarrow> b \<le> sp_final A"
    and "U k \<Longrightarrow> sp_exact A k \<le> sp_final A \<or> latest_at (sp_versions A k) (sp_final A) = None \<Longrightarrow>
      latest_at (V (fs_wrapped s) k) (sp_final A) = latest_at (sp_versions A k) (sp_final A)"
    and "U k \<Longrightarrow> cached_at s k = Some (b, v) \<Longrightarrow> sp_final A < b \<and> sp_versions A k b = Some v \<and>
      (\<forall>b'. sp_versions A k b' \<noteq> None \<longrightarrow> b' \<le> b)"
    and "U k \<Longrightarrow> sp_final A < b \<Longrightarrow> sp_versions A k b \<noteq> None \<Longrightarrow>
      \<exists>c v. cached_at s k = Some (c, v) \<and> (b = c \<or> b < sp_exact A k)"
    and "U k \<Longrightarrow> sp_final A < sp_exact A k \<Longrightarrow> \<exists>v. cached_at s k = Some (sp_exact A k, v)"
  using assms unfolding represents_def by blast+

lemma representsI:
  assumes "fork_inv U s" and "fs_flushUpToBlock s \<le> sp_final A"
    and "\<And>k b. U k \<Longrightarrow> V (fs_wrapped s) k b \<noteq> None \<Longrightarrow> b \<le> sp_final A"
    and "\<And>k. U k \<Longrightarrow> sp_exact A k \<le> sp_final A \<or> latest_at (sp_versions A k) (sp_final A) = None \<Longrightarrow>
      latest_at (V (fs_wrapped s) k) (sp_final A) = latest_at (sp_versions A k) (sp_final A)"
    and "\<And>k b v. U k \<Longrightarrow> cached_at s k = Some (b, v) \<Longrightarrow> sp_final A < b \<and> sp_versions A k b = Some v \<and>
      (\<forall>b'. sp_versions A k b' \<noteq> None \<longrightarrow> b' \<le> b)"
    and "\<And>k b. U k \<Longrightarrow> sp_final A < b \<Longrightarrow> sp_versions A k b \<noteq> None \<Longrightarrow>
      \<exists>c v. cached_at s k = Some (c, v) \<and> (b = c \<or> b < sp_exact A k)"
    and "\<And>k. U k \<Longrightarrow> sp_final A < sp_exact A k \<Longrightarrow> \<exists>v. cached_at s k = Some (sp_exact A k, v)"
  shows "represents U V s A"
  using assms unfolding represents_def by blast

text \<open>Below the cached version of a key that is read exactly there is no version above the final block.\<close>

lemma represents_gap:
  assumes "represents U V s A" and "U k" and "reads_exactly A c k"
    and "\<And>b v. cached_at s k = Some (b, v) \<Longrightarrow> c < b"
  shows "sp_exact A k \<le> sp_final A" and "latest_at (sp_versions A k) c = latest_at (sp_versions A k) (sp_final A)"
proof -
  note R = representsD [OF assms(1)]
  have c: "sp_final A \<le> c" "sp_exact A k \<le> c" using assms(3) by (simp_all add: reads_exactly_def)
  show e: "sp_exact A k \<le> sp_final A"
    using R(7) [OF assms(2)] assms(4) c(2) by (meson leD not_le)
  show "latest_at (sp_versions A k) c = latest_at (sp_versions A k) (sp_final A)"
  proof (rule latest_at_gap [OF c(1)], rule ccontr)
    fix b assume b: "sp_final A < b" "b \<le> c" "sp_versions A k b \<noteq> None"
    then obtain d v where d: "cached_at s k = Some (d, v)" "b = d \<or> b < sp_exact A k"
      using R(6) [OF assms(2) b(1,3)] by blast
    from assms(4) [OF d(1)] d(2) b e show False by auto
  qed
qed

text \<open>From the last version of a key on, its reads are exact: at the head of the chain every key is.\<close>

lemma reads_at_head:
  assumes "represents U V s A" and "U k" and "sp_final A \<le> c"
    and "\<And>b. sp_versions A k b \<noteq> None \<Longrightarrow> b \<le> c"
  shows "reads_exactly A c k"
proof (cases "sp_final A < sp_exact A k")
  case True
  then obtain v where "cached_at s k = Some (sp_exact A k, v)" using representsD(7) [OF assms(1,2)] by blast
  then have "sp_versions A k (sp_exact A k) \<noteq> None" using representsD(5) [OF assms(1,2)] by auto
  then show ?thesis using assms(3,4) by (simp add: reads_exactly_def)
qed (use assms(3) in \<open>simp add: reads_exactly_def\<close>)

text \<open>A store just opened on a database represents the content of the database.\<close>

lemma represents_NewStore:
  assumes "\<And>k b. U k \<Longrightarrow> V w k b \<noteq> None \<Longrightarrow> b \<le> f"
  shows "represents U V (fork_NewStore w) \<lparr>sp_versions = V w, sp_final = f, sp_exact = (\<lambda>_. 0)\<rparr>"
proof (rule representsI)
  show "fork_inv U (fork_NewStore w)" by (rule fork_NewStore_inv)
qed (use assms linorder_not_le in \<open>force simp: fork_NewStore_def cached_at_def\<close>)+

text \<open>Every exact read sees the version of the specification.\<close>

lemma represents_view:
  assumes "represents U V s A" and "U k" and "reads_exactly A c k"
  shows "fork_view V s k c = latest_at (sp_versions A k) c"
proof (cases "\<exists>b v. cached_at s k = Some (b, v) \<and> b \<le> c")
  case True
  then obtain b v where p: "cached_at s k = Some (b, v)" "b \<le> c" by blast
  have "latest_at (sp_versions A k) c = Some v"
    using representsD(5) [OF assms(1,2) p(1)] p(2) by (intro latest_at_SomeI [of _ b]) auto
  then show ?thesis using p by (simp add: fork_view_def)
next
  case False
  note R = representsD [OF assms(1)]
  have c: "sp_final A \<le> c" using assms(3) by (simp add: reads_exactly_def)
  have above: "\<And>b v. cached_at s k = Some (b, v) \<Longrightarrow> c < b" using False by force
  have G: "sp_exact A k \<le> sp_final A" "latest_at (sp_versions A k) c = latest_at (sp_versions A k) (sp_final A)"
    using represents_gap [OF assms] above by blast+
  have "latest_at (V (fs_wrapped s) k) c = latest_at (V (fs_wrapped s) k) (sp_final A)"
    using latest_at_gap [OF c] R(3) [OF assms(2)] by (metis linorder_not_le)
  also have "\<dots> = latest_at (sp_versions A k) (sp_final A)" using R(4) [OF assms(2)] G(1) by blast
  finally show ?thesis
    using G(2) False by (auto simp: fork_view_def split: option.split)
qed

lemma last_write_filter:
  "last_write (filter (\<lambda>e. P (fst (entry_kv e))) es) k = (if P k then last_write es k else None)"
proof -
  have "map_of (map entry_kv (filter (\<lambda>e. P (fst (entry_kv e))) xs)) k =
      (if P k then map_of (map entry_kv xs) k else None)" for xs
    by (induction xs) (auto split: prod.splits simp: prod_eq_iff)
  from this [of "rev es"] show ?thesis by (simp add: last_write_def rev_map rev_filter)
qed

lemma last_write_chosen:
  "last_write (chosen V s ine b es) k =
     (if ine \<longrightarrow> cached_at s k = None \<and> latest_at (V (fs_wrapped s) k) b = None
      then last_write es k else None)"
  unfolding chosen_def
  by (rule last_write_filter [where P = "\<lambda>k. ine \<longrightarrow> cached_at s k = None \<and>
        latest_at (V (fs_wrapped s) k) b = None"])

section \<open>The simulation\<close>

lemma represents_evict:
  assumes "represents U V s A" and "spec_allows U (EvictOp n) A" and "fork_EvictUpToBlock s n = (s', r)"
  shows "represents U V s' (spec_step (EvictOp n) A)"
proof -
  note R = representsD [OF assms(1)]
  note F = fork_EvictUpToBlock_frame [OF assms(3)]
  note C = fork_EvictUpToBlock_cached_at [OF R(1) assms(3)]
  have n: "sp_final A < n" and ex: "\<And>k. U k \<Longrightarrow> sp_exact A k \<le> sp_final A \<or> sp_exact A k < n"
    using assms(2) by auto
  have ex': "sp_exact A k < n" if "U k" "sp_final A < sp_exact A k" for k
    using ex [OF that(1)] that(2) by auto
  have final: "latest_at (\<lambda>b. if b < n then sp_versions A k b else None) (sp_final A) =
      latest_at (sp_versions A k) (sp_final A)" for k
    by (rule latest_at_cong) (use n in auto)
  have kept: "cached_at s' k = Some (b, v) \<longleftrightarrow> cached_at s k = Some (b, v) \<and> b < n" for k b v
    using C [of k] by (auto split: option.splits if_splits)
  show ?thesis
  proof (rule representsI)
    show "fork_inv U s'" using fork_EvictUpToBlock_inv [OF R(1) assms(3)] .
  next
    fix k b
    assume k: "U k" and b: "sp_final (spec_step (EvictOp n) A) < b" "sp_versions (spec_step (EvictOp n) A) k b \<noteq> None"
    then obtain c v where c: "cached_at s k = Some (c, v)" "b = c \<or> b < sp_exact A k" "b < n"
      using R(6) [OF k, of b] by (auto split: if_splits)
    have "c = sp_exact A k" if "sp_final A < sp_exact A k" using R(7) [OF k that] c(1) by simp
    then have "c < n" using c b(1) ex [OF k] by auto
    then show "\<exists>c v. cached_at s' k = Some (c, v) \<and> (b = c \<or> b < sp_exact (spec_step (EvictOp n) A) k)"
      using c kept by auto
  qed (use R(2-5,7) n ex' kept final in \<open>auto simp: F\<close>)
qed

context kv_store
begin

text \<open>What a flush does to the wrapped store.\<close>

lemma flush_writes:
  assumes "fork_inv user_key s" and "map_order ord" and "ok (fs_wrapped s)"
    and "fork_FlushUpToBlock W ord s n False = (s', Inr ())" and "user_key k"
  shows "vers (fs_wrapped s') k =
    (case cached_at s k of
       Some (b, v) \<Rightarrow> if b \<le> n then put (vers (fs_wrapped s) k) n v else vers (fs_wrapped s) k
     | None \<Rightarrow> vers (fs_wrapped s) k)"
proof -
  let ?es = "to_flush ord (fs_cache s) n"
  have es: "entries_for user_key ?es" by (rule to_flush_entries [OF assms(1,2)])
  have "vers (fs_wrapped s') k =
      (case last_write ?es k of None \<Rightarrow> vers (fs_wrapped s) k | Some v \<Rightarrow> put (vers (fs_wrapped s) k) n v)"
    using fork_FlushUpToBlock_wrapped [OF assms(4)]
  proof
    assume "?es = [] \<and> fs_wrapped s' = fs_wrapped s"
    then show ?thesis by (simp add: last_write_def)
  next
    assume "op_SetAll W (fs_wrapped s) ?es False n = (fs_wrapped s', Inr ())"
    then show ?thesis by (rule set_all_writes [OF assms(3) es _ assms(5)])
  qed
  then show ?thesis
    by (simp add: last_write_to_flush [OF assms(1,2)] split: option.split prod.split)
qed

lemma flush_if_absent_writes:
  assumes "fork_inv user_key s" and "map_order ord" and "ok (fs_wrapped s)"
    and "fork_FlushUpToBlock W ord s n True = (s', Inr ())" and "user_key k"
  shows "vers (fs_wrapped s') k =
    (case cached_at s k of
       Some (b, v) \<Rightarrow> if b \<le> n \<and> vers (fs_wrapped s) k = (\<lambda>_. None)
         then put (\<lambda>_. None) n v else vers (fs_wrapped s) k
     | None \<Rightarrow> vers (fs_wrapped s) k)"
proof -
  let ?es = "to_flush ord (fs_cache s) n"
  have es: "entries_for user_key ?es" by (rule to_flush_entries [OF assms(1,2)])
  show ?thesis
    using fork_FlushUpToBlock_wrapped [OF assms(4)]
  proof
    assume e: "?es = [] \<and> fs_wrapped s' = fs_wrapped s"
    then have "\<not> (\<exists>b v. cached_at s k = Some (b, v) \<and> b \<le> n)"
      using entry_keys_to_flush [OF assms(1,2), of k n] by (simp add: entry_keys_def)
    with e show ?thesis by (auto split: option.split)
  next
    assume w: "op_SetAll W (fs_wrapped s) ?es True n = (fs_wrapped s', Inr ())"
    show ?thesis
    proof (cases "\<exists>b v. cached_at s k = Some (b, v) \<and> b \<le> n")
      case False
      then have "k \<notin> entry_keys ?es" using entry_keys_to_flush [OF assms(1,2)] by simp
      from set_all_frame [OF assms(3) es w assms(5) this] False show ?thesis
        by (auto split: option.split)
    next
      case True
      then obtain b v where c: "cached_at s k = Some (b, v)" "b \<le> n" by blast
      show ?thesis
      proof (cases "vers (fs_wrapped s) k = (\<lambda>_. None)")
        case False
        then show ?thesis using set_all_keeps [OF assms(3) es w assms(5)] c by simp
      next
        case True
        have "k \<in> entry_keys ?es" using entry_keys_to_flush [OF assms(1,2)] c by blast
        then obtain v' where v': "(k, v') \<in> set (map entry_kv ?es)" "vers (fs_wrapped s') k = put (\<lambda>_. None) n v'"
          using set_all_inserts [OF assms(3) es w assms(5) _ True] by blast
        then have "v' = v" using to_flush_values [OF assms(1,2)] c by auto
        then show ?thesis using c True v'(2) by simp
      qed
    qed
  qed
qed

lemma flush_keeps_ok:
  assumes "fork_inv user_key s" and "map_order ord" and "ok (fs_wrapped s)"
    and "fork_FlushUpToBlock W ord s n ine = (s', Inr ())"
  shows "ok (fs_wrapped s')"
  using fork_FlushUpToBlock_wrapped [OF assms(4)] assms(3)
    set_all_ok [OF assms(3) to_flush_entries [OF assms(1,2)]] by auto

lemma latest_at_put:
  assumes "\<And>b. m b \<noteq> None \<Longrightarrow> b \<le> n"
  shows "latest_at (put m n v) n = Some v" and "put m n v b \<noteq> None \<Longrightarrow> b \<le> n"
proof -
  show le: "put m n v b \<noteq> None \<Longrightarrow> b \<le> n" for b
    using put_other [of b n m v] assms [of b] by (cases "b = n") auto
  show "latest_at (put m n v) n = Some v"
    by (rule latest_at_SomeI [of _ n]) (simp_all add: put_same)
qed

lemma wrapped_upto:
  assumes "represents user_key vers s A" and "user_key k" and "sp_final A \<le> n"
  shows "latest_at (vers (fs_wrapped s) k) n = latest_at (vers (fs_wrapped s) k) (sp_final A)"
  using latest_at_gap [OF assms(3)] representsD(3) [OF assms(1,2)] by (metis linorder_not_le)

text \<open>What an allowed flush writes for a key.\<close>

lemma flushed_versions:
  assumes "represents user_key vers s A" and "ok (fs_wrapped s)" and "map_order ord"
    and "spec_allows user_key (FlushOp n ine) A"
    and "fork_FlushUpToBlock W ord s n ine = (s', Inr ())" and k: "user_key k"
  shows "vers (fs_wrapped s') k =
      (case cached_at s k of
         Some (b, v) \<Rightarrow> if b \<le> n then put (vers (fs_wrapped s) k) n v else vers (fs_wrapped s) k
       | None \<Rightarrow> vers (fs_wrapped s) k)"
proof -
  note R = representsD [OF assms(1)]
  show ?thesis
  proof (cases ine)
    case False
    then show ?thesis using flush_writes [OF R(1) assms(3,2) _ k] assms(5) by simp
  next
    case True
    have e: "vers (fs_wrapped s) k = (\<lambda>_. None)" if "cached_at s k = Some (b, v)" "b \<le> n" for b v
    proof -
      have "sp_final A < b" "sp_versions A k b \<noteq> None" using R(5) [OF k that(1)] by auto
      then have "\<forall>b'\<le> sp_final A. sp_versions A k b' = None"
        using assms(4) True k that(2) by auto
      then have "latest_at (vers (fs_wrapped s) k) (sp_final A) = None"
        using R(4) [OF k] by (simp add: latest_at_None_iff)
      then show ?thesis using R(3) [OF k] unfolding latest_at_None_iff fun_eq_iff by blast
    qed
    show ?thesis
      using flush_if_absent_writes [OF R(1) assms(3,2) _ k] assms(5) True e
      by (auto split: option.splits)
  qed
qed

lemma flush_exact:
  assumes "represents user_key vers s A" and k: "user_key k" and n: "sp_final A \<le> n"
    and V: "V = (case cached_at s k of
         Some (b, v) \<Rightarrow> if b \<le> n then put (vers (fs_wrapped s) k) n v else vers (fs_wrapped s) k
       | None \<Rightarrow> vers (fs_wrapped s) k)"
    and ex: "sp_exact A k \<le> n \<or> latest_at (sp_versions A k) n = None"
  shows "latest_at V n = latest_at (sp_versions A k) n"
proof (cases "\<exists>b v. cached_at s k = Some (b, v) \<and> b \<le> n")
  case True
  then obtain b v where c: "cached_at s k = Some (b, v)" "b \<le> n" by blast
  have "latest_at (put (vers (fs_wrapped s) k) n v) n = Some v"
    using representsD(3) [OF assms(1) k] n by (intro latest_at_put(1)) (meson order_trans)
  moreover have "latest_at (sp_versions A k) n = Some v"
    using representsD(5) [OF assms(1) k c(1)] c(2) by (intro latest_at_SomeI [of _ b]) auto
  ultimately show ?thesis using c by (simp add: V)
next
  case False
  then have V': "V = vers (fs_wrapped s) k" by (auto simp: V split: option.split)
  note R = representsD [OF assms(1)]
  show ?thesis
  proof (cases "sp_exact A k \<le> n")
    case True
    then have e: "reads_exactly A n k" using n by (simp add: reads_exactly_def)
    have above: "\<And>b v. cached_at s k = Some (b, v) \<Longrightarrow> n < b" using False by force
    have "sp_exact A k \<le> sp_final A" "latest_at (sp_versions A k) n = latest_at (sp_versions A k) (sp_final A)"
      using represents_gap [OF assms(1) k e] above by blast+
    then show ?thesis using R(4) [OF k] wrapped_upto [OF assms(1) k n] by (simp add: V')
  next
    case no: False
    with ex have "latest_at (sp_versions A k) n = None" by simp
    moreover from this have "latest_at (sp_versions A k) (sp_final A) = None"
      using n by (auto simp: latest_at_None_iff)
    ultimately show ?thesis using R(4) [OF k] wrapped_upto [OF assms(1) k n] by (simp add: V')
  qed
qed

lemma represents_flush:
  assumes "represents user_key vers s A" and "ok (fs_wrapped s)" and "map_order ord"
    and "spec_allows user_key (FlushOp n ine) A"
    and "fork_FlushUpToBlock W ord s n ine = (s', Inr ())"
  shows "represents user_key vers s' (spec_step (FlushOp n ine) A)"
proof -
  note R = representsD [OF assms(1)]
  note wr = flushed_versions [OF assms]
  have n: "sp_final A \<le> n" using assms(4) by simp
  have kept: "cached_at s' k = Some (b, v) \<longleftrightarrow> cached_at s k = Some (b, v) \<and> n < b" for k b v
    using fork_FlushUpToBlock_cached_at [OF R(1) assms(3,5), of k] by (auto split: option.splits if_splits)
  have le: "b \<le> n" if "user_key k" "vers (fs_wrapped s) k b \<noteq> None" for k b
    using R(3) [OF that] n by simp
  show ?thesis
  proof (rule representsI)
    show "fork_inv user_key s'" using fork_FlushUpToBlock_inv [OF R(1) assms(5)] .
    show "fs_flushUpToBlock s' \<le> sp_final (spec_step (FlushOp n ine) A)"
      using fork_FlushUpToBlock_lib [OF assms(5)] by simp
  next
    fix k b assume k: "user_key k" and "vers (fs_wrapped s') k b \<noteq> None"
    moreover have "b \<le> n" if "put (vers (fs_wrapped s) k) n v b \<noteq> None" for v
      by (rule latest_at_put(2) [OF le [OF k] that])
    ultimately show "b \<le> sp_final (spec_step (FlushOp n ine) A)"
      using le [OF k] by (force simp: wr [OF k] split: option.splits if_splits)
  next
    fix k assume k: "user_key k"
      and "sp_exact (spec_step (FlushOp n ine) A) k \<le> sp_final (spec_step (FlushOp n ine) A) \<or>
        latest_at (sp_versions (spec_step (FlushOp n ine) A) k) (sp_final (spec_step (FlushOp n ine) A)) = None"
    then show "latest_at (vers (fs_wrapped s') k) (sp_final (spec_step (FlushOp n ine) A)) =
        latest_at (sp_versions (spec_step (FlushOp n ine) A) k) (sp_final (spec_step (FlushOp n ine) A))"
      using flush_exact [OF assms(1) k n wr [OF k]] by simp
  next
    fix k b assume k: "user_key k" and b: "sp_final (spec_step (FlushOp n ine) A) < b"
      "sp_versions (spec_step (FlushOp n ine) A) k b \<noteq> None"
    have "sp_final A < b" using n b(1) by simp
    then obtain c v where c: "cached_at s k = Some (c, v)" "b = c \<or> b < sp_exact A k"
      using R(6) [OF k _, of b] b(2) by auto
    moreover have "b \<le> c" using R(5) [OF k c(1)] b(2) by simp
    ultimately show "\<exists>c v. cached_at s' k = Some (c, v) \<and> (b = c \<or> b < sp_exact (spec_step (FlushOp n ine) A) k)"
      using kept b(1) by auto
  next
    fix k assume k: "user_key k" and "sp_final (spec_step (FlushOp n ine) A) < sp_exact (spec_step (FlushOp n ine) A) k"
    then show "\<exists>v. cached_at s' k = Some (sp_exact (spec_step (FlushOp n ine) A) k, v)"
      using R(7) [OF k] n kept by auto
  qed (use R(5) kept in auto)
qed

text \<open>A \<open>SetAll\<close> that the specification allows finds a key absent exactly if the specification
  does, so that it caches what the specification writes.\<close>

lemma set_exact:
  assumes "represents user_key vers s A" and "spec_allows user_key (SetAllOp es ine b) A"
    and "user_key k" and "k \<in> entry_keys es"
  shows "reads_exactly A b k"
  by (rule reads_at_head [OF assms(1,3)]) (use assms(2,4) in auto)

lemma set_writes:
  assumes "represents user_key vers s A" and "spec_allows user_key (SetAllOp es ine b) A" and k: "user_key k"
  shows "last_write (chosen vers s ine b es) k = (if spec_writes A es ine b k then last_write es k else None)"
proof (cases "last_write es k")
  case (Some v)
  then have es: "k \<in> entry_keys es" using last_write_None_iff [of es k] by (cases "k \<in> entry_keys es") auto
  have "b' \<le> b" if "cached_at s k = Some (b', v')" for b' v'
    using representsD(5) [OF assms(1) k that] assms(2) es by auto
  then have "latest_at (sp_versions A k) b = None \<longleftrightarrow>
      cached_at s k = None \<and> latest_at (vers (fs_wrapped s) k) b = None"
    unfolding represents_view [OF assms(1) k set_exact [OF assms es], symmetric]
    by (auto simp: fork_view_def split: option.split)
  then show ?thesis using Some by (simp add: last_write_chosen spec_writes_def)
qed (simp add: last_write_chosen spec_writes_def)

lemma represents_set_key:
  assumes "represents user_key vers s A" and "spec_allows user_key (SetAllOp es ine b) A" and k: "user_key k"
    and A': "A' = spec_step (SetAllOp es ine b) A"
    and C: "cached_at s' k = (if spec_writes A es ine b k then Some (b, the (last_write es k)) else cached_at s k)"
  shows "cached_at s' k = Some (c, v) \<Longrightarrow> sp_final A < c \<and> sp_versions A' k c = Some v \<and>
      (\<forall>b'. sp_versions A' k b' \<noteq> None \<longrightarrow> b' \<le> c)"
    and "sp_final A < b' \<Longrightarrow> sp_versions A' k b' \<noteq> None \<Longrightarrow>
      \<exists>c v. cached_at s' k = Some (c, v) \<and> (b' = c \<or> b' < sp_exact A' k)"
    and "sp_final A < sp_exact A' k \<Longrightarrow> \<exists>v. cached_at s' k = Some (sp_exact A' k, v)"
proof -
  note R = representsD [OF assms(1)]
  have b: "sp_final A < b" using assms(2) by simp
  have top: "b' \<le> b" if "spec_writes A es ine b k" "sp_versions A k b' \<noteq> None" for b'
  proof -
    have "k \<in> entry_keys es" using that(1) last_write_None_iff [of es k] by (auto simp: spec_writes_def)
    then show ?thesis using assms(2) that(2) by auto
  qed
  show "cached_at s' k = Some (c, v) \<Longrightarrow> sp_final A < c \<and> sp_versions A' k c = Some v \<and>
      (\<forall>b'. sp_versions A' k b' \<noteq> None \<longrightarrow> b' \<le> c)"
    using C b R(5) [OF k, of c v] top by (auto simp: A' spec_writes_def split: if_splits)
  show "\<exists>c v. cached_at s' k = Some (c, v) \<and> (b' = c \<or> b' < sp_exact A' k)"
    if "sp_final A < b'" "sp_versions A' k b' \<noteq> None"
  proof (cases "spec_writes A es ine b k")
    case True
    have "b' = b \<or> b' < b \<and> sp_versions A k b' \<noteq> None" using that(2) True top [OF True, of b'] by (auto simp: A' split: if_splits)
    then have "b' = b \<or> b' < b \<and> spec_hides A b k" using that(1) by (auto simp: spec_hides_def)
    then show ?thesis using C True by (auto simp: A')
  qed (use C that R(6) [OF k, of b'] in \<open>simp add: A'\<close>)
  show "\<exists>v. cached_at s' k = Some (sp_exact A' k, v)" if e: "sp_final A < sp_exact A' k"
  proof (cases "spec_writes A es ine b k \<and> \<not> spec_hides A b k")
    case True
    then have e': "sp_exact A' k = sp_exact A k" "sp_final A < sp_exact A k" using e by (simp_all add: A')
    then obtain v where "cached_at s k = Some (sp_exact A k, v)" using R(7) [OF k] by blast
    then have v: "sp_versions A k (sp_exact A k) \<noteq> None" using R(5) [OF k] by auto
    then have "\<not> sp_exact A k < b" using True e'(2) unfolding spec_hides_def by blast
    then have "sp_exact A k = b" using top [OF _ v] True by simp
    then show ?thesis using C True e' by simp
  qed (use C e R(7) [OF k] in \<open>auto simp: A' split: if_splits\<close>)
qed

lemma represents_set:
  assumes "represents user_key vers s A" and "ok (fs_wrapped s)"
    and "spec_allows user_key (SetAllOp es ine b) A"
    and "fork_SetAll W s es ine b = (s', Inr ())"
  shows "represents user_key vers s' (spec_step (SetAllOp es ine b) A) \<and> fs_wrapped s' = fs_wrapped s"
proof -
  note R = representsD [OF assms(1)]
  let ?A = "spec_step (SetAllOp es ine b) A" and ?es = "chosen vers s ine b es"
  have es: "entries_for user_key es" and b: "sp_final A < b" using assms(3) by simp_all
  have fl: "fs_flushUpToBlock s < b" using R(2) b by simp
  have s': "s' = s\<lparr>fs_cache := fork_cache_all b ?es (fs_cache s)\<rparr>"
    using assms(2) es assms(4) by (cases rule: fork_SetAll_cases) (use fl in auto)
  have C: "cached_at s' k = (if spec_writes A es ine b k then Some (b, the (last_write es k)) else cached_at s k)"
    if "user_key k" for k
    using set_writes [OF assms(1,3) that]
    by (auto simp: s' cached_at_fork_cache_all spec_writes_def split: option.split)
  note K = represents_set_key [OF assms(1,3) _ refl C]
  have "represents user_key vers s' ?A"
  proof (rule representsI)
    show "fork_inv user_key s'" unfolding s' by (rule fork_cache_all_inv [OF R(1) entries_for_chosen [OF es]])
    show "fs_flushUpToBlock s' \<le> sp_final ?A" using R(2) by (simp add: s')
    show "user_key k \<Longrightarrow> vers (fs_wrapped s') k b' \<noteq> None \<Longrightarrow> b' \<le> sp_final ?A" for k b'
      using R(3) by (simp add: s')
  next
    fix k assume k: "user_key k"
      and e: "sp_exact ?A k \<le> sp_final ?A \<or> latest_at (sp_versions ?A k) (sp_final ?A) = None"
    have l: "latest_at (sp_versions ?A k) (sp_final A) = latest_at (sp_versions A k) (sp_final A)"
      by (rule latest_at_cong) (use b in auto)
    have "sp_exact A k \<le> sp_final A \<or> latest_at (sp_versions A k) (sp_final A) = None"
      using e l b by (auto split: if_splits)
    then show "latest_at (vers (fs_wrapped s') k) (sp_final ?A) = latest_at (sp_versions ?A k) (sp_final ?A)"
      using R(4) [OF k] l by (simp add: s')
  qed (use K in simp_all)
  then show ?thesis by (simp add: s')
qed

lemma represents_step:
  assumes "represents user_key vers s A" and "ok (fs_wrapped s)" and "map_order ord"
    and "spec_allows user_key op A" and "fork_step W ord op s = (s', Inr ())"
  shows "represents user_key vers s' (spec_step op A) \<and> ok (fs_wrapped s')"
proof (cases op)
  case (SetAllOp es ine b)
  then show ?thesis
    using represents_set [OF assms(1,2), of es ine b s'] assms(2,4,5) by simp
next
  case (FlushOp n ine)
  then show ?thesis
    using represents_flush [OF assms(1,2,3), of n ine s'] assms(4,5)
      flush_keeps_ok [OF representsD(1) [OF assms(1)] assms(3,2), of n ine s'] by simp
next
  case (EvictOp n)
  then have e: "fork_EvictUpToBlock s n = (s', Inr ())" using assms(5) by simp
  then show ?thesis
    using represents_evict [OF assms(1) assms(4) [unfolded EvictOp] e] assms(2) EvictOp fork_EvictUpToBlock_frame(1) [OF e]
    by simp
qed

lemma represents_run:
  assumes "represents user_key vers s A" and "ok (fs_wrapped s)" and "map_order ord"
    and "spec_allows_run user_key ops A" and "fork_run W ord ops s = (s', Inr ())"
  shows "represents user_key vers s' (spec_run ops A) \<and> ok (fs_wrapped s')"
  using assms(1,2,4,5)
proof (induction ops arbitrary: s A)
  case (Cons op ops)
  obtain s1 where s1: "fork_step W ord op s = (s1, Inr ())"
    and r: "fork_run W ord ops s1 = (s', Inr ())"
    using Cons.prems(4) by (auto split: prod.splits sum.splits)
  have "represents user_key vers s1 (spec_step op A) \<and> ok (fs_wrapped s1)"
    using represents_step [OF Cons.prems(1,2) assms(3) _ s1] Cons.prems(3) by simp
  with Cons.IH [of s1 "spec_step op A"] Cons.prems(3) r show ?case by simp
qed simp

text \<open>What a read of a store that represents a chain answers.\<close>

lemma represents_reads:
  assumes "represents user_key vers s A" and "ok (fs_wrapped s)"
    and "GetRequest_Keys req = map Some ks" and "\<forall>k\<in>set ks. user_key (Key_Bytes k)"
    and "\<forall>k\<in>set ks. reads_exactly A (GetRequest_BlockNumber req) (Key_Bytes k)" and "fork_Get W s req = Inr r"
  shows "map answer_value (QueriedEntries_GetEntries (GetResponse_Entries r)) =
    map (\<lambda>k. latest_at (sp_versions A (Key_Bytes k)) (GetRequest_BlockNumber req)) ks"
  using assms(4,5) represents_view [OF assms(1)]
  by (simp add: fork_Get_answers [OF assms(2-4,6)] answer_value_overlaid [OF representsD(1) [OF assms(1)]])

text \<open>
  After a run from a store that was opened on a database, an exact read answers with the version of the specification.
\<close>

lemma run_reads:
  assumes "ok w" and "map_order ord" and "\<forall>k b. user_key k \<longrightarrow> vers w k b \<noteq> None \<longrightarrow> b \<le> f"
    and "A = \<lparr>sp_versions = vers w, sp_final = f, sp_exact = (\<lambda>_. 0)\<rparr>"
    and "spec_allows_run user_key ops A" and "fork_run W ord ops (fork_NewStore w) = (s, Inr ())"
    and "GetRequest_Keys req = map Some ks" and "\<forall>k\<in>set ks. user_key (Key_Bytes k)"
    and "\<forall>k\<in>set ks. reads_exactly (spec_run ops A) (GetRequest_BlockNumber req) (Key_Bytes k)" and "fork_Get W s req = Inr r"
  shows "map answer_value (QueriedEntries_GetEntries (GetResponse_Entries r)) =
    map (\<lambda>k. latest_at (sp_versions (spec_run ops A) (Key_Bytes k)) (GetRequest_BlockNumber req)) ks"
proof -
  have w: "ok (fs_wrapped (fork_NewStore w))" using assms(1) by (simp add: fork_NewStore_def)
  have "represents user_key vers (fork_NewStore w) A"
    unfolding assms(4) by (rule represents_NewStore) (use assms(3) in blast)
  from represents_run [OF this w assms(2,5,6)] show ?thesis
    using represents_reads [OF _ _ assms(7-10)] by blast
qed

end

context reliable_kv_store
begin

text \<open>On a backend that does not fail, an allowed run returns.\<close>

lemma fork_step_returns:
  assumes "represents user_key vers s A" and "ok (fs_wrapped s)" and "map_order ord" and "spec_allows user_key op A"
  obtains s' where "fork_step W ord op s = (s', Inr ())" and "represents user_key vers s' (spec_step op A)"
    and "ok (fs_wrapped s')"
proof -
  have i: "fork_inv user_key s" by (rule representsD(1) [OF assms(1)])
  have "snd (fork_step W ord op s) = Inr ()"
  proof (cases op)
    case (SetAllOp es ine b)
    then show ?thesis using fork_SetAll_returns [OF assms(2)] assms(4) by simp
  next
    case (FlushOp n ine)
    then show ?thesis using fork_FlushUpToBlock_returns [OF i assms(2,3)] by simp
  next
    case (EvictOp n)
    then show ?thesis by (simp add: fork_EvictUpToBlock_def Let_def)
  qed
  then obtain s' where s': "fork_step W ord op s = (s', Inr ())" by (cases "fork_step W ord op s") auto
  from represents_step [OF assms s'] show thesis using that s' by blast
qed

lemma fork_run_returns:
  assumes "represents user_key vers s A" and "ok (fs_wrapped s)" and "map_order ord"
    and "spec_allows_run user_key ops A"
  shows "snd (fork_run W ord ops s) = Inr ()"
  using assms(1,2,4)
proof (induction ops arbitrary: s A)
  case (Cons op ops)
  from Cons.prems(3) have a: "spec_allows user_key op A" by simp
  obtain s1 where "fork_step W ord op s = (s1, Inr ())" "represents user_key vers s1 (spec_step op A)" "ok (fs_wrapped s1)"
    by (rule fork_step_returns [OF Cons.prems(1,2) assms(3) a])
  then show ?case using Cons.IH [of s1 "spec_step op A"] Cons.prems(3) by simp
qed simp

lemma run_reads_total:
  assumes "ok w" and "map_order ord" and "\<forall>k b. user_key k \<longrightarrow> vers w k b \<noteq> None \<longrightarrow> b \<le> f"
    and "A = \<lparr>sp_versions = vers w, sp_final = f, sp_exact = (\<lambda>_. 0)\<rparr>"
    and "spec_allows_run user_key ops A"
    and "GetRequest_Keys req = map Some ks" and "\<forall>k\<in>set ks. user_key (Key_Bytes k)"
    and "\<forall>k\<in>set ks. reads_exactly (spec_run ops A) (GetRequest_BlockNumber req) (Key_Bytes k)"
  shows "\<exists>s r. fork_run W ord ops (fork_NewStore w) = (s, Inr ()) \<and> fork_Get W s req = Inr r \<and>
    map answer_value (QueriedEntries_GetEntries (GetResponse_Entries r)) =
    map (\<lambda>k. latest_at (sp_versions (spec_run ops A) (Key_Bytes k)) (GetRequest_BlockNumber req)) ks"
proof -
  have w: "ok (fs_wrapped (fork_NewStore w))" using assms(1) by (simp add: fork_NewStore_def)
  have R: "represents user_key vers (fork_NewStore w) A"
    unfolding assms(4) by (rule represents_NewStore) (use assms(3) in blast)
  obtain s where s: "fork_run W ord ops (fork_NewStore w) = (s, Inr ())"
    using fork_run_returns [OF R w assms(2,5)] by (cases "fork_run W ord ops (fork_NewStore w)") auto
  have "ok (fs_wrapped s)" using represents_run [OF R w assms(2,5) s] by simp
  then obtain r where r: "fork_Get W s req = Inr r" using fork_Get_returns assms(6,7) by blast
  have "map answer_value (QueriedEntries_GetEntries (GetResponse_Entries r)) =
      map (\<lambda>k. latest_at (sp_versions (spec_run ops A) (Key_Bytes k)) (GetRequest_BlockNumber req)) ks"
    by (rule run_reads [OF assms(1-5) s assms(6-8) r])
  with s r show ?thesis by blast
qed

end

end
