(* ===== verification/Sinker.thy ===== *)
theory Sinker
  imports Messages_V1 Fork_Refinement
begin

text \<open>
  The Substreams sink (\<open>sink/sinker.go\<close>, \<open>sink/cursor.go\<close>): for every block it writes the
  entries of the module output to the fork-aware store, flushes up to the last final
  block, and saves the cursor from which a restart resumes.  Cursors are values of
  another package (\<open>substreams/sink\<close>); the sink uses the accessors of \<open>cursor_api\<close>.  The
  functions of the file system and the protobuf decoder are parameters.
\<close>

section \<open>What the sink uses of other packages\<close>

text \<open>
  \<^item> \<open>cur_lib_num\<close>, \<open>cur_lib_id\<close>, \<open>cur_block_num\<close>, \<open>cur_block_id\<close>, \<open>cur_head_num\<close>:
    \<open>cursor.LIB.Num()\<close>, \<open>cursor.LIB.ID()\<close>, \<open>cursor.Block().Num()\<close>, \<open>cursor.Block().ID()\<close>
    and \<open>cursor.HeadBlock.Num()\<close>;
  \<^item> \<open>cur_write fs path cursor\<close>: \<open>sink.WriteCursor\<close>, on a file system;
  \<^item> \<open>cur_new\<close>: \<open>sink.NewCursor\<close>.
\<close>

record ('c, 'fs) cursor_api =
  cur_lib_num :: "'c \<Rightarrow> u64"
  cur_lib_id :: "'c \<Rightarrow> string"
  cur_block_num :: "'c \<Rightarrow> u64"
  cur_block_id :: "'c \<Rightarrow> string"
  cur_head_num :: "'c \<Rightarrow> u64"
  cur_write :: "'fs \<Rightarrow> string \<Rightarrow> 'c \<Rightarrow> 'fs \<times> (error + unit)"
  cur_new :: "string \<Rightarrow> error + 'c"

text \<open>The parts of the Substreams RPC messages that the sink reads.\<close>

record Clock =
  Clock_Id :: string
  Clock_Number :: u64

record MapModuleOutput =
  MapModuleOutput_MapOutput :: "Any option"

record BlockScopedData =
  BlockScopedData_Output :: "MapModuleOutput option"
  BlockScopedData_Clock :: "Clock option"

record BlockRef =
  BlockRef_Id :: string
  BlockRef_Number :: u64

record BlockUndoSignal =
  BlockUndoSignal_LastValidBlock :: "BlockRef option"

text \<open>\<open>Any.UnmarshalTo\<close> for the two message types.\<close>

record decoder =
  unmarshal_V1Entries :: "Any \<Rightarrow> error + V1Entries"
  unmarshal_SinkEntries :: "Any \<Rightarrow> error + SinkEntries"

section \<open>State and operations\<close>

record ('s, 'c, 'fs) sinker =
  sk_store :: 's
  sk_cursorFilePath :: string
  sk_cursorHistory :: "(string \<times> 'c) list"
  sk_headBlock :: u64
  sk_files :: 'fs

definition NewSinker :: "('c, 'fs) cursor_api \<Rightarrow> 's \<Rightarrow> string \<Rightarrow> 'c option \<Rightarrow> 'fs \<Rightarrow> ('s, 'c, 'fs) sinker" where
  "NewSinker C store cursorFilePath cursor files =
     \<lparr>sk_store = store, sk_cursorFilePath = cursorFilePath, sk_cursorHistory = [],
      sk_headBlock = (case cursor of None \<Rightarrow> 0 | Some c \<Rightarrow> cur_head_num C c), sk_files = files\<rparr>"

definition HeadBlock :: "('s, 'c, 'fs) sinker \<Rightarrow> u64" where
  "HeadBlock s = sk_headBlock s"

definition SaveCursorToFile :: "('c, 'fs) cursor_api \<Rightarrow> 'c \<Rightarrow> string \<Rightarrow> 'fs \<Rightarrow> 'fs \<times> unit res" where
  "SaveCursorToFile C cursor path files =
     (case cur_write C files path cursor of
        (files', Inl e) \<Rightarrow> (files', Inl (Error (Wrap ''writing cursor to file'' e)))
      | (files', Inr _) \<Rightarrow> (files', Inr ()))"

text \<open>
  \<open>read_file\<close> is \<open>os.ReadFile\<close>, \<open>getwd\<close> is \<open>os.Getwd\<close>, \<open>join\<close> is \<open>filepath.Join\<close>.  Every
  failure is logged and answered with nil.
\<close>

definition LoadCursorFromFile :: "('c, 'fs) cursor_api \<Rightarrow> (string \<Rightarrow> error + string) \<Rightarrow> (error + string) \<Rightarrow>
    (string \<Rightarrow> string \<Rightarrow> string) \<Rightarrow> string \<Rightarrow> 'c option" where
  "LoadCursorFromFile C read_file getwd join cursorFilePath =
     (let cursorPath =
        (if cursorFilePath \<noteq> '''' then cursorFilePath
         else join (case getwd of Inl _ \<Rightarrow> ''.'' | Inr dir \<Rightarrow> dir) ''state.cursor'')
      in case read_file cursorPath of
           Inl _ \<Rightarrow> None
         | Inr cursorStr \<Rightarrow>
             (case cur_new C cursorStr of Inl _ \<Rightarrow> None | Inr cursor \<Rightarrow> Some cursor))"

text \<open>The entries of a block.  A nil v1 entry panics (\<open>i.Key\<close>).\<close>

fun legacy_entries :: "V1Entry option list \<Rightarrow> Entry option list res" where
  "legacy_entries [] = Inr []"
| "legacy_entries (None # es) = nil_deref"
| "legacy_entries (Some i # es) =
     bind_res (legacy_entries es) (\<lambda>rest.
       Inr (Some \<lparr>Entry_Key = Some \<lparr>Key_Bytes = V1Entry_Key i\<rparr>, Entry_Value = V1Entry_Value i\<rparr> # rest))"

definition legacy_type_url :: string where
  "legacy_type_url = ''type.googleapis.com/sf.substreams.foundational_store.v1.Entries''"

definition block_entries :: "decoder \<Rightarrow> Any \<Rightarrow> SinkEntries res" where
  "block_entries D out =
     (if Any_TypeUrl out = legacy_type_url
      then (case unmarshal_V1Entries D out of
              Inl e \<Rightarrow> Inl (Error (Wrap ''unmarshaling map output to Entry'' e))
            | Inr legacy \<Rightarrow>
                bind_res (legacy_entries (V1Entries_Entries legacy)) (\<lambda>es.
                  Inr \<lparr>SinkEntries_Entries = es, SinkEntries_IfNotExist = False\<rparr>))
      else (case unmarshal_SinkEntries D out of
              Inl e \<Rightarrow> Inl (Error (Wrap ''unmarshaling map output to Entry'' e))
            | Inr entries \<Rightarrow> Inr entries))"

text \<open>
  The output that is processed: present, and with a value that is not nil (protobuf
  decodes an empty value to nil, so that nil is the empty list here).
\<close>

definition map_output :: "BlockScopedData \<Rightarrow> Any option" where
  "map_output data =
     (case BlockScopedData_Output data of
        None \<Rightarrow> None
      | Some out \<Rightarrow>
          (case MapModuleOutput_MapOutput out of
             None \<Rightarrow> None
           | Some any \<Rightarrow> if Any_Value any = [] then None else Some any))"

text \<open>Processing the data of a block: \<open>SetAll\<close>, then \<open>FlushUpToBlock\<close>.\<close>

definition process_output :: "('s, 'x) forkaware_ops_scheme \<Rightarrow> decoder \<Rightarrow> 's \<Rightarrow> BlockScopedData \<Rightarrow> u64 \<Rightarrow> u64 \<Rightarrow>
    's \<times> unit res" where
  "process_output F D store data number lib =
     (case map_output data of
        None \<Rightarrow> (store, Inr ())
      | Some out \<Rightarrow>
          (case block_entries D out of
             Inl f \<Rightarrow> (store, Inl f)
           | Inr entries \<Rightarrow>
               (case op_SetAll F store (SinkEntries_Entries entries) (SinkEntries_IfNotExist entries) number of
                  (store1, Inl f) \<Rightarrow> (store1, wrap_res ''setting foundational-store entry'' (Inl f))
                | (store1, Inr _) \<Rightarrow>
                    (case op_FlushUpToBlock F store1 lib (SinkEntries_IfNotExist entries) of
                       (store2, r) \<Rightarrow> (store2, wrap_res ''flushing up to block up to lib'' r)))))"

text \<open>
  The loop over the history deletes while it ranges: an entry that was deleted before the
  range reaches it is not visited.  \<open>ord\<close> is the order of the range.
\<close>

definition prune_history :: "('c, 'fs) cursor_api \<Rightarrow> ((string \<times> 'c) list \<Rightarrow> (string \<times> 'c) list) \<Rightarrow> u64 \<Rightarrow>
    (string \<times> 'c) list \<Rightarrow> (string \<times> 'c) list" where
  "prune_history C ord lib history =
     fold (\<lambda>(id, c) h. if map_of h id \<noteq> None \<and> cur_block_num C c \<le> lib
                       then AList.delete (cur_block_id C c) h else h) (ord history) history"

definition HandleBlockScopedData :: "('c, 'fs) cursor_api \<Rightarrow> ('s, 'x) forkaware_ops_scheme \<Rightarrow> decoder \<Rightarrow>
    ((string \<times> 'c) list \<Rightarrow> (string \<times> 'c) list) \<Rightarrow> ('s, 'c, 'fs) sinker \<Rightarrow> BlockScopedData \<Rightarrow> 'c \<Rightarrow>
    ('s, 'c, 'fs) sinker \<times> unit res" where
  "HandleBlockScopedData C F D ord s data cursor =
     (case BlockScopedData_Clock data of
        None \<Rightarrow> (s, nil_deref)
      | Some clock \<Rightarrow>
          (let history = AList.update (Clock_Id clock) cursor (sk_cursorHistory s);
               s1 = s\<lparr>sk_cursorHistory := history\<rparr>;
               lib = cur_lib_num C cursor
           in case process_output F D (sk_store s1) data (Clock_Number clock) lib of
                (store, Inl f) \<Rightarrow> (s1\<lparr>sk_store := store\<rparr>, Inl f)
              | (store, Inr _) \<Rightarrow>
                  (let s2 = s1\<lparr>sk_store := store\<rparr>;
                       libCursor = (case map_of history (cur_lib_id C cursor) of None \<Rightarrow> cursor | Some c \<Rightarrow> c)
                   in case SaveCursorToFile C libCursor (sk_cursorFilePath s2) (sk_files s2) of
                        (files, Inl f) \<Rightarrow> (s2\<lparr>sk_files := files\<rparr>, wrap_res ''saving cursor to file'' (Inl f))
                      | (files, Inr _) \<Rightarrow>
                          (s2\<lparr>sk_files := files,
                              sk_cursorHistory := prune_history C ord lib history,
                              sk_headBlock := Clock_Number clock\<rparr>, Inr ()))))"

text \<open>A failure to save the cursor after an undo is only logged.\<close>

definition HandleBlockUndoSignal :: "('c, 'fs) cursor_api \<Rightarrow> ('s, 'x) forkaware_ops_scheme \<Rightarrow>
    ('s, 'c, 'fs) sinker \<Rightarrow> BlockUndoSignal \<Rightarrow> 'c \<Rightarrow> ('s, 'c, 'fs) sinker \<times> unit res" where
  "HandleBlockUndoSignal C F s undoSignal cursor =
     (case BlockUndoSignal_LastValidBlock undoSignal of
        None \<Rightarrow> (s, nil_deref)
      | Some block \<Rightarrow>
          (let blockNum = BlockRef_Number block;
               s1 = s\<lparr>sk_headBlock := blockNum\<rparr>
           in case op_EvictUpToBlock F (sk_store s1) blockNum of
                (store, Inl f) \<Rightarrow> (s1\<lparr>sk_store := store\<rparr>, wrap_res ''failed to evict data up to block'' (Inl f))
              | (store, Inr _) \<Rightarrow>
                  (case SaveCursorToFile C cursor (sk_cursorFilePath s1) (sk_files s1) of
                     (files, _) \<Rightarrow> (s1\<lparr>sk_store := store, sk_files := files\<rparr>, Inr ()))))"

end
