(* ===== verification/Badger_Time_Traversal.thy ===== *)
theory Badger_Time_Traversal
  imports Badger_Batch Fanout
begin

text \<open>
  The time-traversal Badger store (\<open>store/badger_time_traversal\<close>): every version of a key
  is stored under the key followed by the eight bytes of \<open>MaxUint64 - block\<close>, so that
  newer versions come first.  A read seeks the first version at or below the requested
  block, \<open>GetFirst\<close> the last one.  The scans are not delimited: the store keeps its
  contract for a set of keys none of which is a proper prefix of another, and the last
  section shows what happens otherwise.
\<close>

section \<open>State and operations\<close>

record 'db tt_store =
  tt_db :: 'db
  tt_typeUrl :: string
  tt_numWorkers :: int

definition makeTimeTraversalKey :: "bytes \<Rightarrow> u64 \<Rightarrow> bytes" where
  "makeTimeTraversalKey originalKey blockNumber =
     (let reversedBlockNumber = 18446744073709551615 - blockNumber
      in originalKey @ putUint64 reversedBlockNumber)"

text \<open>The check of \<open>IfNotExist\<close>: the first item from the prefix on has that prefix.\<close>

definition tt_exists :: "('db, 'it, 'txn, 'wb) badger_api \<Rightarrow> 'db \<Rightarrow> bytes \<Rightarrow> bool res" where
  "tt_exists B db prefix =
     Inr (case iter_seek B db False prefix of
            [] \<Rightarrow> False
          | it # _ \<Rightarrow> has_prefix (item_key B it) prefix)"

definition tt_Set :: "('db, 'it, 'txn, 'wb) badger_api \<Rightarrow> 'db tt_store \<Rightarrow> Entry option \<Rightarrow>
    bool \<Rightarrow> u64 \<Rightarrow> 'db tt_store \<times> unit res" where
  "tt_Set B s entry ifNotExist blockNumber =
     (case (if ifNotExist then bind_res (entry_key_bytes entry) (tt_exists B (tt_db s)) else Inr False) of
        Inl f \<Rightarrow> (s, Inl f)
      | Inr True \<Rightarrow> (s, Inr ())
      | Inr False \<Rightarrow>
          (case entry_key_bytes entry of
             Inl f \<Rightarrow> (s, Inl f)
           | Inr k \<Rightarrow>
               (case entry_value_bytes entry of
                  Inl f \<Rightarrow> (s, Inl f)
                | Inr v \<Rightarrow>
                    (let (db', r) = db_update B (tt_db s) (\<lambda>txn.
                         case txn_set B txn (makeTimeTraversalKey k blockNumber) v of
                           Inl e \<Rightarrow> Inl (Wrap ''failed to set value in Badger'' e)
                         | Inr txn' \<Rightarrow> Inr txn')
                     in (s\<lparr>tt_db := db'\<rparr>, wrap_res ''failed to update Badger'' (of_err r))))))"

fun tt_fill :: "('db, 'it, 'txn, 'wb) badger_api \<Rightarrow> bool \<Rightarrow> u64 \<Rightarrow> Entry option list \<Rightarrow> 'db \<Rightarrow> 'wb \<Rightarrow>
    'db \<times> 'wb \<times> unit res" where
  "tt_fill B ifNotExist blockNumber [] db wb = (db, wb, Inr ())"
| "tt_fill B ifNotExist blockNumber (entry # entries) db wb =
     (case (if ifNotExist then bind_res (entry_key_bytes entry) (tt_exists B db) else Inr False) of
        Inl f \<Rightarrow> (db, wb, Inl f)
      | Inr True \<Rightarrow> tt_fill B ifNotExist blockNumber entries db wb
      | Inr False \<Rightarrow>
          (case entry_key_bytes entry of
             Inl f \<Rightarrow> (db, wb, Inl f)
           | Inr k \<Rightarrow>
               (case entry_value_bytes entry of
                  Inl f \<Rightarrow> (db, wb, Inl f)
                | Inr v \<Rightarrow>
                    (case wb_set B db wb (makeTimeTraversalKey k blockNumber) v of
                       (db', Inl e) \<Rightarrow> (db', wb, Inl (Error (Wrap ''failed to add entry to batch'' e)))
                     | (db', Inr wb') \<Rightarrow> tt_fill B ifNotExist blockNumber entries db' wb'))))"

definition tt_SetAll :: "('db, 'it, 'txn, 'wb) badger_api \<Rightarrow> 'db tt_store \<Rightarrow> Entry option list \<Rightarrow>
    bool \<Rightarrow> u64 \<Rightarrow> 'db tt_store \<times> unit res" where
  "tt_SetAll B s entries ifNotExist blockNumber =
     (if entries = [] then (s, Inr ())
      else case tt_fill B ifNotExist blockNumber entries (tt_db s) (wb_new B (tt_db s)) of
          (db1, wb, Inl f) \<Rightarrow> (s\<lparr>tt_db := wb_cancel B db1 wb\<rparr>, Inl f)
        | (db1, wb, Inr _) \<Rightarrow>
            (case wb_flush B db1 wb of
               (db2, Inl e) \<Rightarrow> (s\<lparr>tt_db := wb_cancel B db2 wb\<rparr>,
                 Inl (Error (Wrap ''failed to flush batch to Badger'' e)))
             | (db2, Inr _) \<Rightarrow> (s\<lparr>tt_db := wb_cancel B db2 wb\<rparr>, Inr ())))"

text \<open>The \<open>db.View\<close> closure of one goroutine of \<open>Get\<close>; its loop breaks in the first round.\<close>

definition tt_get_one :: "('db, 'it, 'txn, 'wb) badger_api \<Rightarrow> 'db tt_store \<Rightarrow> u64 \<Rightarrow>
    Key option \<Rightarrow> QueriedEntry res" where
  "tt_get_one B s reqBlock key =
     (case key_bytes key of
        Inl f \<Rightarrow> Inl f
      | Inr k \<Rightarrow>
          (let start = makeTimeTraversalKey k reqBlock;
               exclusiveEnd = makeTimeTraversalKey k 0 @ [0]
           in case iter_seek B (tt_db s) False start of
                [] \<Rightarrow> Inr (not_found key)
              | item # _ \<Rightarrow>
                  if bytes_compare (item_key B item) exclusiveEnd = - 1
                  then (case item_value B item of
                          Inl e \<Rightarrow> Inl (Error (Wrap ''copying value'' e))
                        | Inr v \<Rightarrow> Inr (found key (tt_typeUrl s) v))
                  else Inr (not_found key)))"

definition tt_Get :: "('db, 'it, 'txn, 'wb) badger_api \<Rightarrow> nat list \<Rightarrow> 'db tt_store \<Rightarrow>
    GetRequest \<Rightarrow> GetResponse res" where
  "tt_Get B sched s request =
     (let keys = GetRequest_Keys request
      in case fan_out (tt_numWorkers s) ''getting values from Badger'' sched (length keys)
           (\<lambda>i. tt_get_one B s (GetRequest_BlockNumber request) (keys ! i)) of
           Inl f \<Rightarrow> Inl f
         | Inr entries \<Rightarrow> Inr (response entries))"

definition tt_get_first_one :: "('db, 'it, 'txn, 'wb) badger_api \<Rightarrow> 'db tt_store \<Rightarrow>
    Key option \<Rightarrow> QueriedEntry res" where
  "tt_get_first_one B s key =
     (case key_bytes key of
        Inl f \<Rightarrow> Inl f
      | Inr base \<Rightarrow>
          (let begin_key = base @ replicate 8 0;
               end_key = base @ replicate 8 0xFF @ [0]
           in case iter_seek B (tt_db s) True end_key of
                [] \<Rightarrow> Inr (not_found key)
              | it2 # _ \<Rightarrow>
                  if 0 \<le> bytes_compare (item_key B it2) begin_key \<and>
                     bytes_compare (item_key B it2) end_key = - 1
                  then (case item_value B it2 of
                          Inl e \<Rightarrow> Inl (Error e)
                        | Inr v \<Rightarrow> Inr (found key (tt_typeUrl s) v))
                  else Inr (not_found key)))"

definition tt_GetFirst :: "('db, 'it, 'txn, 'wb) badger_api \<Rightarrow> nat list \<Rightarrow> 'db tt_store \<Rightarrow>
    GetRequest \<Rightarrow> GetResponse res" where
  "tt_GetFirst B sched s request =
     (let keys = GetRequest_Keys request
      in case fan_out (tt_numWorkers s) ''badger_time_traversal GetFirst'' sched (length keys)
           (\<lambda>i. tt_get_first_one B s (keys ! i)) of
           Inl f \<Rightarrow> Inl f
         | Inr entries \<Rightarrow> Inr (response entries))"

definition tt_NewStore :: "(string \<Rightarrow> error + unit) \<Rightarrow> (string \<Rightarrow> error + 'db) \<Rightarrow> string \<Rightarrow> string \<Rightarrow>
    int \<Rightarrow> 'db tt_store res" where
  "tt_NewStore mkdir open_db path typeUrl numWorkers =
     (case mkdir path of
        Inl e \<Rightarrow> Inl (Error (Wrap ''failed to create directory for Badger DB'' e))
      | Inr _ \<Rightarrow>
          (case open_db path of
             Inl e \<Rightarrow> Inl (Error (Wrap ''failed to open Badger DB'' e))
           | Inr db \<Rightarrow> Inr \<lparr>tt_db = db, tt_typeUrl = typeUrl, tt_numWorkers = numWorkers\<rparr>))"

definition tt_ops :: "('db, 'it, 'txn, 'wb) badger_api \<Rightarrow> (nat \<Rightarrow> nat list) \<Rightarrow> 'db tt_store store_ops" where
  "tt_ops B sched =
     \<lparr>op_SetAll = tt_SetAll B,
      op_Get = (\<lambda>s req. tt_Get B (sched (length (GetRequest_Keys req))) s req),
      op_GetFirst = (\<lambda>s req. tt_GetFirst B (sched (length (GetRequest_Keys req))) s req)\<rparr>"

section \<open>Composite keys\<close>

lemma makeTimeTraversalKey_alt: "makeTimeTraversalKey k b = k @ putUint64 (- 1 - b)"
  by (simp add: makeTimeTraversalKey_def)

lemma makeTimeTraversalKey_not_Nil [simp]: "makeTimeTraversalKey k b \<noteq> []"
  by (simp add: makeTimeTraversalKey_alt putUint64_def)

lemma makeTimeTraversalKey_inject [simp]:
  "makeTimeTraversalKey k b = makeTimeTraversalKey k' b' \<longleftrightarrow> k = k' \<and> b = b'"
proof
  assume "makeTimeTraversalKey k b = makeTimeTraversalKey k' b'"
  then have "k = k' \<and> putUint64 (- 1 - b) = putUint64 (- 1 - b')"
    by (simp add: makeTimeTraversalKey_alt append_eq_append_conv)
  then show "k = k' \<and> b = b'" by (simp only: putUint64_inject) simp
qed simp

lemma max_minus_le: "(- 1 - b :: u64) \<le> - 1 - c \<longleftrightarrow> c \<le> b"
proof -
  have "unat (- 1 - b) = 2 ^ 64 - 1 - unat b" "unat (- 1 - c) = 2 ^ 64 - 1 - unat c"
    by (simp_all add: unat_sub word_order.extremum unsigned_minus_1_eq_mask mask_eq_exp_minus_1)
  moreover have "unat b < 2 ^ 64" "unat c < 2 ^ 64"
    using unsigned_less [of b] unsigned_less [of c] by simp_all
  ultimately show ?thesis unfolding word_le_nat_alt by linarith
qed

text \<open>Newer versions of a key come first.\<close>

lemma makeTimeTraversalKey_le_iff [simp]:
  "makeTimeTraversalKey k b \<le> makeTimeTraversalKey k c \<longleftrightarrow> c \<le> b"
  by (simp add: makeTimeTraversalKey_alt max_minus_le)

lemma makeTimeTraversalKey_less_iff [simp]:
  "makeTimeTraversalKey k b < makeTimeTraversalKey k c \<longleftrightarrow> c < b"
  by (metis linorder_not_le makeTimeTraversalKey_le_iff)

lemma makeTimeTraversalKey_end: "makeTimeTraversalKey k b < makeTimeTraversalKey k 0 @ [0]"
proof -
  have "makeTimeTraversalKey k b \<le> makeTimeTraversalKey k 0" by simp
  also have "\<dots> < makeTimeTraversalKey k 0 @ [0]"
    using append_less_append [of "makeTimeTraversalKey k 0" "[]" "[0]"] by simp
  finally show ?thesis .
qed

lemma first_key_bounds:
  "k @ replicate 8 0 = makeTimeTraversalKey k (- 1)"
  "k @ replicate 8 0xFF @ [0] = makeTimeTraversalKey k 0 @ [0]"
proof -
  have z: "putUint64 0 = replicate 8 0" by code_simp
  have m: "(- 1 :: u64) = 18446744073709551615" by simp
  have "putUint64 18446744073709551615 = replicate 8 0xFF" by code_simp
  then have ff: "putUint64 (- 1) = replicate 8 0xFF" by (simp only: m)
  show "k @ replicate 8 0 = makeTimeTraversalKey k (- 1)"
    using z by (simp add: makeTimeTraversalKey_alt)
  show "k @ replicate 8 0xFF @ [0] = makeTimeTraversalKey k 0 @ [0]"
    using ff by (simp add: makeTimeTraversalKey_alt)
qed

text \<open>Every key in the range of a scan extends the key that was asked for.\<close>

lemma in_range_extends:
  assumes "makeTimeTraversalKey k b \<le> x" and "x < makeTimeTraversalKey k 0 @ [0]"
  shows "\<exists>r. x = k @ r"
proof -
  have "k \<le> x" using assms(1) prefix_le order_trans unfolding makeTimeTraversalKey_alt by blast
  moreover have "x < k @ (putUint64 (- 1) @ [0])" using assms(2) by (simp add: makeTimeTraversalKey_alt)
  ultimately show ?thesis by (rule between_extends)
qed

section \<open>SetAll against the batch\<close>

definition tt_enc :: "u64 \<Rightarrow> bytes \<Rightarrow> bytes \<Rightarrow> bytes \<times> bytes" where
  "tt_enc b k v = (makeTimeTraversalKey k b, v)"

lemma tt_fill_batch: "tt_fill B ine b es db wb = batch_fill B (tt_exists B) (tt_enc b) ine es db wb"
proof (induction es arbitrary: db wb)
  case (Cons e es)
  obtain g where g: "(if ine then bind_res (entry_key_bytes e) (tt_exists B db) else Inr False) = g"
    by blast
  consider (fail) f where "g = Inl f" | (skip) "g = Inr True" | (put) "g = Inr False"
    by (metis (full_types) obj_sumE)
  then show ?case
  proof cases
    case put
    then show ?thesis
      unfolding tt_fill.simps batch_fill.simps Cons.IH g
      using entry_key_bytes_fail [of e] entry_value_bytes_fail [of e]
      by (cases "entry_key_bytes e"; cases "entry_value_bytes e") (simp_all add: tt_enc_def)
  qed (simp_all only: tt_fill.simps batch_fill.simps Cons.IH g sum.case bool.case)
qed simp

lemma tt_SetAll_batch:
  "tt_SetAll B s es ine b =
     (case batch_set B (tt_exists B) (tt_enc b) ine es (tt_db s) of (db', r) \<Rightarrow> (s\<lparr>tt_db := db'\<rparr>, r))"
  by (simp add: tt_SetAll_def batch_set_def batch_write_def tt_fill_batch split: prod.split sum.split)

text \<open>A key is fresh if nothing in the database extends it.\<close>

definition tt_fresh :: "(bytes \<Rightarrow> bytes option) \<Rightarrow> bytes \<Rightarrow> bool" where
  "tt_fresh m k \<longleftrightarrow> (\<forall>r. m (k @ r) = None)"

definition tt_vers :: "('db \<Rightarrow> bytes \<Rightarrow> bytes option) \<Rightarrow> 'db tt_store \<Rightarrow> bytes \<Rightarrow> versions" where
  "tt_vers kv s k = (\<lambda>b. kv (tt_db s) (makeTimeTraversalKey k b))"

text \<open>The content belongs to keys of a set \<open>U\<close>.\<close>

definition tt_ok :: "(bytes \<Rightarrow> bool) \<Rightarrow> ('db \<Rightarrow> bytes \<Rightarrow> bytes option) \<Rightarrow> 'db tt_store \<Rightarrow> bool" where
  "tt_ok U kv s \<longleftrightarrow> (\<forall>x. kv (tt_db s) x \<noteq> None \<longrightarrow> (\<exists>k b. U k \<and> x = makeTimeTraversalKey k b))"

definition prefix_free :: "(bytes \<Rightarrow> bool) \<Rightarrow> bool" where
  "prefix_free U \<longleftrightarrow> (\<forall>k r. U k \<longrightarrow> U (k @ r) \<longrightarrow> r = [])"

definition put_version :: "versions \<Rightarrow> u64 \<Rightarrow> bytes \<Rightarrow> versions" where
  "put_version m b v = m(b \<mapsto> v)"

context badger_kv
begin

lemma tt_existence_check: "existence_check kv (tt_exists B) tt_fresh"
  unfolding existence_check_def
proof (intro conjI allI impI)
  fix db k
  assume e: "tt_exists B db k = Inr True"
  then obtain it its where i: "iter_seek B db False k = it # its" and "has_prefix (item_key B it) k"
    by (auto simp: tt_exists_def split: list.splits)
  then obtain r where "item_key B it = k @ r" by (auto simp: has_prefix_iff)
  with seek_forward_head(2) [OF i] show "\<not> tt_fresh (kv db) k" by (auto simp: tt_fresh_def)
next
  fix db k
  assume e: "tt_exists B db k = Inr False"
  show "tt_fresh (kv db) k"
    unfolding tt_fresh_def
  proof
    fix r
    show "kv db (k @ r) = None"
    proof (cases "iter_seek B db False k")
      case Nil
      then show ?thesis using seek_forward_Nil prefix_le by blast
    next
      case (Cons it its)
      have np: "\<not> has_prefix (item_key B it) k" using e Cons by (simp add: tt_exists_def)
      show ?thesis
      proof (rule ccontr)
        assume "kv db (k @ r) \<noteq> None"
        then have "item_key B it \<le> k @ r" using seek_forward_head(3) [OF Cons] prefix_le by blast
        moreover have "item_key B it \<noteq> k @ r" using np by (auto simp: has_prefix_iff)
        ultimately have "item_key B it < k @ r" by simp
        with seek_forward_head(1) [OF Cons] have "\<exists>q. item_key B it = k @ q" by (rule between_extends)
        with np show False by (auto simp: has_prefix_iff)
      qed
    qed
  qed
next
  fix m :: "bytes \<Rightarrow> bytes option" and ps k
  show "tt_fresh (apply_sets ps m) k \<Longrightarrow> tt_fresh m k"
    using apply_sets_None by (metis tt_fresh_def)
qed

lemma tt_SetAll_any:
  assumes "\<forall>e\<in>set es. entry_ok e" and "tt_SetAll B s es ine b = (s', r)"
  shows "\<exists>es'. written tt_fresh ine es (kv (tt_db s)) es' \<and>
      kv (tt_db s') = apply_sets (map (raw (tt_enc b)) es') (kv (tt_db s)) \<and>
      tt_typeUrl s' = tt_typeUrl s \<and> tt_numWorkers s' = tt_numWorkers s"
  using assms(2) batch_set_any [OF tt_existence_check assms(1)]
  by (auto simp: tt_SetAll_batch split: prod.splits)

lemma tt_SetAll_ok:
  assumes "\<forall>e\<in>set es. entry_ok e" and "tt_SetAll B s es ine b = (s', Inr ())"
  shows "\<exists>es'. written tt_fresh ine es (kv (tt_db s)) es' \<and>
      kv (tt_db s') = apply_sets (map (raw (tt_enc b)) es') (kv (tt_db s)) \<and>
      (\<not> ine \<longrightarrow> es' = es) \<and>
      (\<forall>e\<in>set es. e \<in> set es' \<or> \<not> tt_fresh (kv (tt_db s')) (fst (entry_kv e)))"
  using assms(2) batch_set_ok [OF tt_existence_check assms(1)]
  by (auto simp: tt_SetAll_batch split: prod.splits)

end

lemma raw_tt_enc: "raw (tt_enc b) e = (makeTimeTraversalKey (fst (entry_kv e)) b, snd (entry_kv e))"
  by (simp add: raw_def tt_enc_def)

lemma map_of_raw_tt:
  "map_of (map (raw (tt_enc b)) es) (makeTimeTraversalKey k c) =
     (if c = b then map_of (map entry_kv es) k else None)"
  by (induction es) (auto simp: raw_tt_enc)

lemma apply_raw_tt:
  "apply_sets (map (raw (tt_enc b)) es) m (makeTimeTraversalKey k c) =
     (case last_write es k of
        Some v \<Rightarrow> if c = b then Some v else m (makeTimeTraversalKey k c)
      | None \<Rightarrow> m (makeTimeTraversalKey k c))"
  by (auto simp: apply_sets_eq last_write_def rev_map map_of_raw_tt split: option.split)

lemma tt_vers_after:
  assumes "kv (tt_db s') = apply_sets (map (raw (tt_enc b)) es) (kv (tt_db s))"
  shows "tt_vers kv s' k =
     (case last_write es k of None \<Rightarrow> tt_vers kv s k | Some v \<Rightarrow> (tt_vers kv s k)(b \<mapsto> v))"
  by (auto simp: tt_vers_def assms apply_raw_tt split: option.split)

lemma tt_ok_after:
  assumes "tt_ok U kv s" and "\<forall>e\<in>set es. U (fst (entry_kv e))"
    and "kv (tt_db s') = apply_sets (map (raw (tt_enc b)) es) (kv (tt_db s))"
  shows "tt_ok U kv s'"
  unfolding tt_ok_def
proof (intro allI impI)
  fix x
  assume x: "kv (tt_db s') x \<noteq> None"
  show "\<exists>k b. U k \<and> x = makeTimeTraversalKey k b"
  proof (cases "x \<in> fst ` set (map (raw (tt_enc b)) es)")
    case True
    then show ?thesis using assms(2) by (auto simp: raw_tt_enc)
  next
    case False
    then have "kv (tt_db s') x = kv (tt_db s) x" unfolding assms(3) by (rule apply_sets_other)
    then show ?thesis using x assms(1) by (auto simp: tt_ok_def)
  qed
qed

section \<open>The store fulfils the contract of a backend\<close>

lemma prefix_freeD: "prefix_free U \<Longrightarrow> U k \<Longrightarrow> U k' \<Longrightarrow> k @ r = k' @ r' \<Longrightarrow> k = k'"
  unfolding prefix_free_def append_eq_append_conv2 by fastforce

lemma fresh_vers:
  assumes "tt_ok U kv s" and "prefix_free U" and "U k"
  shows "tt_fresh (kv (tt_db s)) k \<longleftrightarrow> tt_vers kv s k = (\<lambda>_. None)"
proof
  assume "tt_vers kv s k = (\<lambda>_. None)"
  then have v: "kv (tt_db s) (makeTimeTraversalKey k b) = None" for b
    by (auto simp: tt_vers_def fun_eq_iff)
  show "tt_fresh (kv (tt_db s)) k"
    unfolding tt_fresh_def
  proof (intro allI notI)
    fix r
    show "kv (tt_db s) (k @ r) = None"
    proof (rule ccontr)
      assume "kv (tt_db s) (k @ r) \<noteq> None"
      then obtain k' b where "U k'" "k @ r = makeTimeTraversalKey k' b"
        using assms(1) by (auto simp: tt_ok_def)
      then show False using prefix_freeD [OF assms(2,3)] v \<open>kv (tt_db s) (k @ r) \<noteq> None\<close>
        by (metis makeTimeTraversalKey_alt)
    qed
  qed
qed (auto simp: tt_fresh_def tt_vers_def makeTimeTraversalKey_alt)

text \<open>In the range of a read of \<open>k\<close> there are only versions of \<open>k\<close>.\<close>

lemma range_versions:
  assumes "tt_ok U kv s" and "prefix_free U" and "U k" and "kv (tt_db s) x \<noteq> None"
    and "makeTimeTraversalKey k b \<le> x" and "x < makeTimeTraversalKey k 0 @ [0]"
  shows "\<exists>c. x = makeTimeTraversalKey k c"
proof -
  obtain k' c where k': "U k'" "x = makeTimeTraversalKey k' c"
    using assms(1,4) by (auto simp: tt_ok_def)
  moreover obtain r where "x = k @ r" using in_range_extends [OF assms(5,6)] by blast
  ultimately have "k = k'"
    using prefix_freeD [OF assms(2,3)] by (metis makeTimeTraversalKey_alt)
  with k' show ?thesis by blast
qed

text \<open>The value of the lowest block.\<close>

definition first_version :: "versions \<Rightarrow> bytes option" where
  "first_version m = (if \<exists>b. m b \<noteq> None then m (Min {b. m b \<noteq> None}) else None)"

lemma first_version_SomeI:
  assumes "m b = Some v" and "\<And>b'. m b' \<noteq> None \<Longrightarrow> b \<le> b'"
  shows "first_version m = Some v"
proof -
  have "Min {b. m b \<noteq> None} = b" using assms by (intro Min_eqI) auto
  then show ?thesis using assms by (auto simp: first_version_def)
qed

definition first_answer :: "string \<Rightarrow> (bytes \<Rightarrow> versions) \<Rightarrow> Key \<Rightarrow> QueriedEntry" where
  "first_answer t V k = (case first_version (V (Key_Bytes k)) of
      None \<Rightarrow> not_found (Some k)
    | Some v \<Rightarrow> found (Some k) t v)"

locale badger_tt = badger_kv +
  fixes sched :: "nat \<Rightarrow> nat list"
    and U :: "bytes \<Rightarrow> bool"
  assumes sched: "schedule n (sched n)"
    and prefix_free: "prefix_free U"
begin

lemma tt_get_one_answers:
  assumes ok: "tt_ok U kv s" and u: "U (Key_Bytes k)" and g: "tt_get_one B s c (Some k) = Inr q"
  shows "q = answer (tt_typeUrl s) (tt_vers kv s) c k"
proof -
  let ?k = "Key_Bytes k" and ?m = "tt_vers kv s (Key_Bytes k)"
  let ?start = "makeTimeTraversalKey ?k c" and ?hi = "makeTimeTraversalKey ?k 0 @ [0]"
  have none: "q = answer (tt_typeUrl s) (tt_vers kv s) c k"
    if "q = not_found (Some k)" "\<And>b. b \<le> c \<Longrightarrow> ?m b = None"
    using that latest_at_None_iff [of ?m c] by (simp add: answer_def)
  show ?thesis
  proof (cases "iter_seek B (tt_db s) False ?start")
    case Nil
    have "?m b = None" if "b \<le> c" for b
      using seek_forward_Nil [OF Nil, of "makeTimeTraversalKey ?k b"] that by (simp add: tt_vers_def)
    then show ?thesis using none g Nil by (simp add: tt_get_one_def Let_def)
  next
    case (Cons it its)
    note h = seek_forward_head [OF Cons]
    show ?thesis
    proof (cases "item_key B it < ?hi")
      case False
      have "?m b = None" if "b \<le> c" for b
      proof (rule ccontr)
        assume "?m b \<noteq> None"
        then have "item_key B it \<le> makeTimeTraversalKey ?k b" using h(3) that by (simp add: tt_vers_def)
        with False makeTimeTraversalKey_end [of ?k b] show False by simp
      qed
      then show ?thesis using none g Cons False by (simp add: tt_get_one_def Let_def bytes_compare_less)
    next
      case True
      obtain b where b: "item_key B it = makeTimeTraversalKey ?k b"
        using range_versions [OF ok prefix_free u h(2,1) True] by blast
      obtain v where v: "item_value B it = Inr v" and q: "q = found (Some k) (tt_typeUrl s) v"
        using g Cons True by (auto simp: tt_get_one_def Let_def bytes_compare_less split: sum.splits)
      have "?m b = Some v" using seek_value [of it "tt_db s" False ?start, OF _ v] Cons b by (simp add: tt_vers_def)
      moreover have "b \<le> c" using h(1) b by simp
      moreover have "b' \<le> b" if "b' \<le> c" "?m b' \<noteq> None" for b'
        using h(3) [of "makeTimeTraversalKey ?k b'"] that b by (simp add: tt_vers_def)
      ultimately have "latest_at ?m c = Some v" by (rule latest_at_SomeI)
      then show ?thesis by (simp add: answer_def q)
    qed
  qed
qed

text \<open>A reverse seek that leaves the range of a key proves that the key has no version.\<close>

lemma first_out_of_range:
  assumes "tt_ok U kv s" and u: "U key" and it: "kv (tt_db s) key' \<noteq> None"
    and top: "makeTimeTraversalKey key b \<le> key'"
    and out: "\<not> (makeTimeTraversalKey key (- 1) \<le> key' \<and> key' < makeTimeTraversalKey key 0 @ [0])"
    and le: "key' \<le> makeTimeTraversalKey key 0 @ [0]"
  shows False
proof -
  have "makeTimeTraversalKey key (- 1) \<le> key'" by (rule order_trans [OF _ top]) simp
  with out le have "key' = makeTimeTraversalKey key 0 @ [0]" by simp
  then obtain k c where k: "U k" "makeTimeTraversalKey key 0 @ [0] = makeTimeTraversalKey k c"
    using assms(1) it by (auto simp: tt_ok_def)
  then have "key @ putUint64 (- 1) @ [0] = k @ putUint64 (- 1 - c)"
    by (simp add: makeTimeTraversalKey_alt)
  with prefix_freeD [OF prefix_free u k(1)] have "key = k" by blast
  with k(2) show False by (simp add: makeTimeTraversalKey_alt)
    (metis length_append length_putUint64 length_Cons n_not_Suc_n add_Suc_right list.size(3) add_0_right)
qed

lemma tt_get_first_one_answers:
  assumes ok: "tt_ok U kv s" and u: "U (Key_Bytes k)" and g: "tt_get_first_one B s (Some k) = Inr q"
  shows "q = first_answer (tt_typeUrl s) (tt_vers kv s) k"
proof -
  let ?k = "Key_Bytes k" and ?m = "tt_vers kv s (Key_Bytes k)"
  let ?lo = "makeTimeTraversalKey ?k (- 1)" and ?hi = "makeTimeTraversalKey ?k 0 @ [0]"
  have none: "q = first_answer (tt_typeUrl s) (tt_vers kv s) k"
    if "q = not_found (Some k)" "\<And>b. ?m b = None"
    using that by (simp add: first_answer_def first_version_def)
  have g': "(case iter_seek B (tt_db s) True ?hi of [] \<Rightarrow> Inr (not_found (Some k))
      | it2 # _ \<Rightarrow> if ?lo \<le> item_key B it2 \<and> item_key B it2 < ?hi
          then (case item_value B it2 of Inl e \<Rightarrow> Inl (Error e) | Inr v \<Rightarrow> Inr (found (Some k) (tt_typeUrl s) v))
          else Inr (not_found (Some k))) = Inr q"
    using g by (simp add: tt_get_first_one_def Let_def first_key_bounds bytes_compare_ge
      bytes_compare_less cong: list.case_cong)
  have e: "?hi \<noteq> []" by simp
  have le_end: "makeTimeTraversalKey ?k b \<le> ?hi" for b
    using makeTimeTraversalKey_end [of ?k b] by simp
  show ?thesis
  proof (cases "iter_seek B (tt_db s) True ?hi")
    case Nil
    have "?m b = None" for b
      using seek_reverse_Nil [OF Nil e le_end] by (simp add: tt_vers_def)
    then show ?thesis using none g' Nil by simp
  next
    case (Cons it its)
    note h = seek_reverse_head [OF Cons e]
    have top: "makeTimeTraversalKey ?k b \<le> item_key B it" if "?m b \<noteq> None" for b
      using h(3) that le_end by (simp add: tt_vers_def)
    show ?thesis
    proof (cases "?lo \<le> item_key B it \<and> item_key B it < ?hi")
      case False
      have "?m b = None" for b
        using first_out_of_range [OF ok u h(2) top False h(1)] by blast
      then show ?thesis using none g' Cons False by (auto split: if_splits)
    next
      case True
      obtain b where b: "item_key B it = makeTimeTraversalKey ?k b"
        using range_versions [OF ok prefix_free u h(2)] True by blast
      obtain v where v: "item_value B it = Inr v" and q: "q = found (Some k) (tt_typeUrl s) v"
        using g' Cons True by (auto split: sum.splits)
      have "?m b = Some v" using seek_value [of it "tt_db s" True ?hi, OF _ v] Cons b by (simp add: tt_vers_def)
      moreover have "b \<le> b'" if "?m b' \<noteq> None" for b'
        using top [OF that] b by simp
      ultimately have "first_version ?m = Some v" by (rule first_version_SomeI)
      then show ?thesis by (simp add: first_answer_def q)
    qed
  qed
qed

lemma tt_Get_answers:
  assumes "tt_ok U kv s" and "GetRequest_Keys req = map Some ks"
    and "\<forall>k\<in>set ks. U (Key_Bytes k)" and "schedule (length ks) sch"
    and "tt_Get B sch s req = Inr r"
  shows "r = read_response (tt_typeUrl s) (tt_vers kv s) (GetRequest_BlockNumber req) ks"
proof -
  let ?job = "tt_get_one B s (GetRequest_BlockNumber req)"
  obtain es where es: "fan_out (tt_numWorkers s) ''getting values from Badger'' sch
      (length ks) (\<lambda>i. ?job (map Some ks ! i)) = Inr es"
    and r: "r = response es"
    using assms(5) by (auto simp: tt_Get_def assms(2) split: sum.splits)
  have "es = map (\<lambda>k. Some (answer (tt_typeUrl s) (tt_vers kv s) (GetRequest_BlockNumber req) k)) ks"
    by (rule fan_out_answers [OF es assms(4)]) (use tt_get_one_answers [OF assms(1)] assms(3) in blast)
  then show ?thesis by (simp add: r read_response_def)
qed

lemma tt_GetFirst_answers:
  assumes "tt_ok U kv s" and "GetRequest_Keys req = map Some ks"
    and "\<forall>k\<in>set ks. U (Key_Bytes k)" and "schedule (length ks) sch"
    and "tt_GetFirst B sch s req = Inr r"
  shows "r = response (map (\<lambda>k. Some (first_answer (tt_typeUrl s) (tt_vers kv s) k)) ks)"
proof -
  let ?job = "tt_get_first_one B s"
  obtain es where es: "fan_out (tt_numWorkers s) ''badger_time_traversal GetFirst'' sch
      (length ks) (\<lambda>i. ?job (map Some ks ! i)) = Inr es"
    and r: "r = response es"
    using assms(5) by (auto simp: tt_GetFirst_def assms(2) split: sum.splits)
  have "es = map (\<lambda>k. Some (first_answer (tt_typeUrl s) (tt_vers kv s) k)) ks"
    by (rule fan_out_answers [OF es assms(4)]) (use tt_get_first_one_answers [OF assms(1)] assms(3) in blast)
  then show ?thesis by (simp add: r)
qed

end

sublocale badger_tt \<subseteq> versions: batch_store B kv txw pend "tt_ops B sched" tt_db "\<lambda>s db. s\<lparr>tt_db := db\<rparr>"
  "tt_exists B" tt_enc tt_fresh "tt_vers kv" tt_typeUrl "tt_ok U kv" U put_version
proof
  fix w req ks r
  assume "tt_ok U kv w" "GetRequest_Keys req = map Some ks" "\<forall>k\<in>set ks. U (Key_Bytes k)"
    "op_Get (tt_ops B sched) w req = Inr r"
  then show "r = read_response (tt_typeUrl w) (tt_vers kv w) (GetRequest_BlockNumber req) ks"
    using tt_Get_answers [of w req ks "sched (length ks)" r] sched by (simp add: tt_ops_def)
next
  fix w w' :: "'a tt_store" and es b k
  assume e: "kv (tt_db w') = apply_sets (map (raw (tt_enc b)) es) (kv (tt_db w))"
  then show "tt_vers kv w' k =
      (case last_write es k of None \<Rightarrow> tt_vers kv w k | Some v \<Rightarrow> put_version (tt_vers kv w k) b v)"
    by (simp add: tt_vers_after put_version_def split: option.split)
  show "tt_ok U kv w \<Longrightarrow> entries_for U es \<Longrightarrow> tt_ok U kv w'"
    using tt_ok_after [OF _ _ e] by (simp add: entries_for_def)
qed (auto simp: tt_ops_def tt_SetAll_batch tt_existence_check fresh_vers [OF _ prefix_free] put_version_def
    split: prod.split)

context badger_tt
begin

lemma contract: "kv_store (tt_ops B sched) (tt_vers kv) tt_typeUrl (tt_ok U kv) U put_version"
  by (rule versions.batch.kv_store_axioms)

end

text \<open>On a database that does not fail, every call returns: a composite key is never empty.\<close>

locale badger_tt_reliable = badger_tt + badger_reliable +
  assumes nonempty_ok: "k \<noteq> [] \<Longrightarrow> key_ok k"
begin

lemma tt_get_one_returns: "\<exists>q. tt_get_one B s c (Some k) = Inr q"
proof (cases "iter_seek B (tt_db s) False (makeTimeTraversalKey (Key_Bytes k) c)")
  case (Cons it its)
  then show ?thesis using value_total [of it] by (auto simp: tt_get_one_def Let_def)
qed (simp add: tt_get_one_def)

lemma tt_Get_returns:
  assumes "0 < tt_numWorkers s" and "GetRequest_Keys req = map Some ks" and "schedule (length ks) sch"
  shows "\<exists>r. tt_Get B sch s req = Inr r"
proof -
  let ?job = "\<lambda>i. tt_get_one B s (GetRequest_BlockNumber req) (map Some ks ! i)"
  have "?job i = Inr (projr (?job i))" if "i < length ks" for i
    using tt_get_one_returns [of s "GetRequest_BlockNumber req" "ks ! i"] that by auto
  from fan_out_ok [OF assms(1,3) this] show ?thesis
    by (simp add: tt_Get_def assms(2))
qed

lemma tt_get_first_one_returns: "\<exists>q. tt_get_first_one B s (Some k) = Inr q"
proof (cases "iter_seek B (tt_db s) True (Key_Bytes k @ replicate 8 0xFF @ [0])")
  case (Cons it its)
  then show ?thesis using value_total [of it] by (auto simp: tt_get_first_one_def Let_def)
qed (simp add: tt_get_first_one_def)

lemma tt_GetFirst_returns:
  assumes "0 < tt_numWorkers s" and "GetRequest_Keys req = map Some ks" and "schedule (length ks) sch"
  shows "\<exists>r. tt_GetFirst B sch s req = Inr r"
proof -
  let ?job = "\<lambda>i. tt_get_first_one B s (map Some ks ! i)"
  have "?job i = Inr (projr (?job i))" if "i < length ks" for i
    using tt_get_first_one_returns [of s "ks ! i"] that by auto
  from fan_out_ok [OF assms(1,3) this] show ?thesis
    by (simp add: tt_GetFirst_def assms(2))
qed

lemma tt_SetAll_returns:
  assumes "\<forall>e\<in>set es. entry_ok e"
  shows "snd (tt_SetAll B s es ine b) = Inr ()"
proof -
  have "key_ok (makeTimeTraversalKey k c)" for k c
    by (rule nonempty_ok) simp
  then have "snd (batch_set B (tt_exists B) (tt_enc b) ine es (tt_db s)) = Inr ()"
    using assms by (intro batch_set_returns) (auto simp: raw_tt_enc tt_exists_def)
  then show ?thesis by (auto simp: tt_SetAll_batch split: prod.split)
qed

end

lemma tt_SetAll_numWorkers:
  "tt_SetAll B s es ine b = (s', x) \<Longrightarrow> tt_numWorkers s' = tt_numWorkers s"
  by (auto simp: tt_SetAll_batch split: if_splits prod.splits)

sublocale badger_tt_reliable \<subseteq> total: reliable_kv_store "tt_ops B sched" "tt_vers kv"
  tt_typeUrl "\<lambda>s. tt_ok U kv s \<and> 0 < tt_numWorkers s" U put_version
proof (intro reliable_kv_store.intro reliable_kv_store_axioms.intro)
  have "kv_store (tt_ops B sched) (tt_vers kv) tt_typeUrl
      (\<lambda>s. tt_ok U kv s \<and> 0 < tt_numWorkers s) (\<lambda>k. U k \<and> True) put_version"
    by (rule versions.batch.restricted) (auto simp: tt_ops_def dest: tt_SetAll_numWorkers)
  then show "kv_store (tt_ops B sched) (tt_vers kv) tt_typeUrl
      (\<lambda>s. tt_ok U kv s \<and> 0 < tt_numWorkers s) U put_version" by simp
next
  fix w ks and req :: GetRequest
  assume "tt_ok U kv w \<and> 0 < tt_numWorkers w" and "GetRequest_Keys req = map Some ks"
  then show "\<exists>r. op_Get (tt_ops B sched) w req = Inr r"
    using tt_Get_returns [of w req ks "sched (length ks)"] sched by (simp add: tt_ops_def)
next
  fix w es ine b
  assume "entries_for U es"
  then show "snd (op_SetAll (tt_ops B sched) w es ine b) = Inr ()"
    by (simp add: tt_ops_def entries_for_def tt_SetAll_returns)
qed

text \<open>Keys of one length are prefix-free.\<close>

lemma prefix_free_length: "prefix_free (\<lambda>k. length k = n)"
  by (simp add: prefix_free_def)

interpretation mem_tt: badger_tt_reliable mem_badger map_of "\<lambda>t. t" "\<lambda>wb. wb"
    "\<lambda>n. [0..<n]" "\<lambda>k. length k = n" "\<lambda>k. k \<noteq> []" for n
  by unfold_locales (auto simp: prefix_free_length)

end
