(* ===== verification/Fork_Properties.thy ===== *)
theory Fork_Properties
  imports Fork_Refinement Badger_Time_Traversal Badger_Store
begin

text \<open>
  The properties of the fork-aware store.  They hold in front of every backend that
  fulfils the contract \<open>kv_store\<close>; the witnesses run them in front of the two Badger
  stores, and the last section has runs that show what the conditions exclude.
\<close>

section \<open>Flush\<close>

context kv_store
begin

lemma flush_view:
  assumes "fork_inv user_key s" and "map_order ord" and "ok (fs_wrapped s)" and "user_key k"
    and "\<And>b. vers (fs_wrapped s) k b \<noteq> None \<Longrightarrow> b \<le> n" and "n \<le> c"
    and "fork_FlushUpToBlock W ord s n False = (s', Inr ())"
  shows "fork_view vers s' k c = fork_view vers s k c"
proof -
  let ?m = "vers (fs_wrapped s) k"
  have new: "latest_at (put ?m n v) c = Some v" for v
    using latest_at_put(1) [of ?m n v] latest_at_put(2) [of ?m n v] assms(5)
      latest_at_gap [OF assms(6), of "put ?m n v"] by (metis linorder_not_le)
  show ?thesis
    using fork_FlushUpToBlock_cached_at [OF assms(1,2,7), of k] flush_writes [OF assms(1,2,3,7,4)] new assms(6)
    by (auto simp: fork_view_def split: option.splits)
qed

lemma failed_flush_view:
  assumes "fork_inv user_key s" and "map_order ord" and "ok (fs_wrapped s)" and "user_key k"
    and "n \<le> c" and "fork_FlushUpToBlock W ord s n ine = (s', Inl f)"
  shows "fs_cache s' = fs_cache s" and "fork_view vers s' k c = fork_view vers s k c"
proof -
  let ?es = "to_flush ord (fs_cache s) n"
  have es: "entries_for user_key ?es" by (rule to_flush_entries [OF assms(1,2)])
  obtain x where w: "op_SetAll W (fs_wrapped s) ?es ine n = (fs_wrapped s', x)"
    and c: "fs_cache s' = fs_cache s"
    using assms(6) by (auto simp: fork_FlushUpToBlock_alt split: if_splits prod.splits sum.splits)
  show "fs_cache s' = fs_cache s" by (rule c)
  have cached: "cached_at s' k = cached_at s k" by (simp add: cached_at_def c)
  show "fork_view vers s' k c = fork_view vers s k c"
  proof (cases "k \<in> entry_keys ?es")
    case True
    then obtain b v where "cached_at s k = Some (b, v)" "b \<le> n"
      using entry_keys_to_flush [OF assms(1,2)] by blast
    moreover from \<open>b \<le> n\<close> assms(5) have "b \<le> c" by (rule order_trans)
    ultimately show ?thesis using cached by (simp add: fork_view_def)
  next
    case False
    then have "vers (fs_wrapped s') k = vers (fs_wrapped s) k"
      using set_all_frame [OF assms(3) es w assms(4)] by simp
    then show ?thesis using cached by (simp add: fork_view_def split: option.split)
  qed
qed

lemma flush_any_order:
  assumes "fork_inv user_key s" and "map_order ord" and "map_order ord'" and "ok (fs_wrapped s)"
    and "fork_FlushUpToBlock W ord s n False = (s1, Inr ())"
    and "fork_FlushUpToBlock W ord' s n False = (s2, Inr ())" and "user_key k"
  shows "vers (fs_wrapped s1) k = vers (fs_wrapped s2) k" and "cached_at s1 k = cached_at s2 k"
  using flush_writes [OF assms(1,2,4,5,7)] flush_writes [OF assms(1,3,4,6,7)]
    fork_FlushUpToBlock_cached_at [OF assms(1,2,5)] fork_FlushUpToBlock_cached_at [OF assms(1,3,6)]
  by simp_all

end

section \<open>Writes\<close>

context kv_store
begin

text \<open>A \<open>SetAll\<close> above the final block only caches.\<close>

lemma fork_SetAll_above:
  assumes "ok (fs_wrapped s)" and "entries_for user_key es" and "fs_flushUpToBlock s < b"
    and "fork_SetAll W s es ine b = (s', Inr ())"
  shows "s' = s\<lparr>fs_cache := fork_cache_all b (chosen vers s ine b es) (fs_cache s)\<rparr>"
  using assms(1,2,4) by (cases rule: fork_SetAll_cases) (use assms(3) in auto)

lemma fork_SetAll_inv:
  assumes "ok (fs_wrapped s)" and "entries_for user_key es" and "fork_inv user_key s"
    and "fork_SetAll W s es ine b = (s', r)"
  shows "fork_inv user_key s' \<and> ok (fs_wrapped s')"
  using assms(1,2,4)
proof (cases rule: fork_SetAll_cases)
  case (nothing_set f)
  then show ?thesis using assms by simp
next
  case cached
  then show ?thesis using assms(1) fork_cache_all_inv [OF assms(3) entries_for_chosen [OF assms(2)]] by simp
next
  case (written w x)
  have "fork_inv user_key (s\<lparr>fs_cache := fork_cache_all b (chosen vers s ine b es) (fs_cache s)\<rparr>)"
    by (rule fork_cache_all_inv [OF assms(3) entries_for_chosen [OF assms(2)]])
  then show ?thesis
    using set_all_ok [OF assms(1) entries_for_chosen [OF assms(2)] written(2)] by (simp add: fork_inv_def written(1))
qed

lemma own_writes_cached:
  assumes "ok (fs_wrapped s)" and "entries_for user_key es"
    and "fork_SetAll W s es False b = (s', Inr ())" and "last_write es k = Some v"
  shows "cached_at s' k = Some (b, v)"
  using assms(1-3)
proof (cases rule: fork_SetAll_cases)
  case cached
  then show ?thesis using assms(4) by (simp add: cached_at_fork_cache_all)
next
  case (written w x)
  have "cached_at s' k = cached_at (s\<lparr>fs_cache := fork_cache_all b es (fs_cache s)\<rparr>) k"
    by (simp add: written(1) cached_at_def)
  then show ?thesis using assms(4) by (simp add: cached_at_fork_cache_all)
qed simp

lemma own_writes_view:
  assumes "ok (fs_wrapped s)" and "entries_for user_key es"
    and "fork_SetAll W s es False b = (s', Inr ())" and "last_write es k = Some v" and "b \<le> c"
  shows "fork_view vers s' k c = Some v"
  using own_writes_cached [OF assms(1-4)] assms(5) by (simp add: fork_view_def)

lemma if_not_exist_view:
  assumes "ok (fs_wrapped s)" and "entries_for user_key es"
    and "fork_SetAll W s es True b = (s', r)" and "user_key k"
    and "cached_at s k \<noteq> None \<or> latest_at (vers (fs_wrapped s) k) b \<noteq> None"
  shows "fork_view vers s' k c = fork_view vers s k c"
proof -
  have n: "last_write (chosen vers s True b es) k = None"
    using assms(5) by (auto simp: last_write_chosen)
  then have k: "k \<notin> entry_keys (chosen vers s True b es)" by (simp add: last_write_None_iff)
  from assms(1-3) show ?thesis
  proof (cases rule: fork_SetAll_cases)
    case cached
    then show ?thesis using n by (simp add: fork_view_def cached_at_fork_cache_all split: option.split)
  next
    case (written w x)
    have "cached_at s' k = cached_at (s\<lparr>fs_cache := fork_cache_all b (chosen vers s True b es) (fs_cache s)\<rparr>) k"
      by (simp add: written(1) cached_at_def)
    then have "cached_at s' k = cached_at s k" using n by (simp add: cached_at_fork_cache_all)
    moreover have "vers w k = vers (fs_wrapped s) k"
      by (rule set_all_frame [OF assms(1) entries_for_chosen [OF assms(2)] written(2) assms(4) k])
    ultimately show ?thesis by (simp add: fork_view_def written(1) split: option.split)
  qed simp
qed

end

section \<open>Speculative blocks\<close>

context kv_store
begin

lemma set_keeps_low:
  assumes "ok (fs_wrapped s)" and "entries_for user_key es" and "fs_flushUpToBlock s < b" and "n \<le> b"
    and "\<forall>k\<in>entry_keys es. \<forall>b v. cached_at s k = Some (b, v) \<longrightarrow> n \<le> b"
    and "fork_inv user_key s" and "fork_SetAll W s es ine b = (s', Inr ())"
  shows "fs_wrapped s' = fs_wrapped s" and "fs_flushUpToBlock s' = fs_flushUpToBlock s"
    and "fork_inv user_key s'"
    and "\<And>k v. cached_at s' k \<noteq> cached_at s k \<Longrightarrow>
      (\<forall>b v. cached_at s k = Some (b, v) \<longrightarrow> n \<le> b) \<and> (\<forall>b v. cached_at s' k = Some (b, v) \<longrightarrow> n \<le> b)"
proof -
  let ?es = "chosen vers s ine b es"
  have s': "s' = s\<lparr>fs_cache := fork_cache_all b ?es (fs_cache s)\<rparr>"
    by (rule fork_SetAll_above [OF assms(1-3,7)])
  show "fs_wrapped s' = fs_wrapped s" "fs_flushUpToBlock s' = fs_flushUpToBlock s" by (simp_all add: s')
  show "fork_inv user_key s'" unfolding s' by (rule fork_cache_all_inv [OF assms(6) entries_for_chosen [OF assms(2)]])
  fix k v
  assume ne: "cached_at s' k \<noteq> cached_at s k"
  have C: "cached_at s' k = (case last_write ?es k of None \<Rightarrow> cached_at s k | Some v \<Rightarrow> Some (b, v))"
    by (simp add: s' cached_at_fork_cache_all)
  then obtain v where v: "last_write ?es k = Some v" using ne by (cases "last_write ?es k") auto
  then have "(k, v) \<in> set (map entry_kv es)" using last_write_in [OF v] by (auto simp: chosen_def)
  then have "k \<in> entry_keys es" using entry_keys_iff by blast
  then show "(\<forall>b v. cached_at s k = Some (b, v) \<longrightarrow> n \<le> b) \<and> (\<forall>b v. cached_at s' k = Some (b, v) \<longrightarrow> n \<le> b)"
    using C v assms(4,5) by auto
qed

end

text \<open>The blocks of a list: entries, their \<open>IfNotExist\<close> flag and their number.\<close>

fun set_ops :: "(Entry option list \<times> bool \<times> u64) list \<Rightarrow> fork_op list" where
  "set_ops [] = []"
| "set_ops ((es, ine, b) # bs) = SetAllOp es ine b # set_ops bs"

definition speculative :: "(bytes \<Rightarrow> bool) \<Rightarrow> 'w fork_store \<Rightarrow> u64 \<Rightarrow>
    (Entry option list \<times> bool \<times> u64) list \<Rightarrow> bool" where
  "speculative U s n bs \<longleftrightarrow>
     (\<forall>(es, ine, b)\<in>set bs. entries_for U es \<and> fs_flushUpToBlock s < b \<and> n \<le> b \<and>
        (\<forall>k\<in>entry_keys es. \<forall>b v. cached_at s k = Some (b, v) \<longrightarrow> n \<le> b))"

context kv_store
begin

lemma speculative_run:
  assumes "ok (fs_wrapped s)" and "fork_inv user_key s" and "speculative user_key s n bs"
    and "fork_run W ord (set_ops bs) s = (s', Inr ())"
  shows "fs_wrapped s' = fs_wrapped s \<and> fork_inv user_key s' \<and>
    (\<forall>k. cached_at s' k \<noteq> cached_at s k \<longrightarrow>
      (\<forall>b v. cached_at s k = Some (b, v) \<longrightarrow> n \<le> b) \<and> (\<forall>b v. cached_at s' k = Some (b, v) \<longrightarrow> n \<le> b))"
  using assms
proof (induction bs arbitrary: s rule: set_ops.induct)
  case (2 es ine b bs)
  obtain s1 where s1: "fork_SetAll W s es ine b = (s1, Inr ())"
    and r: "fork_run W ord (set_ops bs) s1 = (s', Inr ())"
    using "2.prems"(4) by (auto split: prod.splits sum.splits)
  have h: "entries_for user_key es" "fs_flushUpToBlock s < b" "n \<le> b"
    "\<forall>k\<in>entry_keys es. \<forall>b v. cached_at s k = Some (b, v) \<longrightarrow> n \<le> b"
    using "2.prems"(3) by (auto simp: speculative_def)
  note L = set_keeps_low [OF "2.prems"(1) h "2.prems"(2) s1]
  have spec: "speculative user_key s1 n bs"
    unfolding speculative_def
  proof (clarify, intro conjI)
    fix es' ine' b'
    assume "(es', ine', b') \<in> set bs"
    then have g: "entries_for user_key es'" "fs_flushUpToBlock s < b'" "n \<le> b'"
      "\<forall>k\<in>entry_keys es'. \<forall>b v. cached_at s k = Some (b, v) \<longrightarrow> n \<le> b"
      using "2.prems"(3) by (auto simp: speculative_def)
    show "entries_for user_key es'" "fs_flushUpToBlock s1 < b'" "n \<le> b'" using g L(2) by simp_all
    show "\<forall>k\<in>entry_keys es'. \<forall>b v. cached_at s1 k = Some (b, v) \<longrightarrow> n \<le> b"
      using g(4) L(4) by metis
  qed
  have "fs_wrapped s' = fs_wrapped s1 \<and> fork_inv user_key s' \<and>
    (\<forall>k. cached_at s' k \<noteq> cached_at s1 k \<longrightarrow>
      (\<forall>b v. cached_at s1 k = Some (b, v) \<longrightarrow> n \<le> b) \<and> (\<forall>b v. cached_at s' k = Some (b, v) \<longrightarrow> n \<le> b))"
    by (rule "2.IH" [OF _ L(3) spec r]) (simp add: L(1) "2.prems"(1))
  then show ?case using L(1,4) by metis
qed simp

lemma speculative_evict:
  assumes "ok (fs_wrapped s)" and "fork_inv user_key s" and "speculative user_key s n bs"
    and "fork_run W ord (set_ops bs @ [EvictOp n]) s = (s', Inr ())"
    and "fork_EvictUpToBlock s n = (s0, r)"
  shows "fork_view vers s' k c = fork_view vers s0 k c"
proof -
  have app: "fork_run W ord (xs @ ys) s = (s2, Inr ()) \<Longrightarrow>
      \<exists>s1. fork_run W ord xs s = (s1, Inr ()) \<and> fork_run W ord ys s1 = (s2, Inr ())" for xs ys s s2
    by (induction xs arbitrary: s) (auto split: prod.splits sum.splits)
  obtain s1 where s1: "fork_run W ord (set_ops bs) s = (s1, Inr ())"
    and e1: "fork_run W ord [EvictOp n] s1 = (s', Inr ())"
    using app [OF assms(4)] by blast
  have e: "fork_EvictUpToBlock s1 n = (s', Inr ())"
    using e1 fork_EvictUpToBlock_frame(3) by (cases "fork_EvictUpToBlock s1 n") (auto split: sum.splits)
  note S = speculative_run [OF assms(1-3) s1]
  note E = fork_EvictUpToBlock_cached_at [OF _ e, of user_key k] fork_EvictUpToBlock_cached_at [OF assms(2,5), of k]
  have i: "fork_inv user_key s1" using S by blast
  have "cached_at s' k = cached_at s0 k"
  proof (cases "cached_at s1 k = cached_at s k")
    case True
    then show ?thesis using E(1) [OF i] E(2) by simp
  next
    case False
    then have "(\<forall>b v. cached_at s k = Some (b, v) \<longrightarrow> n \<le> b) \<and> (\<forall>b v. cached_at s1 k = Some (b, v) \<longrightarrow> n \<le> b)"
      using S by blast
    then show ?thesis using E(1) [OF i] E(2) by (auto split: option.splits)
  qed
  moreover have "fs_wrapped s' = fs_wrapped s0"
    using fork_EvictUpToBlock_frame(1) [OF e] fork_EvictUpToBlock_frame(1) [OF assms(5)] S by simp
  ultimately show ?thesis by (simp add: fork_view_def split: option.split)
qed

end

section \<open>Finality\<close>

text \<open>
  Any use of the store in which the blocks of the flushes do not decrease, failures of
  the wrapped store included; \<open>f\<close> is the highest block that was final so far.
\<close>

inductive fork_reach :: "('w, 'x) store_ops_scheme \<Rightarrow>
    ((bytes \<times> cachedEntry) list \<Rightarrow> (bytes \<times> cachedEntry) list) \<Rightarrow> (bytes \<Rightarrow> bool) \<Rightarrow> 'w \<Rightarrow> u64 \<Rightarrow>
    'w fork_store \<Rightarrow> u64 \<Rightarrow> bool"
  for W ord U w f0 where
  reach_new: "fork_reach W ord U w f0 (fork_NewStore w) f0"
| reach_set: "fork_reach W ord U w f0 s f \<Longrightarrow> entries_for U es \<Longrightarrow>
    fork_SetAll W s es ine b = (s', r) \<Longrightarrow> fork_reach W ord U w f0 s' f"
| reach_flush: "fork_reach W ord U w f0 s f \<Longrightarrow> f \<le> n \<Longrightarrow>
    fork_FlushUpToBlock W ord s n ine = (s', r) \<Longrightarrow> fork_reach W ord U w f0 s' n"
| reach_evict: "fork_reach W ord U w f0 s f \<Longrightarrow>
    fork_EvictUpToBlock s n = (s', r) \<Longrightarrow> fork_reach W ord U w f0 s' f"

context kv_store
begin

lemma flush_adds:
  assumes "fork_inv user_key s" and "map_order ord" and "ok (fs_wrapped s)"
    and "fork_FlushUpToBlock W ord s n ine = (s', r)"
  shows "ok (fs_wrapped s')"
    and "user_key k \<Longrightarrow> vers (fs_wrapped s') k b \<noteq> None \<Longrightarrow> b = n \<or> vers (fs_wrapped s) k b \<noteq> None"
proof -
  let ?es = "to_flush ord (fs_cache s) n"
  have es: "entries_for user_key ?es" by (rule to_flush_entries [OF assms(1,2)])
  have "ok (fs_wrapped s') \<and> (user_key k \<longrightarrow> vers (fs_wrapped s') k b \<noteq> None \<longrightarrow> b = n \<or> vers (fs_wrapped s) k b \<noteq> None)"
  proof (cases "fs_wrapped s' = fs_wrapped s")
    case False
    then obtain x where x: "op_SetAll W (fs_wrapped s) ?es ine n = (fs_wrapped s', x)"
      using assms(4) by (auto simp: fork_FlushUpToBlock_alt split: if_splits prod.splits sum.splits)
    from set_all_ok [OF assms(3) es x] set_all_adds [OF assms(3) es x] show ?thesis by blast
  qed (use assms(3) in simp)
  then show "ok (fs_wrapped s')"
    and "user_key k \<Longrightarrow> vers (fs_wrapped s') k b \<noteq> None \<Longrightarrow> b = n \<or> vers (fs_wrapped s) k b \<noteq> None"
    by blast+
qed

lemma fork_reach_final:
  assumes "fork_reach W ord user_key w f0 s f" and "ok w" and "map_order ord"
    and "\<forall>k b. user_key k \<longrightarrow> vers w k b \<noteq> None \<longrightarrow> b \<le> f0"
  shows "fork_inv user_key s \<and> ok (fs_wrapped s) \<and> fs_flushUpToBlock s \<le> f \<and>
    (\<forall>k b. user_key k \<longrightarrow> vers (fs_wrapped s) k b \<noteq> None \<longrightarrow> b \<le> f)"
  using assms(1)
proof (induction rule: fork_reach.induct)
  case reach_new
  then show ?case using assms(2,4) fork_NewStore_inv [of user_key w] by (simp add: fork_NewStore_def)
next
  case (reach_set s f es ine b s' r)
  then have ok: "ok (fs_wrapped s)" and i: "fork_inv user_key s" by auto
  note ch = entries_for_chosen [OF reach_set.hyps(2)]
  from ok reach_set.hyps(2,3) show ?case
  proof (cases rule: fork_SetAll_cases)
    case (nothing_set g)
    then show ?thesis using reach_set.IH by simp
  next
    case cached
    then show ?thesis using reach_set.IH fork_cache_all_inv [OF i ch] by simp
  next
    case (written w' x)
    have "fork_inv user_key s'"
      using fork_SetAll_inv [OF ok reach_set.hyps(2) i reach_set.hyps(3)] by simp
    moreover have "b' \<le> f" if "user_key k" "vers w' k b' \<noteq> None" for k b'
      using set_all_adds [OF ok ch written(2) that] written(3) reach_set.IH that(1) by (meson order_trans)
    ultimately show ?thesis
      using set_all_ok [OF ok ch written(2)] reach_set.IH written(1) by simp
  qed
next
  case (reach_flush s f n ine s' r)
  then have i: "fork_inv user_key s" and ok: "ok (fs_wrapped s)" by auto
  note A = flush_adds [OF i assms(3) ok reach_flush.hyps(3)]
  have "b \<le> n" if "user_key k" "vers (fs_wrapped s') k b \<noteq> None" for k b
    using A(2) [OF that] reach_flush.IH reach_flush.hyps(2) that(1) by (meson order.trans order_refl)
  then show ?case
    using A(1) fork_FlushUpToBlock_inv [OF i reach_flush.hyps(3)] fork_FlushUpToBlock_lib [OF reach_flush.hyps(3)]
    by simp
next
  case (reach_evict s f n s' r)
  then show ?case
    using fork_EvictUpToBlock_frame [OF reach_evict.hyps(2)] fork_EvictUpToBlock_inv [OF _ reach_evict.hyps(2)]
    by simp
qed

end

section \<open>Instances for the witnesses\<close>

text \<open>An empty time-traversal store in memory, for keys of one byte.\<close>

abbreviation mem_tt_ops :: "mem_db tt_store store_ops" where
  "mem_tt_ops \<equiv> tt_ops mem_badger (\<lambda>n. [0..<n])"

definition mem_tt_store :: "mem_db tt_store" where
  "mem_tt_store = \<lparr>tt_db = [], tt_typeUrl = ''t'', tt_numWorkers = 2\<rparr>"

abbreviation mem_tt_ok :: "mem_db tt_store \<Rightarrow> bool" where
  "mem_tt_ok \<equiv> \<lambda>s. tt_ok (\<lambda>k. length k = 1) map_of s \<and> 0 < tt_numWorkers s"

lemmas mem_tt_contract = mem_tt.total.reliable_kv_store_axioms [of 1]
lemmas mem_tt_kv = mem_tt.total.kv_store_axioms [of 1]

lemma mem_tt_store_ok: "mem_tt_ok mem_tt_store"
  by (simp add: tt_ok_def mem_tt_store_def)

lemma mem_tt_store_vers [simp]: "tt_vers map_of mem_tt_store k = (\<lambda>_. None)"
  by (simp add: tt_vers_def mem_tt_store_def)

definition sample_key :: Key where
  "sample_key = \<lparr>Key_Bytes = [1]\<rparr>"

definition sample_request :: "u64 \<Rightarrow> GetRequest" where
  "sample_request c = \<lparr>GetRequest_BlockNumber = c, GetRequest_BlockHash = [], GetRequest_Keys = [Some sample_key]\<rparr>"

lemma sample_request_simps [simp]:
  "GetRequest_Keys (sample_request c) = map Some [sample_key]"
  "GetRequest_BlockNumber (sample_request c) = c" "Key_Bytes sample_key = [1]"
  by (simp_all add: sample_request_def sample_key_def)

definition sample_entry :: "byte \<Rightarrow> Entry option" where
  "sample_entry v = mk_entry [1] ''t'' [v]"

lemma sample_entry_simps [simp]:
  "entry_kv (sample_entry v) = ([1], [v])" "entry_ok (sample_entry v)"
  by (simp_all add: sample_entry_def)

lemma sample_entries [simp]:
  "entries_for (\<lambda>k. length k = 1) [sample_entry v]" "entry_keys [sample_entry v] = {[1]}"
  "last_write [sample_entry v] = [[1] \<mapsto> [v]]"
  by (simp_all add: entry_keys_def last_write_def)

text \<open>A fork-aware store with one cached entry, of block 5.\<close>

definition sample_fork :: "mem_db tt_store fork_store" where
  "sample_fork = \<lparr>fs_wrapped = mem_tt_store,
     fs_cache = [([1], \<lparr>ce_entry = sample_entry 7, ce_blockNumber = 5\<rparr>)], fs_flushUpToBlock = 2\<rparr>"

lemma sample_fork_simps [simp]:
  "fs_wrapped sample_fork = mem_tt_store" "fs_flushUpToBlock sample_fork = 2"
  "cached_at sample_fork k = (if k = [1] then Some (5, [7]) else None)"
  by (auto simp: sample_fork_def cached_at_def)

lemma sample_fork_inv: "fork_inv (\<lambda>k. length k = 1) sample_fork"
  by (simp add: fork_inv_def sample_fork_def)

section \<open>The properties\<close>

text \<open>C1: the fork-aware store refines a chain of blocks.  On a backend that does not fail,
  every run of \<open>SetAll\<close>, \<open>FlushUpToBlock\<close> and \<open>EvictUpToBlock\<close> that the specification
  allows returns, from a store just opened, and an exact read returns for every key the
  version that the specification has there: what the blocks of the chain wrote, without
  those that were undone.  A read is exact from the last final block on, and for a key that
  several blocks above it have written, from the last of these blocks on.\<close>

theorem fork_store_refines_chain:
  assumes "reliable_kv_store W vers turl ok U put" and "ok w" and "map_order ord"
    and "\<forall>k b. U k \<longrightarrow> vers w k b \<noteq> None \<longrightarrow> b \<le> f"
    and "spec_allows_run U ops \<lparr>sp_versions = vers w, sp_final = f, sp_exact = (\<lambda>_. 0)\<rparr>"
    and "A = spec_run ops \<lparr>sp_versions = vers w, sp_final = f, sp_exact = (\<lambda>_. 0)\<rparr>"
    and "GetRequest_Keys req = map Some ks" and "\<forall>k\<in>set ks. U (Key_Bytes k)"
    and "\<forall>k\<in>set ks. reads_exactly A (GetRequest_BlockNumber req) (Key_Bytes k)"
  shows "\<exists>s r. fork_run W ord ops (fork_NewStore w) = (s, Inr ()) \<and> fork_Get W s req = Inr r \<and>
    map answer_value (QueriedEntries_GetEntries (GetResponse_Entries r)) =
    map (\<lambda>k. latest_at (sp_versions A (Key_Bytes k)) (GetRequest_BlockNumber req)) ks"
  using reliable_kv_store.run_reads_total [OF assms(1-4) refl assms(5,7,8)] assms(9)
  unfolding assms(6) by blast

text \<open>The witness overwrites a version that is not final, and undoes a later block.\<close>

definition sample_run :: "fork_op list" where
  "sample_run = [SetAllOp [sample_entry 7] False 5, SetAllOp [sample_entry 8] False 6, FlushOp 6 False,
     SetAllOp [sample_entry 9] False 7, EvictOp 7]"

lemma last_write_sample [simp]: "last_write [sample_entry v] k = (if k = [1] then Some [v] else None)"
  by (simp add: last_write_def)

theorem fork_store_refines_chain_witness:
  "\<exists>s r. fork_run mem_tt_ops rev sample_run (fork_NewStore mem_tt_store) = (s, Inr ()) \<and>
     fork_Get mem_tt_ops s (sample_request 6) = Inr r \<and>
     map answer_value (QueriedEntries_GetEntries (GetResponse_Entries r)) = [Some [8]]"
proof -
  let ?A = "spec_run sample_run \<lparr>sp_versions = tt_vers map_of mem_tt_store, sp_final = 0, sp_exact = (\<lambda>_. 0)\<rparr>"
  have V: "sp_versions ?A [1] = [5 \<mapsto> [7], 6 \<mapsto> [8]]" and f: "sp_final ?A = 6"
    by (auto simp: sample_run_def spec_writes_def fun_eq_iff)
  have "latest_at (sp_versions ?A [1]) 6 = Some [8]" unfolding V by (rule latest_at_upd_top) (auto split: if_splits)
  moreover have "sp_exact ?A [1] = 6"
    by (auto simp: sample_run_def spec_writes_def spec_hides_def intro: exI [of _ 5])
  moreover have "spec_allows_run (\<lambda>k. length k = 1) sample_run
      \<lparr>sp_versions = tt_vers map_of mem_tt_store, sp_final = 0, sp_exact = (\<lambda>_. 0)\<rparr>"
    by (auto simp: sample_run_def spec_writes_def spec_hides_def)
  ultimately show ?thesis
    using fork_store_refines_chain [OF mem_tt_contract mem_tt_store_ok, where ord = rev and f = 0
      and ops = sample_run and A = ?A and req = "sample_request 6" and ks = "[sample_key]"] f
    by (simp add: reads_exactly_def)
qed

text \<open>A block of an empty chain, as the witnesses of the services run it.\<close>

lemma sample_block:
  fixes X :: chain_spec
  defines "A \<equiv> spec_run [SetAllOp [sample_entry 7] False 5, FlushOp 3 False] X"
  assumes "sp_versions X [1] = (\<lambda>_. None)" and "sp_exact X [1] = 0"
  shows "latest_at (sp_versions A [1]) 5 = Some [7]" and "reads_exactly A 5 [1]"
  using assms by (auto simp: spec_writes_def spec_hides_def reads_exactly_def)

text \<open>Each operation simulates the one of the specification: whenever it returns without
  an error, the state that it leaves represents the next state of the specification.\<close>

theorem fork_step_simulates:
  assumes "kv_store W vers turl ok U put" and "represents U vers s A" and "ok (fs_wrapped s)"
    and "map_order ord" and "spec_allows U op A" and "fork_step W ord op s = (s', Inr ())"
  shows "represents U vers s' (spec_step op A) \<and> ok (fs_wrapped s')"
  by (rule kv_store.represents_step [OF assms])

theorem fork_step_simulates_witness:
  "represents (\<lambda>k. length k = 1) (tt_vers map_of)
     (fst (fork_step mem_tt_ops rev (SetAllOp [sample_entry 7] False 5) (fork_NewStore mem_tt_store)))
     (spec_step (SetAllOp [sample_entry 7] False 5) \<lparr>sp_versions = tt_vers map_of mem_tt_store, sp_final = 0, sp_exact = (\<lambda>_. 0)\<rparr>)"
proof -
  let ?s = "fork_NewStore mem_tt_store" and ?op = "SetAllOp [sample_entry 7] False 5"
  let ?A = "\<lparr>sp_versions = tt_vers map_of mem_tt_store, sp_final = 0, sp_exact = (\<lambda>_. 0)\<rparr>"
  have r: "represents (\<lambda>k. length k = 1) (tt_vers map_of) ?s ?A"
    by (rule represents_NewStore) simp
  have ok: "mem_tt_ok (fs_wrapped ?s)" using mem_tt_store_ok by (simp add: fork_NewStore_def)
  obtain s' where s': "fork_step mem_tt_ops rev ?op ?s = (s', Inr ())"
    using reliable_kv_store.fork_SetAll_returns [OF mem_tt_contract, of ?s "[sample_entry 7]" False 5] ok
    by (cases "fork_step mem_tt_ops rev ?op ?s") (auto simp: fork_NewStore_def)
  show ?thesis
    using fork_step_simulates [OF mem_tt_kv r ok _ _ s'] s' by simp
qed



text \<open>A flush that succeeds does not change what is read at or above its block.\<close>

theorem flush_preserves_reads:
  assumes "kv_store W vers turl ok U put" and "fork_inv U s" and "map_order ord"
    and "ok (fs_wrapped s)" and "U k" and "\<forall>b. vers (fs_wrapped s) k b \<noteq> None \<longrightarrow> b \<le> n" and "n \<le> c"
    and "fork_FlushUpToBlock W ord s n False = (s', Inr ())"
  shows "fork_view vers s' k c = fork_view vers s k c"
  by (rule kv_store.flush_view [OF assms(1-5) _ assms(7,8)]) (use assms(6) in blast)

theorem flush_preserves_reads_witness:
  "fork_view (tt_vers map_of) (fst (fork_FlushUpToBlock mem_tt_ops rev sample_fork 6 False)) [1] 6 = Some [7]"
proof -
  obtain s' where s': "fork_FlushUpToBlock mem_tt_ops rev sample_fork 6 False = (s', Inr ())"
    using reliable_kv_store.fork_FlushUpToBlock_returns [OF mem_tt_contract sample_fork_inv,
        where ord = rev and n = 6 and ine = False] mem_tt_store_ok
    by (cases "fork_FlushUpToBlock mem_tt_ops rev sample_fork 6 False") auto
  have "fork_view (tt_vers map_of) s' [1] 6 = fork_view (tt_vers map_of) sample_fork [1] 6"
    by (rule flush_preserves_reads [OF mem_tt_kv sample_fork_inv, where n = 6 and ord = rev])
      (use mem_tt_store_ok s' in simp_all)
  then show ?thesis by (simp add: s' fork_view_def)
qed

text \<open>C34: a flush that fails loses nothing: the cache is as before, and so is what is read
  at or above the block of the flush.\<close>

theorem failed_flush_loses_nothing:
  assumes "kv_store W vers turl ok U put" and "fork_inv U s" and "map_order ord"
    and "ok (fs_wrapped s)" and "U k" and "n \<le> c"
    and "fork_FlushUpToBlock W ord s n ine = (s', Inl f)"
  shows "fs_cache s' = fs_cache s \<and> fork_view vers s' k c = fork_view vers s k c"
  using kv_store.failed_flush_view [OF assms] by simp

text \<open>A contract-abiding store whose writes fail, for the witness.\<close>

definition failing_ops :: "unit store_ops" where
  "failing_ops =
     \<lparr>op_SetAll = (\<lambda>w es ine b. (w, if es = [] then Inr () else Inl (Error (Err ''disk full'')))),
      op_Get = (\<lambda>w req. Inl (Error (Err ''disk failure''))),
      op_GetFirst = (\<lambda>w req. Inl (Error (Err ''disk failure'')))\<rparr>"

lemma failing_kv: "kv_store failing_ops (\<lambda>w k b. None) (\<lambda>w. ''t'') (\<lambda>w. True) (\<lambda>k. length k = 1) put_version"
  by unfold_locales (auto simp: failing_ops_def put_version_def last_write_def entry_keys_def split: if_splits)

theorem failed_flush_loses_nothing_witness:
  "let s = \<lparr>fs_wrapped = (), fs_cache = fs_cache sample_fork, fs_flushUpToBlock = 2\<rparr>;
       s' = fst (fork_FlushUpToBlock failing_ops rev s 6 False)
   in fs_cache s' = fs_cache s \<and>
      fork_view (\<lambda>w k b. None) s' [1] 6 = fork_view (\<lambda>w k b. None) s [1] 6"
proof -
  let ?s = "\<lparr>fs_wrapped = (), fs_cache = fs_cache sample_fork, fs_flushUpToBlock = 2\<rparr>"
  obtain s' f where s': "fork_FlushUpToBlock failing_ops rev ?s 6 False = (s', Inl f)"
    by (simp add: fork_FlushUpToBlock_def sample_fork_def failing_ops_def Let_def)
  have i: "fork_inv (\<lambda>k. length k = 1) ?s" using sample_fork_inv by (simp add: fork_inv_def)
  show ?thesis
    using failed_flush_loses_nothing [OF failing_kv i _ _ _ _ s', where k = "[1]" and c = 6] s' by simp
qed

text \<open>The order in which the flush ranges over the Go map does not matter: two flushes of
  one state leave the same versions in the wrapped store and the same cache.\<close>

theorem flush_order_irrelevant:
  assumes "kv_store W vers turl ok U put" and "fork_inv U s" and "map_order ord" and "map_order ord'"
    and "ok (fs_wrapped s)" and "fork_FlushUpToBlock W ord s n False = (s1, Inr ())"
    and "fork_FlushUpToBlock W ord' s n False = (s2, Inr ())" and "U k"
  shows "vers (fs_wrapped s1) k = vers (fs_wrapped s2) k \<and> cached_at s1 k = cached_at s2 k"
  using kv_store.flush_any_order [OF assms] by simp

theorem flush_order_irrelevant_witness:
  "tt_vers map_of (fs_wrapped (fst (fork_FlushUpToBlock mem_tt_ops rev sample_fork 6 False))) [1] =
   tt_vers map_of (fs_wrapped (fst (fork_FlushUpToBlock mem_tt_ops (\<lambda>m. m) sample_fork 6 False))) [1]"
proof -
  have r: "\<exists>s'. fork_FlushUpToBlock mem_tt_ops ord sample_fork 6 False = (s', Inr ())"
    if "map_order ord" for ord
    using reliable_kv_store.fork_FlushUpToBlock_returns [OF mem_tt_contract sample_fork_inv _ that,
        where n = 6 and ine = False] mem_tt_store_ok
    by (cases "fork_FlushUpToBlock mem_tt_ops ord sample_fork 6 False") auto
  obtain s1 where s1: "fork_FlushUpToBlock mem_tt_ops rev sample_fork 6 False = (s1, Inr ())"
    using r [of rev] by auto
  obtain s2 where s2: "fork_FlushUpToBlock mem_tt_ops (\<lambda>m. m) sample_fork 6 False = (s2, Inr ())"
    using r [of "\<lambda>m. m"] by auto
  show ?thesis
    using flush_order_irrelevant [OF mem_tt_kv sample_fork_inv _ _ _ s1 s2, where k = "[1]"]
      mem_tt_store_ok s1 s2 by simp
qed

text \<open>Blocks that are undone leave no trace.  After any blocks at or above \<open>n\<close> whose keys
  have no cached entry of an earlier block, \<open>EvictUpToBlock n\<close> leaves the store as it would
  have left it without them, for every read.\<close>

theorem undone_blocks_leave_no_trace:
  assumes "kv_store W vers turl ok U put" and "ok (fs_wrapped s)" and "fork_inv U s"
    and "speculative U s n bs" and "fork_run W ord (set_ops bs @ [EvictOp n]) s = (s', Inr ())"
    and "fork_EvictUpToBlock s n = (s0, r)"
  shows "fork_view vers s' k c = fork_view vers s0 k c"
  by (rule kv_store.speculative_evict [OF assms])

theorem undone_blocks_leave_no_trace_witness:
  "\<exists>s'. fork_run mem_tt_ops rev (set_ops [([sample_entry 8], False, 6), ([sample_entry 9], False, 7)] @ [EvictOp 6])
      (fork_NewStore mem_tt_store) = (s', Inr ()) \<and> fork_view (tt_vers map_of) s' [1] 7 = None"
proof -
  let ?s = "fork_NewStore mem_tt_store" and ?bs = "[([sample_entry 8], False, 6), ([sample_entry 9], False, 7)]"
  let ?ops = "set_ops ?bs @ [EvictOp 6]"
  have s: "fs_wrapped ?s = mem_tt_store" "fs_flushUpToBlock ?s = 0" "fs_cache ?s = []"
    by (simp_all add: fork_NewStore_def)
  obtain s' where s': "fork_run mem_tt_ops rev ?ops ?s = (s', Inr ())"
    by (simp add: fork_SetAll_def s entry_ok_key Let_def fork_EvictUpToBlock_def)
  obtain s0 r where e: "fork_EvictUpToBlock ?s 6 = (s0, r)" by (cases "fork_EvictUpToBlock ?s 6")
  have "speculative (\<lambda>k. length k = 1) ?s 6 ?bs"
    by (simp add: speculative_def s)
  then have "fork_view (tt_vers map_of) s' [1] 7 = fork_view (tt_vers map_of) s0 [1] 7"
    using undone_blocks_leave_no_trace [OF mem_tt_kv _ fork_NewStore_inv _ s' e, where k = "[1]" and c = 7]
      mem_tt_store_ok s(1) by simp
  also have "\<dots> = None"
    using fork_EvictUpToBlock_frame(1) [OF e] fork_EvictUpToBlock_cached_at [OF fork_NewStore_inv e]
    by (simp add: fork_view_def s)
  finally show ?thesis using s' by blast
qed

text \<open>\<open>Get\<close> overlays the cache.  On a backend that does not fail it returns one answer per
  requested key, in order: the cached entry of the key, if its block is not above the
  requested one, otherwise the answer of the wrapped store.\<close>

theorem fork_Get_functional:
  assumes "reliable_kv_store W vers turl ok U put" and "ok (fs_wrapped s)"
    and "GetRequest_Keys req = map Some ks" and "\<forall>k\<in>set ks. U (Key_Bytes k)"
  shows "fork_Get W s req = Inr (response (map (\<lambda>k.
    case map_of (fs_cache s) (Key_Bytes k) of
      Some cached \<Rightarrow>
        if ce_blockNumber cached \<le> GetRequest_BlockNumber req
        then Some \<lparr>QueriedEntry_Code = RESPONSE_CODE_FOUND, QueriedEntry_Entry = ce_entry cached\<rparr>
        else Some (answer (turl (fs_wrapped s)) (vers (fs_wrapped s)) (GetRequest_BlockNumber req) k)
    | None \<Rightarrow> Some (answer (turl (fs_wrapped s)) (vers (fs_wrapped s)) (GetRequest_BlockNumber req) k)) ks))"
  using fork_Get_overlay [OF reliable_kv_store.get_eq [OF assms, unfolded read_response_def] assms(3)]
  by (simp add: overlaid_def)

theorem fork_Get_functional_witness:
  "fork_Get mem_tt_ops sample_fork (sample_request 5) =
     Inr (response [Some \<lparr>QueriedEntry_Code = RESPONSE_CODE_FOUND, QueriedEntry_Entry = sample_entry 7\<rparr>])"
  using fork_Get_functional [OF mem_tt_contract, of sample_fork "sample_request 5" "[sample_key]"]
    mem_tt_store_ok by (simp add: sample_fork_def)

text \<open>Read your writes.  After a \<open>SetAll\<close> of block \<open>b\<close> without \<open>IfNotExist\<close> has returned, every
  key that it wrote reads, at \<open>b\<close> and at every later block, the value it wrote last.\<close>

theorem fork_reads_own_writes:
  assumes "kv_store W vers turl ok U put" and "ok (fs_wrapped s)" and "entries_for U es"
    and "fork_SetAll W s es False b = (s', Inr ())" and "last_write es k = Some v" and "b \<le> c"
  shows "fork_view vers s' k c = Some v"
  by (rule kv_store.own_writes_view [OF assms])

theorem fork_reads_own_writes_witness:
  "fork_view (tt_vers map_of) (fst (fork_SetAll mem_tt_ops sample_fork [sample_entry 8] False 6)) [1] 9 = Some [8]"
proof -
  obtain s' where s': "fork_SetAll mem_tt_ops sample_fork [sample_entry 8] False 6 = (s', Inr ())"
    using reliable_kv_store.fork_SetAll_returns [OF mem_tt_contract, of sample_fork "[sample_entry 8]" False 6]
      mem_tt_store_ok by (cases "fork_SetAll mem_tt_ops sample_fork [sample_entry 8] False 6") auto
  show ?thesis
    using fork_reads_own_writes [OF mem_tt_kv _ _ s', of "[1]" "[8]" 9] mem_tt_store_ok s' by simp
qed

text \<open>\<open>SetAll\<close> with \<open>IfNotExist\<close> does not change a key that is visible at its block, whether in
  the cache or in the wrapped store, for any read at or above the block.\<close>

theorem fork_if_not_exist_keeps:
  assumes "kv_store W vers turl ok U put" and "ok (fs_wrapped s)" and "entries_for U es"
    and "fork_SetAll W s es True b = (s', r)" and "U k"
    and "cached_at s k \<noteq> None \<or> latest_at (vers (fs_wrapped s) k) b \<noteq> None"
  shows "fork_view vers s' k c = fork_view vers s k c"
  by (rule kv_store.if_not_exist_view [OF assms])

theorem fork_if_not_exist_keeps_witness:
  "fork_view (tt_vers map_of) (fst (fork_SetAll mem_tt_ops sample_fork [sample_entry 8] True 6)) [1] 9 = Some [7]"
proof -
  obtain s' r where s': "fork_SetAll mem_tt_ops sample_fork [sample_entry 8] True 6 = (s', r)"
    by (cases "fork_SetAll mem_tt_ops sample_fork [sample_entry 8] True 6")
  show ?thesis
    using fork_if_not_exist_keeps [OF mem_tt_kv _ _ s', of "[1]" 9] mem_tt_store_ok s'
    by (simp add: fork_view_def)
qed

section \<open>Outside the conditions\<close>

text \<open>A flush moves the entries it writes to its own block: a key that only the cache had, with
  an entry of block \<open>b\<close>, is after a flush at \<open>n\<close> no longer found by reads at the blocks from
  \<open>b\<close> to \<open>n - 1\<close>, which found it before.\<close>

theorem flush_hides_history:
  assumes "kv_store W vers turl ok U put" and "fork_inv U s" and "map_order ord"
    and "ok (fs_wrapped s)" and "U k" and "cached_at s k = Some (b, v)"
    and "vers (fs_wrapped s) k = (\<lambda>_. None)" and "b \<le> c" and "c < n"
    and "fork_FlushUpToBlock W ord s n False = (s', Inr ())"
  shows "fork_view vers s k c = Some v \<and> fork_view vers s' k c = None"
proof -
  have bn: "b \<le> n" using assms(8,9) by simp
  have c: "cached_at s' k = None"
    using fork_FlushUpToBlock_cached_at [OF assms(2,3,10), of k] assms(6) bn by simp
  have v: "vers (fs_wrapped s') k = put (\<lambda>_. None) n v"
    using kv_store.flush_writes [OF assms(1,2,3,4,10,5)] assms(6,7) bn by simp
  have "put (\<lambda>_. None) n v b' = None" if "b' \<le> c" for b'
    using kv_store.put_other [OF assms(1), of b' n "\<lambda>_. None" v] that assms(9) by auto
  then have "latest_at (vers (fs_wrapped s') k) c = None" by (simp add: latest_at_None_iff v)
  then show ?thesis using assms(6,8) c by (simp add: fork_view_def)
qed

theorem flush_hides_history_witness:
  "fork_view (tt_vers map_of) sample_fork [1] 5 = Some [7] \<and>
   fork_view (tt_vers map_of) (fst (fork_FlushUpToBlock mem_tt_ops rev sample_fork 6 False)) [1] 5 = None"
proof -
  obtain s' where s': "fork_FlushUpToBlock mem_tt_ops rev sample_fork 6 False = (s', Inr ())"
    using reliable_kv_store.fork_FlushUpToBlock_returns [OF mem_tt_contract sample_fork_inv,
        where ord = rev and n = 6 and ine = False] mem_tt_store_ok
    by (cases "fork_FlushUpToBlock mem_tt_ops rev sample_fork 6 False") auto
  show ?thesis
    using flush_hides_history [OF mem_tt_kv sample_fork_inv _ _ _ _ _ _ _ s', where k = "[1]" and c = 5]
      mem_tt_store_ok s' by simp
qed

text \<open>The cache has one entry per key.  A value of block \<open>b\<close> that a later block overwrites is
  lost when that later block is undone, though block \<open>b\<close> is not: the key reads what the
  wrapped store has.\<close>

theorem undo_loses_overwritten:
  assumes "kv_store W vers turl ok U put" and "ok (fs_wrapped s)" and "fork_inv U s"
    and "entries_for U es" and "cached_at s k = Some (b, v)" and "last_write es k = Some v'"
    and "fs_flushUpToBlock s < b'" and "b < n" and "n \<le> b'" and "b \<le> c"
    and "fork_SetAll W s es False b' = (s1, Inr ())" and "fork_EvictUpToBlock s1 n = (s2, r)"
  shows "fork_view vers s k c = Some v \<and> fork_view vers s2 k c = latest_at (vers (fs_wrapped s) k) c"
proof -
  have s1: "s1 = s\<lparr>fs_cache := fork_cache_all b' es (fs_cache s)\<rparr>"
    using kv_store.fork_SetAll_above [OF assms(1,2,4,7,11)] by simp
  have i: "fork_inv U s1" unfolding s1 by (rule fork_cache_all_inv [OF assms(3,4)])
  have "cached_at s1 k = Some (b', v')" using assms(6) by (simp add: s1 cached_at_fork_cache_all)
  then have "cached_at s2 k = None"
    using fork_EvictUpToBlock_cached_at [OF i assms(12), of k] assms(9) by simp
  then show ?thesis
    using assms(5,10) fork_EvictUpToBlock_frame(1) [OF assms(12)] by (simp add: fork_view_def s1)
qed

theorem undo_loses_overwritten_witness:
  "fork_view (tt_vers map_of) sample_fork [1] 5 = Some [7] \<and>
   fork_view (tt_vers map_of)
     (fst (fork_EvictUpToBlock (fst (fork_SetAll mem_tt_ops sample_fork [sample_entry 8] False 6)) 6)) [1] 5 = None"
proof -
  obtain s1 where s1: "fork_SetAll mem_tt_ops sample_fork [sample_entry 8] False 6 = (s1, Inr ())"
    using reliable_kv_store.fork_SetAll_returns [OF mem_tt_contract, of sample_fork "[sample_entry 8]" False 6]
      mem_tt_store_ok by (cases "fork_SetAll mem_tt_ops sample_fork [sample_entry 8] False 6") auto
  obtain s2 r where s2: "fork_EvictUpToBlock s1 6 = (s2, r)" by (cases "fork_EvictUpToBlock s1 6")
  show ?thesis
    using undo_loses_overwritten [OF mem_tt_kv _ sample_fork_inv _ _ _ _ _ _ _ s1 s2, where k = "[1]" and c = 5]
      mem_tt_store_ok s1 s2 by simp
qed

text \<open>A flush with \<open>IfNotExist\<close> drops the cached overwrite of a key that the wrapped store
  already has: afterwards the new value is neither in the cache nor in the wrapped store.\<close>

theorem flush_if_not_exist_drops:
  assumes "kv_store W vers turl ok U put" and "fork_inv U s" and "map_order ord"
    and "ok (fs_wrapped s)" and "U k" and "cached_at s k = Some (b, v)" and "b \<le> n"
    and "vers (fs_wrapped s) k \<noteq> (\<lambda>_. None)"
    and "fork_FlushUpToBlock W ord s n True = (s', Inr ())"
  shows "cached_at s' k = None \<and> vers (fs_wrapped s') k = vers (fs_wrapped s) k"
  using fork_FlushUpToBlock_cached_at [OF assms(2,3,9), of k]
    kv_store.flush_if_absent_writes [OF assms(1-4,9,5)] assms(6-8) by simp

definition sample_full_store :: "mem_db tt_store" where
  "sample_full_store = mem_tt_store\<lparr>tt_db := [(makeTimeTraversalKey [1] 1, [3])]\<rparr>"

theorem flush_if_not_exist_drops_witness:
  "let s = sample_fork\<lparr>fs_wrapped := sample_full_store\<rparr>;
       s' = fst (fork_FlushUpToBlock mem_tt_ops rev s 6 True)
   in fork_view (tt_vers map_of) s [1] 6 = Some [7] \<and> fork_view (tt_vers map_of) s' [1] 6 = Some [3]"
proof -
  let ?s = "sample_fork\<lparr>fs_wrapped := sample_full_store\<rparr>"
  have i: "fork_inv (\<lambda>k. length k = 1) ?s" using sample_fork_inv by (simp add: fork_inv_def)
  have ok: "mem_tt_ok sample_full_store"
    by (auto simp: tt_ok_def sample_full_store_def mem_tt_store_def split: if_splits intro: exI [of _ "[1]"])
  have v: "tt_vers map_of sample_full_store [1] = [1 \<mapsto> [3]]"
    by (auto simp: tt_vers_def sample_full_store_def mem_tt_store_def fun_eq_iff)
  have c: "cached_at ?s [1] = Some (5, [7])" by (simp add: cached_at_def sample_fork_def)
  obtain s' where s': "fork_FlushUpToBlock mem_tt_ops rev ?s 6 True = (s', Inr ())"
    using reliable_kv_store.fork_FlushUpToBlock_returns [OF mem_tt_contract i,
        where ord = rev and n = 6 and ine = True] ok
    by (cases "fork_FlushUpToBlock mem_tt_ops rev ?s 6 True") auto
  show ?thesis
    using flush_if_not_exist_drops [OF mem_tt_kv i _ _ _ c _ _ s'] ok v s' c by (simp add: fork_view_def)
qed

end
