(* ===== verification/Sinker_Properties.thy ===== *)
theory Sinker_Properties
  imports Sinker Fork_Properties
begin

text \<open>
  The properties of the sink over the fork-aware store: what a run of block and undo
  signals leaves in the store, what the saved cursor stands for, and how the history of
  cursors evolves.
\<close>

section \<open>The history\<close>

text \<open>A cursor sits under the id of its block.\<close>

definition history_ok :: "('c, 'fs) cursor_api \<Rightarrow> (string \<times> 'c) list \<Rightarrow> bool" where
  "history_ok C h \<longleftrightarrow> distinct_keys h \<and> (\<forall>i c. map_of h i = Some c \<longrightarrow> cur_block_id C c = i)"

lemma history_ok_update:
  "history_ok C h \<Longrightarrow> cur_block_id C c = i \<Longrightarrow> history_ok C (AList.update i c h)"
  by (auto simp: history_ok_def split: if_splits)

lemma prune_fold:
  assumes "distinct (map fst xs)" and "\<forall>(id, c)\<in>set xs. cur_block_id C c = id \<and> map_of h id = Some c"
  shows "map_of (fold (\<lambda>(id, c) h. if map_of h id \<noteq> None \<and> cur_block_num C c \<le> lib
        then AList.delete (cur_block_id C c) h else h) xs h) k =
    (if \<exists>c. (k, c) \<in> set xs \<and> cur_block_num C c \<le> lib then None else map_of h k)"
  using assms
proof (induction xs arbitrary: h)
  case (Cons x xs)
  obtain id c where x: "x = (id, c)" by (cases x)
  let ?h = "if map_of h id \<noteq> None \<and> cur_block_num C c \<le> lib then AList.delete (cur_block_id C c) h else h"
  have h: "map_of h id = Some c" "cur_block_id C c = id" using Cons.prems(2) x by auto
  have "\<forall>(id', c')\<in>set xs. cur_block_id C c' = id' \<and> map_of ?h id' = Some c'"
    using Cons.prems x h by (force simp: image_iff)
  from Cons.IH [OF _ this] Cons.prems(1) x h show ?case by auto
qed simp

lemma map_of_prune_history:
  assumes "history_ok C h" and "map_order ord"
  shows "map_of (prune_history C ord lib h) i =
    (case map_of h i of Some c \<Rightarrow> if cur_block_num C c \<le> lib then None else Some c | None \<Rightarrow> None)"
proof -
  have d: "distinct_keys h" and i: "\<And>i c. map_of h i = Some c \<Longrightarrow> cur_block_id C c = i"
    using assms(1) by (simp_all add: history_ok_def)
  have m: "(k, c) \<in> set (ord h) \<longleftrightarrow> map_of h k = Some c" for k c
    using d by (simp add: map_order_set [OF assms(2)])
  have "distinct (map fst (ord h))" using d by (simp add: map_order_distinct_keys [OF assms(2)])
  moreover have "\<forall>(id, c)\<in>set (ord h). cur_block_id C c = id \<and> map_of h id = Some c"
    using i m by auto
  ultimately show ?thesis
    unfolding prune_history_def by (subst prune_fold) (auto simp: m split: option.split)
qed

section \<open>Runs of signals\<close>

datatype 'c signal = BlockSignal BlockScopedData 'c | UndoSignal BlockUndoSignal 'c

fun sink_step :: "('c, 'fs) cursor_api \<Rightarrow> ('s, 'x) forkaware_ops_scheme \<Rightarrow> decoder \<Rightarrow>
    ((string \<times> 'c) list \<Rightarrow> (string \<times> 'c) list) \<Rightarrow> 'c signal \<Rightarrow> ('s, 'c, 'fs) sinker \<Rightarrow>
    ('s, 'c, 'fs) sinker \<times> unit res" where
  "sink_step C F D ord (BlockSignal data cursor) s = HandleBlockScopedData C F D ord s data cursor"
| "sink_step C F D ord (UndoSignal sig cursor) s = HandleBlockUndoSignal C F s sig cursor"

fun sink_run :: "('c, 'fs) cursor_api \<Rightarrow> ('s, 'x) forkaware_ops_scheme \<Rightarrow> decoder \<Rightarrow>
    ((string \<times> 'c) list \<Rightarrow> (string \<times> 'c) list) \<Rightarrow> 'c signal list \<Rightarrow> ('s, 'c, 'fs) sinker \<Rightarrow>
    ('s, 'c, 'fs) sinker \<times> unit res" where
  "sink_run C F D ord [] s = (s, Inr ())"
| "sink_run C F D ord (x # xs) s =
     (case sink_step C F D ord x s of
        (s', Inl f) \<Rightarrow> (s', Inl f)
      | (s', Inr _) \<Rightarrow> sink_run C F D ord xs s')"

text \<open>The store operations of a signal, and the head block after it.\<close>

fun signal_ops :: "('c, 'fs) cursor_api \<Rightarrow> decoder \<Rightarrow> 'c signal \<Rightarrow> fork_op list" where
  "signal_ops C D (BlockSignal data cursor) =
     (case map_output data of
        None \<Rightarrow> []
      | Some out \<Rightarrow>
          (case block_entries D out of
             Inl f \<Rightarrow> []
           | Inr es \<Rightarrow>
               [SetAllOp (SinkEntries_Entries es) (SinkEntries_IfNotExist es)
                  (case BlockScopedData_Clock data of None \<Rightarrow> 0 | Some clock \<Rightarrow> Clock_Number clock),
                FlushOp (cur_lib_num C cursor) (SinkEntries_IfNotExist es)]))"
| "signal_ops C D (UndoSignal sig cursor) =
     (case BlockUndoSignal_LastValidBlock sig of None \<Rightarrow> [] | Some b \<Rightarrow> [EvictOp (BlockRef_Number b)])"

fun signal_block :: "'c signal \<Rightarrow> u64 option" where
  "signal_block (BlockSignal data cursor) = map_option Clock_Number (BlockScopedData_Clock data)"
| "signal_block (UndoSignal sig cursor) = map_option BlockRef_Number (BlockUndoSignal_LastValidBlock sig)"

lemma process_output_run:
  assumes "process_output (fork_ops W cord) D store data n lib = (store', Inr ())"
    and "BlockScopedData_Clock data = Some clock" and "n = Clock_Number clock" and "lib = cur_lib_num C cursor"
  shows "fork_run W cord (signal_ops C D (BlockSignal data cursor)) store = (store', Inr ())"
proof (cases "map_output data")
  case None
  then show ?thesis using assms(1) by (simp add: process_output_def)
next
  case (Some out)
  obtain es where es: "block_entries D out = Inr es"
    using assms(1) Some by (auto simp: process_output_def split: sum.splits)
  let ?e = "SinkEntries_Entries es" and ?i = "SinkEntries_IfNotExist es"
  obtain s1 x where s1: "fork_SetAll W store ?e ?i n = (s1, x)" by (cases "fork_SetAll W store ?e ?i n")
  have x: "x = Inr ()" using assms(1) Some es s1 by (cases x) (auto simp: process_output_def fork_ops_def)
  obtain s2 y where s2: "fork_FlushUpToBlock W cord s1 lib ?i = (s2, y)"
    by (cases "fork_FlushUpToBlock W cord s1 lib ?i")
  have "store' = s2 \<and> y = Inr ()"
    using assms(1) Some es s1 x s2 by (simp add: process_output_def fork_ops_def wrap_res_ok_iff)
  then show ?thesis using Some es s1 x s2 assms(2-4) by simp
qed

lemma HandleBlockScopedData_ok:
  assumes "HandleBlockScopedData C F D ord s data cursor = (s', Inr ())"
  obtains clock files where "BlockScopedData_Clock data = Some clock"
    and "process_output F D (sk_store s) data (Clock_Number clock) (cur_lib_num C cursor) = (sk_store s', Inr ())"
    and "sk_headBlock s' = Clock_Number clock"
    and "cur_write C (sk_files s) (sk_cursorFilePath s)
      (case map_of (AList.update (Clock_Id clock) cursor (sk_cursorHistory s)) (cur_lib_id C cursor) of
         None \<Rightarrow> cursor | Some c \<Rightarrow> c) = (sk_files s', Inr ())"
    and "sk_cursorHistory s' = prune_history C ord (cur_lib_num C cursor)
      (AList.update (Clock_Id clock) cursor (sk_cursorHistory s))"
    and "sk_cursorFilePath s' = sk_cursorFilePath s"
proof -
  obtain clock where c: "BlockScopedData_Clock data = Some clock"
    using assms by (auto simp: HandleBlockScopedData_def split: option.splits)
  obtain store x where p: "process_output F D (sk_store s) data (Clock_Number clock) (cur_lib_num C cursor) = (store, x)"
    by (cases "process_output F D (sk_store s) data (Clock_Number clock) (cur_lib_num C cursor)")
  have x: "x = Inr ()" using assms c p by (cases x) (auto simp: HandleBlockScopedData_def Let_def)
  let ?c = "case map_of (AList.update (Clock_Id clock) cursor (sk_cursorHistory s)) (cur_lib_id C cursor) of
      None \<Rightarrow> cursor | Some c \<Rightarrow> c"
  obtain files y where w: "cur_write C (sk_files s) (sk_cursorFilePath s) ?c = (files, y)"
    by (cases "cur_write C (sk_files s) (sk_cursorFilePath s) ?c")
  have y: "y = Inr ()"
    using assms c p x w by (cases y) (auto simp: HandleBlockScopedData_def Let_def SaveCursorToFile_def)
  show thesis
    by (rule that [of clock])
      (use assms c p x w y in \<open>auto simp: HandleBlockScopedData_def Let_def SaveCursorToFile_def\<close>)
qed

lemma HandleBlockUndoSignal_fork:
  assumes "HandleBlockUndoSignal C (fork_ops W cord) s sig cursor = (s', Inr ())"
  obtains b where "BlockUndoSignal_LastValidBlock sig = Some b"
    and "fork_EvictUpToBlock (sk_store s) (BlockRef_Number b) = (sk_store s', Inr ())"
    and "sk_headBlock s' = BlockRef_Number b" and "sk_cursorHistory s' = sk_cursorHistory s"
    and "sk_files s' = fst (cur_write C (sk_files s) (sk_cursorFilePath s) cursor)"
proof -
  obtain b where b: "BlockUndoSignal_LastValidBlock sig = Some b"
    using assms by (auto simp: HandleBlockUndoSignal_def split: option.splits)
  obtain store x where e: "fork_EvictUpToBlock (sk_store s) (BlockRef_Number b) = (store, x)"
    by (cases "fork_EvictUpToBlock (sk_store s) (BlockRef_Number b)")
  have x: "x = Inr ()" by (rule fork_EvictUpToBlock_frame(3) [OF e])
  show thesis
    by (rule that [of b])
      (use assms b e x in \<open>auto simp: HandleBlockUndoSignal_def Let_def fork_ops_def SaveCursorToFile_def
        split: prod.splits sum.splits\<close>)
qed

lemma sink_step_run:
  assumes "sink_step C (fork_ops W cord) D ord x s = (s', Inr ())"
  shows "fork_run W cord (signal_ops C D x) (sk_store s) = (sk_store s', Inr ()) \<and>
    signal_block x = Some (sk_headBlock s')"
proof (cases x)
  case (BlockSignal data cursor)
  then have "HandleBlockScopedData C (fork_ops W cord) D ord s data cursor = (s', Inr ())"
    using assms by simp
  then show ?thesis
    by (rule HandleBlockScopedData_ok) (use BlockSignal process_output_run in fastforce)
next
  case (UndoSignal sig cursor)
  then have "HandleBlockUndoSignal C (fork_ops W cord) s sig cursor = (s', Inr ())"
    using assms by simp
  then show ?thesis
    by (rule HandleBlockUndoSignal_fork) (simp add: UndoSignal)
qed

lemma fork_run_append:
  "fork_run W ord (xs @ ys) s =
    (case fork_run W ord xs s of (s', Inl f) \<Rightarrow> (s', Inl f) | (s', Inr _) \<Rightarrow> fork_run W ord ys s')"
  by (induction xs arbitrary: s) (auto split: prod.split sum.split)

lemma sink_run_fork_run:
  assumes "sink_run C (fork_ops W cord) D ord xs s = (s', Inr ())"
  shows "fork_run W cord (concat (map (signal_ops C D) xs)) (sk_store s) = (sk_store s', Inr ()) \<and>
    (xs \<noteq> [] \<longrightarrow> signal_block (last xs) = Some (sk_headBlock s'))"
  using assms
proof (induction xs arbitrary: s)
  case (Cons x xs)
  obtain s1 where s1: "sink_step C (fork_ops W cord) D ord x s = (s1, Inr ())"
    and r: "sink_run C (fork_ops W cord) D ord xs s1 = (s', Inr ())"
    using Cons.prems by (auto split: prod.splits sum.splits)
  note a = sink_step_run [OF s1] and b = Cons.IH [OF r]
  show ?case
  proof (cases "xs = []")
    case True
    then show ?thesis using a r by simp
  next
    case False
    then show ?thesis using a b by (simp add: fork_run_append)
  qed
qed simp

section \<open>A sink for the witnesses\<close>

text \<open>Cursors are tuples of final block, its id, block and its id; the file system is the list of
  cursors written; an output holds the byte of its entry.\<close>

type_synonym mem_cursor = "u64 \<times> string \<times> u64 \<times> string"

definition mem_cursors :: "(mem_cursor, mem_cursor list) cursor_api" where
  "mem_cursors = \<lparr>cur_lib_num = fst, cur_lib_id = fst \<circ> snd, cur_block_num = fst \<circ> snd \<circ> snd,
     cur_block_id = snd \<circ> snd \<circ> snd, cur_head_num = fst \<circ> snd \<circ> snd,
     cur_write = (\<lambda>fs path c. (c # fs, Inr ())), cur_new = (\<lambda>str. Inl (Err ''invalid cursor''))\<rparr>"

definition mem_decoder :: decoder where
  "mem_decoder = \<lparr>unmarshal_V1Entries = (\<lambda>any. Inl (Err ''not v1'')),
     unmarshal_SinkEntries = (\<lambda>any. Inr \<lparr>SinkEntries_Entries = [sample_entry (hd (Any_Value any))],
       SinkEntries_IfNotExist = False\<rparr>)\<rparr>"

definition mem_block :: "string \<Rightarrow> u64 \<Rightarrow> bytes \<Rightarrow> BlockScopedData" where
  "mem_block i n v = \<lparr>BlockScopedData_Output = Some \<lparr>MapModuleOutput_MapOutput =
       Some \<lparr>Any_TypeUrl = ''t'', Any_Value = v\<rparr>\<rparr>,
     BlockScopedData_Clock = Some \<lparr>Clock_Id = i, Clock_Number = n\<rparr>\<rparr>"

definition mem_sink :: "mem_db tt_store fork_store \<Rightarrow> (string \<times> mem_cursor) list \<Rightarrow>
    (mem_db tt_store fork_store, mem_cursor, mem_cursor list) sinker" where
  "mem_sink store history = \<lparr>sk_store = store, sk_cursorFilePath = ''c'', sk_cursorHistory = history,
     sk_headBlock = 0, sk_files = []\<rparr>"

abbreviation mem_fork_ops :: "mem_db tt_store fork_store forkaware_ops" where
  "mem_fork_ops \<equiv> fork_ops mem_tt_ops rev"

lemma mem_cursors_simps [simp]:
  "cur_lib_num mem_cursors (a, b, c, d) = a" "cur_lib_id mem_cursors (a, b, c, d) = b"
  "cur_block_num mem_cursors (a, b, c, d) = c" "cur_block_id mem_cursors (a, b, c, d) = d"
  "cur_write mem_cursors fs path x = (x # fs, Inr ())"
  by (simp_all add: mem_cursors_def)

lemma mem_sink_simps [simp]:
  "sk_store (mem_sink st h) = st" "sk_cursorHistory (mem_sink st h) = h" "sk_files (mem_sink st h) = []"
  "sk_cursorFilePath (mem_sink st h) = ''c''"
  by (simp_all add: mem_sink_def)

lemma mem_block_simps [simp]:
  "BlockScopedData_Clock (mem_block i n v) = Some \<lparr>Clock_Id = i, Clock_Number = n\<rparr>"
  "map_output (mem_block i n v) = (if v = [] then None else Some \<lparr>Any_TypeUrl = ''t'', Any_Value = v\<rparr>)"
  "block_entries mem_decoder \<lparr>Any_TypeUrl = ''t'', Any_Value = v\<rparr> =
     Inr \<lparr>SinkEntries_Entries = [sample_entry (hd v)], SinkEntries_IfNotExist = False\<rparr>"
  by (simp_all add: mem_block_def map_output_def block_entries_def legacy_type_url_def mem_decoder_def)

text \<open>On a backend that does not fail, a block of the in-memory sink is processed without an error.\<close>

lemma process_returns:
  assumes "reliable_kv_store W vers turl ok (\<lambda>k. length k = 1) put"
    and "ok (fs_wrapped st)" and "fork_inv (\<lambda>k. length k = 1) st"
  shows "\<exists>st'. process_output (fork_ops W rev) mem_decoder st (mem_block i n v) m lib = (st', Inr ())"
proof (cases "v = []")
  case False
  let ?es = "[sample_entry (hd v)]"
  obtain s1 where s1: "fork_SetAll W st ?es False m = (s1, Inr ())"
    using reliable_kv_store.fork_SetAll_returns [OF assms(1,2), of ?es False m]
    by (cases "fork_SetAll W st ?es False m") auto
  have i1: "fork_inv (\<lambda>k. length k = 1) s1 \<and> ok (fs_wrapped s1)"
    using kv_store.fork_SetAll_inv [OF reliable_kv_store.axioms(1) [OF assms(1)] assms(2) _ assms(3) s1] by simp
  obtain s2 where s2: "fork_FlushUpToBlock W rev s1 lib False = (s2, Inr ())"
    using reliable_kv_store.fork_FlushUpToBlock_returns [OF assms(1), of s1 rev lib False] i1
    by (cases "fork_FlushUpToBlock W rev s1 lib False") auto
  show ?thesis using s1 s2 False by (simp add: process_output_def fork_ops_def)
qed (simp add: process_output_def)

lemma handle_returns:
  assumes "reliable_kv_store W vers turl ok (\<lambda>k. length k = 1) put"
    and "ok (fs_wrapped (sk_store s))" and "fork_inv (\<lambda>k. length k = 1) (sk_store s)"
  shows "\<exists>s'. HandleBlockScopedData mem_cursors (fork_ops W rev) mem_decoder rev s (mem_block i n v) c = (s', Inr ())"
proof -
  obtain st' where "process_output (fork_ops W rev) mem_decoder (sk_store s) (mem_block i n v) n (cur_lib_num mem_cursors c) = (st', Inr ())"
    using process_returns [OF assms] by blast
  then show ?thesis by (cases c) (simp add: HandleBlockScopedData_def SaveCursorToFile_def Let_def)
qed

lemma mem_handle:
  assumes "mem_tt_ok (fs_wrapped st)" and "fork_inv (\<lambda>k. length k = 1) st"
  shows "\<exists>s'. HandleBlockScopedData mem_cursors mem_fork_ops mem_decoder rev (mem_sink st h) (mem_block i n v) c = (s', Inr ())"
  by (rule handle_returns [OF mem_tt_contract]) (use assms in simp_all)

lemma sample_handle:
  "\<exists>s'. HandleBlockScopedData mem_cursors mem_fork_ops mem_decoder rev (mem_sink sample_fork h) (mem_block i n v) c = (s', Inr ())"
  by (rule mem_handle) (use mem_tt_store_ok sample_fork_inv in simp_all)

section \<open>The properties\<close>





text \<open>C18: an error of the store or of the decoder leaves the saved cursor, and the head block, where
  they were: the failed block is sent again after a restart.\<close>

theorem failed_block_not_skipped:
  assumes "HandleBlockScopedData C F D ord s data cursor = (s', Inl f)"
    and "BlockScopedData_Clock data = Some clock"
    and "process_output F D (sk_store s) data (Clock_Number clock) (cur_lib_num C cursor) = (st, Inl g)"
  shows "sk_files s' = sk_files s \<and> HeadBlock s' = HeadBlock s \<and> f = g \<and> sk_store s' = st"
  using assms by (auto simp: HandleBlockScopedData_def Let_def HeadBlock_def)

theorem failed_block_not_skipped_witness:
  "let F = fork_ops failing_ops rev;
       s = \<lparr>sk_store = \<lparr>fs_wrapped = (), fs_cache = [], fs_flushUpToBlock = 9\<rparr>, sk_cursorFilePath = ''c'',
            sk_cursorHistory = [], sk_headBlock = 4, sk_files = []\<rparr>;
       s' = fst (HandleBlockScopedData mem_cursors F mem_decoder rev s (mem_block ''b5'' 5 [7]) (3, ''b3'', 5, ''b5''))
   in sk_files s' = [] \<and> HeadBlock s' = 4"
proof -
  let ?F = "fork_ops failing_ops rev"
  let ?st = "\<lparr>fs_wrapped = (), fs_cache = [], fs_flushUpToBlock = 9\<rparr>"
  let ?s = "\<lparr>sk_store = ?st, sk_cursorFilePath = ''c'', sk_cursorHistory = [], sk_headBlock = 4, sk_files = []\<rparr>"
  obtain st g where p: "process_output ?F mem_decoder ?st (mem_block ''b5'' 5 [7]) 5 3 = (st, Inl g)"
    by (simp add: process_output_def fork_ops_def fork_SetAll_def entry_ok_key Let_def failing_ops_def)
  then obtain s' where s': "HandleBlockScopedData mem_cursors ?F mem_decoder rev ?s (mem_block ''b5'' 5 [7]) (3, ''b3'', 5, ''b5'') = (s', Inl g)"
    by (simp add: HandleBlockScopedData_def Let_def)
  show ?thesis
    using failed_block_not_skipped [OF s', of "\<lparr>Clock_Id = ''b5'', Clock_Number = 5\<rparr>" st g] p s'
    by (simp add: Let_def HeadBlock_def)
qed

text \<open>After a block the history keeps exactly the cursors, the block's own included, of blocks above
  the final one, in whatever order the range over the Go map visits it.\<close>

theorem history_pruned:
  assumes "history_ok C (sk_cursorHistory s)" and "map_order ord"
    and "BlockScopedData_Clock data = Some clock" and "cur_block_id C cursor = Clock_Id clock"
    and "HandleBlockScopedData C F D ord s data cursor = (s', Inr ())"
  shows "map_of (sk_cursorHistory s') i =
    (case map_of ((Clock_Id clock, cursor) # sk_cursorHistory s) i of
       Some c \<Rightarrow> if cur_block_num C c \<le> cur_lib_num C cursor then None else Some c
     | None \<Rightarrow> None)"
proof -
  have h: "history_ok C (AList.update (Clock_Id clock) cursor (sk_cursorHistory s))"
    by (rule history_ok_update [OF assms(1,4)])
  have "sk_cursorHistory s' = prune_history C ord (cur_lib_num C cursor)
      (AList.update (Clock_Id clock) cursor (sk_cursorHistory s))"
    using assms(5) by (rule HandleBlockScopedData_ok) (simp add: assms(3))
  then show ?thesis by (simp add: map_of_prune_history [OF h assms(2)])
qed

theorem history_pruned_witness:
  "\<exists>s'. HandleBlockScopedData mem_cursors mem_fork_ops mem_decoder rev
      (mem_sink sample_fork [(''b5'', (2, ''b2'', 5, ''b5''))]) (mem_block ''b6'' 6 []) (5, ''b5'', 6, ''b6'') = (s', Inr ()) \<and>
     map_of (sk_cursorHistory s') ''b5'' = None"
proof -
  let ?s = "mem_sink sample_fork [(''b5'', (2, ''b2'', 5, ''b5''))]"
  obtain s' where s': "HandleBlockScopedData mem_cursors mem_fork_ops mem_decoder rev ?s (mem_block ''b6'' 6 []) (5, ''b5'', 6, ''b6'') = (s', Inr ())"
    using sample_handle by blast
  have "history_ok mem_cursors (sk_cursorHistory ?s)" by (simp add: history_ok_def)
  from history_pruned [OF this _ _ _ s', of "\<lparr>Clock_Id = ''b6'', Clock_Number = 6\<rparr>" "''b5''"] s'
  show ?thesis by simp
qed

section \<open>Cursors ahead of the data\<close>

text \<open>Without a cursor for its final block in the history, a block saves its own cursor, though the
  entries it wrote above the final block are only in the cache: a restart from that cursor
  loses them.  The history has no such cursor for the first blocks after every start, nor
  for a block whose final block was already final at the previous block.\<close>

theorem saved_cursor_ahead:
  assumes "kv_store W vers turl ok U put" and "fork_inv U (sk_store s)"
    and "ok (fs_wrapped (sk_store s))" and "map_order cord" and "map_output data = Some out"
    and "block_entries D out = Inr es" and "entries_for U (SinkEntries_Entries es)"
    and "\<not> SinkEntries_IfNotExist es" and "last_write (SinkEntries_Entries es) k = Some v"
    and "map_of (sk_cursorHistory s) (cur_lib_id C cursor) = None"
    and "BlockScopedData_Clock data = Some clock" and "cur_lib_id C cursor \<noteq> Clock_Id clock"
    and "cur_lib_num C cursor < Clock_Number clock"
    and "HandleBlockScopedData C (fork_ops W cord) D ord s data cursor = (s', Inr ())"
  shows "cur_write C (sk_files s) (sk_cursorFilePath s) cursor = (sk_files s', Inr ()) \<and>
    cached_at (sk_store s') k = Some (Clock_Number clock, v)"
proof -
  let ?n = "Clock_Number clock" and ?lib = "cur_lib_num C cursor"
  from assms(14) show ?thesis
  proof (rule HandleBlockScopedData_ok)
    fix clock'
    assume "BlockScopedData_Clock data = Some clock'"
      and p: "process_output (fork_ops W cord) D (sk_store s) data (Clock_Number clock') ?lib = (sk_store s', Inr ())"
      and w: "cur_write C (sk_files s) (sk_cursorFilePath s)
        (case map_of (AList.update (Clock_Id clock') cursor (sk_cursorHistory s)) (cur_lib_id C cursor) of
           None \<Rightarrow> cursor | Some c \<Rightarrow> c) = (sk_files s', Inr ())"
    then have cl: "clock' = clock" using assms(11) by simp
    obtain s1 where s1: "fork_SetAll W (sk_store s) (SinkEntries_Entries es) False ?n = (s1, Inr ())"
      and s2: "fork_FlushUpToBlock W cord s1 ?lib False = (sk_store s', Inr ())"
      using process_output_run [OF p _ refl refl] assms(5,6,8,11) cl
      by (auto split: prod.splits sum.splits)
    have i: "fork_inv U s1" using kv_store.fork_SetAll_inv [OF assms(1,3,7,2) s1] by simp
    have "cached_at s1 k = Some (?n, v)"
      by (rule kv_store.own_writes_cached [OF assms(1,3,7) s1 assms(9)])
    then have "cached_at (sk_store s') k = Some (?n, v)"
      using fork_FlushUpToBlock_cached_at [OF i assms(4) s2, of k] assms(13) by auto
    then show ?thesis using w assms(10,12) cl by simp
  qed
qed

theorem saved_cursor_ahead_witness:
  "\<exists>s'. HandleBlockScopedData mem_cursors mem_fork_ops mem_decoder rev
      (mem_sink sample_fork []) (mem_block ''b6'' 6 [8]) (5, ''b5'', 6, ''b6'') = (s', Inr ()) \<and>
     sk_files s' = [(5, ''b5'', 6, ''b6'')] \<and> cached_at (sk_store s') [1] = Some (6, [8])"
proof -
  let ?cur = "(5, ''b5'', 6, ''b6'')" and ?s = "mem_sink sample_fork []"
  obtain s' where s': "HandleBlockScopedData mem_cursors mem_fork_ops mem_decoder rev ?s (mem_block ''b6'' 6 [8]) ?cur = (s', Inr ())"
    using sample_handle by blast
  have "cur_write mem_cursors (sk_files ?s) (sk_cursorFilePath ?s) ?cur = (sk_files s', Inr ()) \<and>
      cached_at (sk_store s') [1] = Some (Clock_Number \<lparr>Clock_Id = ''b6'', Clock_Number = 6\<rparr>, [8])"
    by (rule saved_cursor_ahead [OF mem_tt_kv _ _ _ _ _ _ _ _ _ _ _ _ s',
          where out = "\<lparr>Any_TypeUrl = ''t'', Any_Value = [8]\<rparr>"
            and es = "\<lparr>SinkEntries_Entries = [sample_entry 8], SinkEntries_IfNotExist = False\<rparr>"])
      (use mem_tt_store_ok sample_fork_inv in simp_all)
  then show ?thesis using s' by auto
qed

text \<open>A block without output saves the cursor of its final block, but flushes nothing: entries at or
  below the final block stay in the cache, and a restart from the saved cursor loses them.\<close>

theorem empty_block_skips_flush:
  assumes "map_output data = None" and "BlockScopedData_Clock data = Some clock"
    and "map_of (sk_cursorHistory s) (cur_lib_id C cursor) = Some c" and "cur_lib_id C cursor \<noteq> Clock_Id clock"
    and "HandleBlockScopedData C F D ord s data cursor = (s', Inr ())"
  shows "sk_store s' = sk_store s \<and> cur_write C (sk_files s) (sk_cursorFilePath s) c = (sk_files s', Inr ())"
  using assms(5) by (rule HandleBlockScopedData_ok) (use assms in \<open>auto simp: process_output_def\<close>)

theorem empty_block_skips_flush_witness:
  "\<exists>s'. HandleBlockScopedData mem_cursors mem_fork_ops mem_decoder rev
      (mem_sink sample_fork [(''b5'', (2, ''b2'', 5, ''b5''))]) (mem_block ''b6'' 6 []) (5, ''b5'', 6, ''b6'') = (s', Inr ()) \<and>
     sk_files s' = [(2, ''b2'', 5, ''b5'')] \<and> cached_at (sk_store s') [1] = Some (5, [7])"
proof -
  let ?s = "mem_sink sample_fork [(''b5'', (2, ''b2'', 5, ''b5''))]"
  obtain s' where s': "HandleBlockScopedData mem_cursors mem_fork_ops mem_decoder rev ?s (mem_block ''b6'' 6 []) (5, ''b5'', 6, ''b6'') = (s', Inr ())"
    using sample_handle by blast
  show ?thesis using empty_block_skips_flush [OF _ _ _ _ s'] s' by simp
qed

text \<open>An undo signal evicts the entries of the last valid block itself: they were written by a block
  that is not undone, the sink does not receive it again, and they are no longer read.\<close>

theorem undo_evicts_last_valid:
  assumes "fork_inv U (sk_store s)" and "BlockUndoSignal_LastValidBlock sig = Some b"
    and "cached_at (sk_store s) k = Some (BlockRef_Number b, v)" and "BlockRef_Number b \<le> c"
    and "HandleBlockUndoSignal C (fork_ops W cord) s sig cursor = (s', Inr ())"
  shows "fork_view V (sk_store s) k c = Some v \<and>
    fork_view V (sk_store s') k c = latest_at (V (fs_wrapped (sk_store s)) k) c \<and>
    HeadBlock s' = BlockRef_Number b"
  using assms(5)
proof (rule HandleBlockUndoSignal_fork)
  fix b'
  assume b': "BlockUndoSignal_LastValidBlock sig = Some b'" and h: "sk_headBlock s' = BlockRef_Number b'"
    and e: "fork_EvictUpToBlock (sk_store s) (BlockRef_Number b') = (sk_store s', Inr ())"
  then have "cached_at (sk_store s') k = None"
    using fork_EvictUpToBlock_cached_at [OF assms(1) e, of k] assms(2,3) by simp
  then show ?thesis
    using fork_EvictUpToBlock_frame(1) [OF e] assms(2,3,4) b' h by (simp add: fork_view_def HeadBlock_def)
qed

theorem undo_evicts_last_valid_witness:
  "\<exists>s'. HandleBlockUndoSignal mem_cursors mem_fork_ops (mem_sink sample_fork [])
      \<lparr>BlockUndoSignal_LastValidBlock = Some \<lparr>BlockRef_Id = ''b5'', BlockRef_Number = 5\<rparr>\<rparr> (2, ''b2'', 5, ''b5'') = (s', Inr ()) \<and>
     fork_view (tt_vers map_of) (sk_store s') [1] 5 = None"
proof -
  let ?sig = "\<lparr>BlockUndoSignal_LastValidBlock = Some \<lparr>BlockRef_Id = ''b5'', BlockRef_Number = 5\<rparr>\<rparr>"
  obtain s' where s': "HandleBlockUndoSignal mem_cursors mem_fork_ops (mem_sink sample_fork []) ?sig (2, ''b2'', 5, ''b5'') = (s', Inr ())"
    by (simp add: HandleBlockUndoSignal_def fork_ops_def fork_EvictUpToBlock_def SaveCursorToFile_def Let_def)
  show ?thesis
    using undo_evicts_last_valid [OF _ _ _ _ s', where k = "[1]" and c = 5 and V = "tt_vers map_of"]
      sample_fork_inv s' by auto
qed

end
