(* ===== verification/Badger_Properties.thy ===== *)
theory Badger_Properties
  imports Badger_Store Badger_Time_Traversal
begin

text \<open>
  The properties of the two Badger stores and of the worker pool of their readers.  They
  hold for every database that does what Badger documents; the witnesses run on the
  in-memory instance.
\<close>

section \<open>Reads after writes\<close>

definition sample_req :: "u64 \<Rightarrow> bytes list \<Rightarrow> GetRequest" where
  "sample_req c ks = \<lparr>GetRequest_BlockNumber = c, GetRequest_BlockHash = [],
     GetRequest_Keys = map (\<lambda>k. Some \<lparr>Key_Bytes = k\<rparr>) ks\<rparr>"

definition latest_store :: "mem_db \<Rightarrow> mem_db badger_store" where
  "latest_store db = \<lparr>st_db = db, st_typeUrl = ''t'', st_numWorkers = 2, st_ready = False\<rparr>"

definition versioned_store :: "mem_db \<Rightarrow> mem_db tt_store" where
  "versioned_store db = \<lparr>tt_db = db, tt_typeUrl = ''t'', tt_numWorkers = 2\<rparr>"

lemma sample_req_simps [simp]:
  "GetRequest_Keys (sample_req c ks) = map Some (map (\<lambda>k. \<lparr>Key_Bytes = k\<rparr>) ks)"
  "GetRequest_BlockNumber (sample_req c ks) = c"
  by (simp_all add: sample_req_def)

context badger_latest_reliable
begin

lemma set_then_get:
  assumes "badger_ok kv s" and "0 < st_numWorkers s" and es: "entries_for (\<lambda>k. app_key k \<and> key_ok k) es"
    and "GetRequest_Keys req = map Some ks" and "\<forall>k\<in>set ks. app_key (Key_Bytes k) \<and> key_ok (Key_Bytes k)"
    and "schedule (length ks) sch"
  shows "\<exists>s'. badger_SetAll B s es False b = (s', Inr ()) \<and>
    badger_Get B sch s' req = Inr (read_response (st_typeUrl s)
      (\<lambda>k. case last_write es k of None \<Rightarrow> badger_vers kv s k | Some v \<Rightarrow> [b \<mapsto> v])
      (GetRequest_BlockNumber req) ks)"
proof -
  have ok: "\<forall>e\<in>set es. entry_ok e" using es by (simp add: entries_for_def)
  have "snd (badger_SetAll B s es False b) = Inr ()"
    using es by (intro SetAll_returns) (simp add: entries_for_def)
  then obtain s' where s': "badger_SetAll B s es False b = (s', Inr ())"
    by (cases "badger_SetAll B s es False b") auto
  have kv: "kv (st_db s') = apply_sets (map (raw (badger_enc b)) es) (kv (st_db s))"
    using SetAll_ok [OF ok s'] by auto
  have V: "badger_vers kv s' k = (case last_write es k of None \<Rightarrow> badger_vers kv s k | Some v \<Rightarrow> [b \<mapsto> v])" for k
    by (rule badger_vers_after [OF kv])
  have ok': "badger_ok kv s'" by (rule badger_ok_after [OF assms(1) kv])
  have same: "st_typeUrl s' = st_typeUrl s" "st_numWorkers s' = st_numWorkers s"
    using SetAll_any [OF ok s'] by auto
  obtain r where r: "badger_Get B sch s' req = Inr r"
    using Get_returns [OF ok' _ assms(4,5,6)] assms(2) same(2) by auto
  have "r = read_response (st_typeUrl s') (badger_vers kv s') (GetRequest_BlockNumber req) ks"
    using Get_answers [OF ok' assms(4) _ assms(6) r] assms(5) by blast
  with s' r show ?thesis by (simp add: same V read_response_def answer_def)
qed

end

context badger_tt_reliable
begin

lemma tt_set_then_get:
  assumes "tt_ok U kv s" and "0 < tt_numWorkers s" and es: "entries_for U es"
    and "GetRequest_Keys req = map Some ks" and "\<forall>k\<in>set ks. U (Key_Bytes k)"
    and "schedule (length ks) sch"
  shows "\<exists>s'. tt_SetAll B s es False b = (s', Inr ()) \<and>
    tt_Get B sch s' req = Inr (read_response (tt_typeUrl s)
      (\<lambda>k. case last_write es k of None \<Rightarrow> tt_vers kv s k | Some v \<Rightarrow> (tt_vers kv s k)(b \<mapsto> v))
      (GetRequest_BlockNumber req) ks)"
proof -
  have ok: "\<forall>e\<in>set es. entry_ok e" using es by (simp add: entries_for_def)
  then have "snd (tt_SetAll B s es False b) = Inr ()" by (rule tt_SetAll_returns)
  then obtain s' where s': "tt_SetAll B s es False b = (s', Inr ())"
    by (cases "tt_SetAll B s es False b") auto
  have kv: "kv (tt_db s') = apply_sets (map (raw (tt_enc b)) es) (kv (tt_db s))"
    using tt_SetAll_ok [OF ok s'] by auto
  have V: "tt_vers kv s' k =
      (case last_write es k of None \<Rightarrow> tt_vers kv s k | Some v \<Rightarrow> (tt_vers kv s k)(b \<mapsto> v))" for k
    by (rule tt_vers_after [OF kv])
  have ok': "tt_ok U kv s'"
    by (rule tt_ok_after [OF assms(1) _ kv]) (use es in \<open>simp add: entries_for_def\<close>)
  have same: "tt_typeUrl s' = tt_typeUrl s" "tt_numWorkers s' = tt_numWorkers s"
    using tt_SetAll_any [OF ok s'] by auto
  obtain r where r: "tt_Get B sch s' req = Inr r"
    using tt_Get_returns [OF _ assms(4,6), of s'] assms(2) same(2) by auto
  have "r = read_response (tt_typeUrl s') (tt_vers kv s') (GetRequest_BlockNumber req) ks"
    by (rule tt_Get_answers [OF ok' assms(4,5,6) r])
  with s' r show ?thesis by (simp add: same V read_response_def answer_def)
qed

end

text \<open>The latest-value store answers with what was written last.  On a database that does not
  fail, \<open>SetAll\<close> without \<open>IfNotExist\<close> and a following \<open>Get\<close> return; a key that was written is
  found, with its last value in the list, exactly when the requested block is not below
  the block of the write, and the other keys are answered as before.\<close>

theorem badger_read_after_write:
  assumes "badger_latest_reliable B kv txw pend sched key_ok" and "badger_ok kv s"
    and "0 < st_numWorkers s" and "entries_for (\<lambda>k. app_key k \<and> key_ok k) es"
    and "GetRequest_Keys req = map Some ks" and "\<forall>k\<in>set ks. app_key (Key_Bytes k) \<and> key_ok (Key_Bytes k)"
    and "schedule (length ks) sch"
  shows "\<exists>s'. badger_SetAll B s es False b = (s', Inr ()) \<and>
    badger_Get B sch s' req = Inr (read_response (st_typeUrl s)
      (\<lambda>k. case last_write es k of None \<Rightarrow> badger_vers kv s k | Some v \<Rightarrow> [b \<mapsto> v])
      (GetRequest_BlockNumber req) ks)"
  by (rule badger_latest_reliable.set_then_get [OF assms])

lemma app_key_short: "length k < 5 \<Longrightarrow> app_key k"
  by (auto simp: app_key_def readyKey_def)

lemma latest_store_ok [simp]: "badger_ok map_of (latest_store [])"
  by (simp add: badger_ok_def latest_store_def)

theorem badger_read_after_write_witness:
  "\<exists>s'. badger_SetAll mem_badger (latest_store []) [mk_entry [1] ''t'' [7], mk_entry [1] ''t'' [8]] False 5 = (s', Inr ()) \<and>
     badger_Get mem_badger [1, 0] s' (sample_req 5 [[1], [2]]) =
       Inr (response [Some (found (Some \<lparr>Key_Bytes = [1]\<rparr>) ''t'' [8]), Some (not_found (Some \<lparr>Key_Bytes = [2]\<rparr>))])"
proof -
  have "schedule (length (map (\<lambda>k. \<lparr>Key_Bytes = k\<rparr>) [[1], [2]])) [1, 0]"
    by (auto simp: schedule_def)
  from badger_read_after_write [OF mem_latest.badger_latest_reliable_axioms latest_store_ok _ _ _ _ this,
      where es = "[mk_entry [1] ''t'' [7], mk_entry [1] ''t'' [8]]" and req = "sample_req 5 [[1], [2]]" and b = 5]
  show ?thesis
    by (simp add: app_key_short latest_store_def read_response_def answer_def last_write_def badger_vers_def)
qed


lemma versioned_store_ok: "tt_ok (\<lambda>k. length k = 1) map_of (versioned_store [(makeTimeTraversalKey [1] 3, [7])])"
  by (auto simp: tt_ok_def versioned_store_def split: if_splits intro: exI [of _ "[1]"])

lemma versioned_store_vers: "tt_vers map_of (versioned_store [(makeTimeTraversalKey [1] 3, [7])]) [1] = [3 \<mapsto> [7]]"
  by (auto simp: tt_vers_def versioned_store_def fun_eq_iff)




section \<open>IfNotExist\<close>

text \<open>C36: the versions of a time-traversal key sort newest first, and no two versions of any two
  keys share a composite key.\<close>

theorem composite_keys_ordered:
  "(makeTimeTraversalKey k b = makeTimeTraversalKey k' b' \<longleftrightarrow> k = k' \<and> b = b') \<and>
   (makeTimeTraversalKey k b < makeTimeTraversalKey k c \<longleftrightarrow> c < b) \<and>
   getUint64 (drop (length k) (makeTimeTraversalKey k b)) = 18446744073709551615 - b"
  by (simp only: makeTimeTraversalKey_inject makeTimeTraversalKey_less_iff)
    (simp add: makeTimeTraversalKey_def)

text \<open>\<open>SetAll\<close> with \<open>IfNotExist\<close> never changes a key that has a value, whatever fails, and
  when it returns every other key of the list has one of its values from the list, at the
  written block.\<close>

theorem tt_if_not_exist:
  assumes "badger_tt B kv txw pend sched U" and "tt_ok U kv s" and "entries_for U es"
    and "tt_SetAll B s es True b = (s', r)" and "U k"
  shows "(tt_vers kv s k \<noteq> (\<lambda>_. None) \<longrightarrow> tt_vers kv s' k = tt_vers kv s k) \<and>
    (r = Inr () \<longrightarrow> k \<in> entry_keys es \<longrightarrow> tt_vers kv s k = (\<lambda>_. None) \<longrightarrow>
      (\<exists>v. (k, v) \<in> set (map entry_kv es) \<and> tt_vers kv s' k = [b \<mapsto> v]))"
  using kv_store.set_all_keeps [OF badger_tt.contract [OF assms(1)] assms(2,3), of b s' r k]
    kv_store.set_all_inserts [OF badger_tt.contract [OF assms(1)] assms(2,3), of b s' k] assms(4,5)
  by (auto simp: tt_ops_def put_version_def)

theorem tt_if_not_exist_witness:
  "tt_vers map_of (fst (tt_SetAll mem_badger (versioned_store [(makeTimeTraversalKey [1] 3, [7])])
     [mk_entry [1] ''t'' [8]] True 5)) [1] = [3 \<mapsto> [7]]"
proof -
  obtain s' r where s': "tt_SetAll mem_badger (versioned_store [(makeTimeTraversalKey [1] 3, [7])])
     [mk_entry [1] ''t'' [8]] True 5 = (s', r)" by fastforce
  show ?thesis
    using tt_if_not_exist [OF mem_tt.badger_tt_axioms versioned_store_ok _ s', where k = "[1]"] s'
    by (simp add: versioned_store_vers)
qed

text \<open>The same for the latest-value store.\<close>

theorem badger_if_not_exist:
  assumes "badger_latest B kv txw pend sched" and "badger_ok kv s" and "entries_for app_key es"
    and "badger_SetAll B s es True b = (s', r)" and "app_key k"
  shows "(kv (st_db s) k \<noteq> None \<longrightarrow> badger_vers kv s' k = badger_vers kv s k) \<and>
    (r = Inr () \<longrightarrow> k \<in> entry_keys es \<longrightarrow> kv (st_db s) k = None \<longrightarrow>
      (\<exists>v. (k, v) \<in> set (map entry_kv es) \<and> badger_vers kv s' k = [b \<mapsto> v]))"
  using kv_store.set_all_keeps [OF badger_latest.contract [OF assms(1)] assms(2,3), of b s' r k]
    kv_store.set_all_inserts [OF badger_latest.contract [OF assms(1)] assms(2,3), of b s' k] assms(4,5)
  by (auto simp: badger_ops_def put_latest_def badger_vers_empty_iff badger_fresh_def)

theorem badger_if_not_exist_witness:
  "badger_vers map_of (fst (badger_SetAll mem_badger (latest_store [([1], value_with_block 3 [7])])
     [mk_entry [1] ''t'' [8]] True 5)) [1] = [3 \<mapsto> [7]]"
proof -
  let ?s = "latest_store [([1], value_with_block 3 [7])]"
  have ok: "badger_ok map_of ?s"
    by (auto simp: badger_ok_def latest_store_def value_with_block_def split: if_splits)
  obtain s' r where s': "badger_SetAll mem_badger ?s [mk_entry [1] ''t'' [8]] True 5 = (s', r)" by fastforce
  show ?thesis
    using badger_if_not_exist [OF mem_latest.badger_latest_axioms ok _ s', where k = "[1]"] s'
    by (simp add: badger_vers_def latest_store_def app_key_short)
qed

section \<open>Readiness\<close>

text \<open>C40: readiness survives restarts.  Whatever a remote feed writes (to other keys than the
  reserved one), however often \<open>SetReady\<close> is called or fails and the process is restarted,
  \<open>IsReady\<close> reports the argument of the last \<open>SetReady\<close> that returned without an error, and
  so does the database.\<close>

theorem readiness_survives_restarts:
  assumes "badger_kv B kv txw pend" and "\<forall>db db'. reopen db = Inr db' \<longrightarrow> kv db' = kv db"
    and "feed_run B reopen kv s r"
  shows "badger_IsReady s = Inr r \<and> ready_flag (kv (st_db s)) = r"
  using badger_kv.feed_run_flag [OF assms(1,3)] assms(2) by (auto simp: badger_IsReady_def)

theorem readiness_survives_restarts_witness:
  "\<exists>s. feed_run mem_badger Inr map_of s True \<and> st_ready s \<and> ready_flag (map_of (st_db s))"
proof -
  let ?mk = "\<lambda>_. Inr () :: error + unit"
  obtain s0 where s0: "badger_NewStore mem_badger ?mk (\<lambda>_. Inr []) ''p'' ''t'' 2 = Inr s0" and d: "st_db s0 = []"
    by (simp add: badger_NewStore_def readReadyFromDB_def mem_badger_def readyKey_def)
  have r0: "feed_run mem_badger Inr map_of s0 False"
    by (rule feed_open [OF s0]) (simp add: d)
  obtain s1 where s1: "badger_SetReady mem_badger s0 True = (s1, Inr ())"
    by (simp add: badger_SetReady_def mem_badger_def readyKey_def)
  have r1: "feed_run mem_badger Inr map_of s1 True" by (rule feed_ready [OF r0 s1])
  have "badger_IsReady s1 = Inr True \<and> ready_flag (map_of (st_db s1)) = True"
    by (rule readiness_survives_restarts [OF mem.badger_kv_axioms _ r1]) simp
  with r1 show ?thesis by (auto simp: badger_IsReady_def)
qed

text \<open>The reserved key is not reserved: a feed that sets it, at a block below \<open>2 ^ 56\<close>, makes the
  store not ready at its next start, while the running process still reports the flag it
  had.\<close>

theorem reserved_key_overwritten:
  assumes "badger_kv B kv txw pend" and "badger_SetAll B s [mk_entry readyKey t v] False b = (s', Inr ())"
    and "b < 2 ^ 56"
  shows "badger_IsReady s' = badger_IsReady s \<and> \<not> ready_flag (kv (st_db s'))"
proof -
  have k: "kv (st_db s') = (kv (st_db s))(readyKey \<mapsto> value_with_block b v)"
    using badger_kv.SetAll_ok [OF assms(1) _ assms(2)] by (auto simp: raw_badger_enc)
  have "(ucast (drop_bit 56 b) :: byte) = 0"
    using assms(3) by (simp add: ucast_drop_bit_digit word_less_nat_alt)
  then have "\<not> ready_flag (kv (st_db s'))"
    by (simp add: ready_flag_def k value_with_block_def putUint64_def)
  moreover have "st_ready s' = st_ready s"
    using badger_kv.SetAll_any [OF assms(1) _ assms(2)] by auto
  ultimately show ?thesis by (simp add: badger_IsReady_def)
qed

theorem reserved_key_overwritten_witness:
  "\<not> ready_flag (map_of (st_db (fst (badger_SetAll mem_badger
      (latest_store [(readyKey, [1])]) [mk_entry readyKey ''t'' [9]] False 5))))"
proof -
  obtain s' where s': "badger_SetAll mem_badger (latest_store [(readyKey, [1])])
      [mk_entry readyKey ''t'' [9]] False 5 = (s', Inr ())"
    using mem_latest.SetAll_returns [of "[mk_entry readyKey ''t'' [9]]" "latest_store [(readyKey, [1])]" False 5]
    by (cases "badger_SetAll mem_badger (latest_store [(readyKey, [1])]) [mk_entry readyKey ''t'' [9]] False 5")
      (auto simp: readyKey_def)
  show ?thesis
    using reserved_key_overwritten [OF mem.badger_kv_axioms s'] s' by simp
qed

section \<open>Undelimited scans\<close>

text \<open>The existence check of the time-traversal store looks for the key as a prefix.  With
  \<open>IfNotExist\<close>, an entry whose key is a prefix of a stored key is dropped without an error,
  though the store has no version of it.\<close>

theorem tt_if_not_exist_prefix:
  assumes "badger_kv B kv txw pend" and "kv (tt_db s) (makeTimeTraversalKey (k @ x) b') \<noteq> None"
    and "tt_SetAll B s [mk_entry k t v] True b = (s', r)"
  shows "kv (tt_db s') = kv (tt_db s)"
proof -
  have "\<forall>e\<in>set [mk_entry k t v]. entry_ok e" by simp
  then obtain es where w: "written tt_fresh True [mk_entry k t v] (kv (tt_db s)) es"
    and e: "kv (tt_db s') = apply_sets (map (raw (tt_enc b)) es) (kv (tt_db s))"
    using badger_kv.tt_SetAll_any [OF assms(1) _ assms(3)] by blast
  have "\<not> tt_fresh (kv (tt_db s)) k"
    using assms(2) by (auto simp: tt_fresh_def makeTimeTraversalKey_alt)
  then have "es = []" using w by (cases es) (auto simp: written_def)
  then show ?thesis by (simp add: e)
qed

theorem tt_if_not_exist_prefix_witness:
  "let s = versioned_store [(makeTimeTraversalKey [1, 2] 3, [7])];
       s' = fst (tt_SetAll mem_badger s [mk_entry [1] ''t'' [8]] True 5)
   in map_of (tt_db s') = [makeTimeTraversalKey [1, 2] 3 \<mapsto> [7]] \<and> tt_vers map_of s' [1] = (\<lambda>_. None)"
proof -
  let ?s = "versioned_store [(makeTimeTraversalKey [1, 2] 3, [7])]"
  obtain s' r where s': "tt_SetAll mem_badger ?s [mk_entry [1] ''t'' [8]] True 5 = (s', r)" by fastforce
  have k: "map_of (tt_db ?s) (makeTimeTraversalKey ([1] @ [2]) 3) \<noteq> None" by (simp add: versioned_store_def)
  have "map_of (tt_db s') = map_of (tt_db ?s)"
    by (rule tt_if_not_exist_prefix [OF mem.badger_kv_axioms k s'])
  then show ?thesis by (simp add: s' tt_vers_def fun_eq_iff) (simp add: versioned_store_def)
qed

text \<open>The range of a read is not delimited to the key that is asked for.  When the only key
  stored is \<open>k\<close> followed by the byte 255, with a version of block 300, a \<open>Get\<close> of \<open>k\<close>
  answers FOUND with the value of that other key.\<close>

theorem tt_Get_returns_other_key:
  assumes "badger_kv B kv txw pend" and "kv (tt_db s) = [makeTimeTraversalKey (k @ [255]) 300 \<mapsto> v]"
    and "1 \<le> c" and "tt_get_one B s c (Some \<lparr>Key_Bytes = k\<rparr>) = Inr q"
  shows "q = found (Some \<lparr>Key_Bytes = k\<rparr>) (tt_typeUrl s) v"
proof -
  let ?x = "makeTimeTraversalKey (k @ [255]) 300"
  have b: "putUint64 (18446744073709551615 - 300) = [255, 255, 255, 255, 255, 255, 254, 211]"
    "putUint64 (18446744073709551615 - 0) = [255, 255, 255, 255, 255, 255, 255, 255]"
    "putUint64 (18446744073709551615 - 1) = [255, 255, 255, 255, 255, 255, 255, 254]"
    by code_simp+
  have hi: "?x < makeTimeTraversalKey k 0 @ [0]"
    unfolding makeTimeTraversalKey_def Let_def b append_assoc append_less_append by simp
  have "makeTimeTraversalKey k c \<le> makeTimeTraversalKey k 1" using assms(3) by simp
  also have "makeTimeTraversalKey k 1 \<le> ?x"
    unfolding makeTimeTraversalKey_def Let_def b append_assoc append_le_append by simp
  finally have lo: "makeTimeTraversalKey k c \<le> ?x" .
  show ?thesis
  proof (cases "iter_seek B (tt_db s) False (makeTimeTraversalKey k c)")
    case Nil
    then show ?thesis using badger_kv.seek_forward_Nil [OF assms(1) Nil lo] assms(2) by simp
  next
    case (Cons it its)
    have "item_key B it = ?x"
      using badger_kv.seek_forward_head(2) [OF assms(1) Cons] assms(2) by (simp split: if_splits)
    moreover from this have "w = v" if "item_value B it = Inr w" for w
      using badger_kv.seek_value [OF assms(1), of it "tt_db s" False "makeTimeTraversalKey k c" w] that Cons assms(2) by simp
    ultimately show ?thesis
      using assms(4) Cons hi by (auto simp: tt_get_one_def Let_def bytes_compare_less split: sum.splits)
  qed
qed

theorem tt_Get_returns_other_key_witness:
  "tt_get_one mem_badger (versioned_store [(makeTimeTraversalKey [1, 255] 300, [9])]) 1000 (Some \<lparr>Key_Bytes = [1]\<rparr>) =
     Inr (found (Some \<lparr>Key_Bytes = [1]\<rparr>) ''t'' [9])"
proof -
  let ?s = "versioned_store [(makeTimeTraversalKey [1, 255] 300, [9])]"
  obtain q where q: "tt_get_one mem_badger ?s 1000 (Some \<lparr>Key_Bytes = [1]\<rparr>) = Inr q"
    using mem_tt.tt_get_one_returns by blast
  have "map_of (tt_db ?s) = [makeTimeTraversalKey ([1] @ [255]) 300 \<mapsto> [9]]" by (simp add: versioned_store_def)
  from tt_Get_returns_other_key [OF mem.badger_kv_axioms this _ q] q show ?thesis
    by (simp add: versioned_store_def)
qed

section \<open>The worker pool of a read\<close>

text \<open>C37: whatever the interleaving of the goroutines of a read, when none can step any more and none
  has panicked, all have returned and the caller gets the result of \<open>fan_out\<close> for the
  order in which they did.\<close>

theorem pool_interleavings:
  assumes "0 < workers" and "pool_reach workers job n p" and "\<nexists>p'. pool_step workers job p p'"
    and "crash p = None"
  shows "schedule n (order p) \<and> pool_result msg p = fan_out workers msg (order p) n job"
  using pool_result_fan_out [OF assms] by blast

theorem pool_interleavings_witness:
  "pool_result ''m'' \<lparr>phases = [Returned], slots = [Some (7 :: nat)], errc = None, crash = None, order = [0]\<rparr> =
     fan_out 1 ''m'' [0] 1 (\<lambda>_. Inr 7)"
proof -
  let ?job = "\<lambda>_. Inr 7 :: nat res"
  let ?p = "\<lparr>phases = [Returned], slots = [Some (7 :: nat)], errc = None, crash = None, order = [0]\<rparr>"
  have a: "pool_step 1 ?job (start_pool 1) ((start_pool 1)\<lparr>phases := [Holding]\<rparr>)"
    using pool_step.acquire [of "start_pool 1" 0 1 ?job] by simp
  have "0 \<in> in_phase Holding ((start_pool 1)\<lparr>phases := [Holding]\<rparr> :: nat pool)" by (simp add: in_phase_def)
  from pool_step.finish_ok [of "(start_pool 1)\<lparr>phases := [Holding]\<rparr>" 0 ?job 7 1, OF _ this]
  have b: "pool_step 1 ?job ((start_pool 1)\<lparr>phases := [Holding]\<rparr>) ?p" by (simp add: start_pool_def)
  have r: "pool_reach 1 ?job 1 ?p"
    by (rule pool_reach.step [OF pool_reach.step [OF pool_reach.start a] b])
  have s: "\<nexists>p'. pool_step 1 ?job ?p p'"
    by (auto elim!: pool_step.cases simp: in_phase_def)
  show ?thesis using pool_interleavings [OF _ r s, where msg = "''m''"] by simp
qed

text \<open>C38: a read with at least one worker does not deadlock: every step of the pool leaves less to
  do, and a pool that cannot step has returned all its goroutines or has panicked.  With
  \<open>numWorkers\<close> zero no goroutine ever takes a step.\<close>

theorem pool_progress:
  "(pool_step workers job p p' \<longrightarrow> pool_work p' < pool_work p) \<and>
   (0 < workers \<longrightarrow> pool_reach workers job n p \<longrightarrow> (\<nexists>p'. pool_step workers job p p') \<longrightarrow>
      crash p \<noteq> None \<or> in_phase Returned p = {..<n}) \<and>
   \<not> pool_step 0 job (start_pool n) p'"
  using pool_step_work pool_stuck_done pool_reach_inv no_workers_stuck by metis

theorem pool_progress_witness:
  "pool_work ((start_pool 1 :: nat pool)\<lparr>phases := [Holding]\<rparr>) < pool_work (start_pool 1 :: nat pool)"
proof -
  have "pool_step 1 (\<lambda>_. Inr 7 :: nat res) (start_pool 1) ((start_pool 1)\<lparr>phases := [Holding]\<rparr>)"
    using pool_step.acquire [of "start_pool 1" 0 1 "\<lambda>_. Inr 7 :: nat res"] by simp
  then show ?thesis using pool_progress by blast
qed

end
