(* ===== verification/Grpc_Properties.thy ===== *)
theory Grpc_Properties
  imports Grpc_Reads Sinker_Properties Badger_Properties
begin

text \<open>
  The properties of the gRPC services: authentication of every registered method, the
  agreement of the v1 and v2 services, the remote-feed mode and its readiness gate, and
  what the server of the sink mode answers after a run of signals.
\<close>

section \<open>The remote-feed store\<close>

text \<open>
  The contract of \<open>RemoteFeedStore\<close>: a backend with latest-value semantics and a readiness
  flag.  Badger's store provides it.
\<close>

locale remote_feed_store = reliable_kv_store W vers turl ok user_key put
  for W :: "'w remote_feed_ops" and vers turl ok user_key put +
  assumes put_final: "latest_at (put m 0 v) c = Some v"
    and set_ready_done: "ok w \<Longrightarrow> op_SetReady W w r = (w', Inr ()) \<Longrightarrow>
      ok w' \<and> op_IsReady W w' = Inr r"
    and set_ready_frame: "ok w \<Longrightarrow> op_SetReady W w r = (w', x) \<Longrightarrow> user_key k \<Longrightarrow> vers w' k = vers w k"

text \<open>The contract depends on the two operations only.\<close>

lemma kv_store_cong:
  "op_SetAll W' = op_SetAll W \<Longrightarrow> op_Get W' = op_Get W \<Longrightarrow>
   kv_store W' vers turl ok U put = kv_store W vers turl ok U put"
  by (simp add: kv_store_def)

lemma reliable_kv_store_cong:
  "op_SetAll W' = op_SetAll W \<Longrightarrow> op_Get W' = op_Get W \<Longrightarrow>
   reliable_kv_store W' vers turl ok U put = reliable_kv_store W vers turl ok U put"
  by (simp add: reliable_kv_store_def reliable_kv_store_axioms_def kv_store_cong [of W' W])

definition badger_feed_ops :: "('db, 'it, 'txn, 'wb) badger_api \<Rightarrow> (nat \<Rightarrow> nat list) \<Rightarrow>
    'db badger_store remote_feed_ops" where
  "badger_feed_ops B sched =
     \<lparr>op_SetAll = badger_SetAll B,
      op_Get = (\<lambda>s req. badger_Get B (sched (length (GetRequest_Keys req))) s req),
      op_GetFirst = (\<lambda>s req. badger_GetFirst B (sched (length (GetRequest_Keys req))) s req),
      op_SetReady = badger_SetReady B, op_IsReady = badger_IsReady\<rparr>"

lemma badger_feed_ops_same:
  "op_SetAll (badger_feed_ops B sched) = op_SetAll (badger_ops B sched)"
  "op_Get (badger_feed_ops B sched) = op_Get (badger_ops B sched)"
  by (simp_all add: badger_feed_ops_def badger_ops_def)

lemma latest_at_put_latest: "latest_at (put_latest m 0 v) c = Some v"
  by (simp add: put_latest_def)

lemma badger_SetReady_same:
  "badger_SetReady B s r = (s', x) \<Longrightarrow> st_numWorkers s' = st_numWorkers s \<and> st_typeUrl s' = st_typeUrl s"
  by (auto simp: badger_SetReady_def Let_def split: prod.splits sum.splits)

context badger_kv
begin

lemma SetReady_frame:
  assumes "badger_SetReady B s r = (s', x)" and "app_key k"
  shows "kv (st_db s') k = kv (st_db s) k"
proof (cases x)
  case (Inl f)
  then show ?thesis using SetReady_fail assms(1) by metis
next
  case (Inr u)
  then show ?thesis using SetReady_ok(1) [of s r s'] assms by (simp add: app_key_def)
qed

lemma SetReady_keeps:
  assumes "badger_ok kv s" and "badger_SetReady B s r = (s', x)"
  shows "badger_ok kv s'"
  using assms(1) SetReady_frame [OF assms(2)] by (simp add: badger_ok_def)

end

sublocale badger_latest_reliable \<subseteq> feed: remote_feed_store "badger_feed_ops B sched" "badger_vers kv"
  st_typeUrl "\<lambda>s. badger_ok kv s \<and> 0 < st_numWorkers s" "\<lambda>k. app_key k \<and> key_ok k" put_latest
proof (intro remote_feed_store.intro remote_feed_store_axioms.intro)
  show "reliable_kv_store (badger_feed_ops B sched) (badger_vers kv) st_typeUrl
      (\<lambda>s. badger_ok kv s \<and> 0 < st_numWorkers s) (\<lambda>k. app_key k \<and> key_ok k) put_latest"
    unfolding reliable_kv_store_cong [OF badger_feed_ops_same]
    by (rule total.reliable_kv_store_axioms)
next
  fix w r w'
  assume w: "badger_ok kv w \<and> 0 < st_numWorkers w"
    and "op_SetReady (badger_feed_ops B sched) w r = (w', Inr ())"
  then have s: "badger_SetReady B w r = (w', Inr ())" by (simp add: badger_feed_ops_def)
  show "(badger_ok kv w' \<and> 0 < st_numWorkers w') \<and> op_IsReady (badger_feed_ops B sched) w' = Inr r"
    using SetReady_keeps [OF _ s] badger_SetReady_same [OF s] SetReady_ok(2) [OF s] w
    by (simp add: badger_feed_ops_def badger_IsReady_def)
next
  fix w r w' x k
  assume "op_SetReady (badger_feed_ops B sched) w r = (w', x)" and "app_key k \<and> key_ok k"
  then show "badger_vers kv w' k = badger_vers kv w k"
    using SetReady_frame [of w r w' x k] by (simp add: badger_feed_ops_def badger_vers_def)
qed (rule latest_at_put_latest)

lemmas mem_feed_contract = mem_latest.feed.remote_feed_store_axioms

section \<open>The servers\<close>

lemma gs_simps [simp]:
  "op_Get (gs_store (NewRemoteFeedServer R)) = op_Get R"
  "gs_headBlockFetcher (NewRemoteFeedServer R) w = - 1"
  "gs_feedServer (NewRemoteFeedServer R) = Some R"
  "grpc_checkReady (NewRemoteFeedServer R) w = wrap_res ''checking store readiness'' (op_IsReady R w)"
  "gs_store (NewStoreServer W h) = W" "gs_headBlockFetcher (NewStoreServer W h) = h"
  "grpc_checkReady (NewStoreServer W h) w = Inr True"
  by (simp_all add: NewRemoteFeedServer_def NewStoreServer_def grpc_checkReady_def store_ops.defs)

context reliable_kv_store
begin

lemma reads_contract: "read_store (op_Get W) ok user_key (\<lambda>w. answer (turl w) (vers w))"
  by (rule reads.read_store_axioms)

lemma fork_reads_contract: "read_store (fork_Get W) (\<lambda>s. fork_inv user_key s \<and> ok (fs_wrapped s)) user_key
    (fork_answer turl vers)"
  by (rule fork_reads.read_store_axioms)

end

context remote_feed_store
begin

text \<open>A fed entry is read after \<open>SetReady\<close>, at every block.\<close>

lemma fed_read:
  assumes "ok w" and "SetRequest_Entries sreq = Some es" and "entries_for user_key (SinkEntries_Entries es)"
    and "\<not> SinkEntries_IfNotExist es" and "feed_Set W w sreq = (w1, Inr SetResponse)"
    and "feed_SetReady W w1 \<lparr>SetReadyRequest_Ready = True\<rparr> = (w2, Inr SetReadyResponse)"
    and "GetRequest_Keys req = map Some ks" and "\<forall>k\<in>set ks. Key_Bytes k \<in> entry_keys (SinkEntries_Entries es)"
  shows "\<exists>r. grpc_Get (NewRemoteFeedServer W :: ('w, 'd) GrpcServer) w2 req = Inr r \<and> GetResponse_BlockReached r \<and>
    map answer_value (QueriedEntries_GetEntries (GetResponse_Entries r)) =
    map (\<lambda>k. last_write (SinkEntries_Entries es) (Key_Bytes k)) ks"
proof -
  let ?es = "SinkEntries_Entries es"
  have U: "user_key k" if "k \<in> entry_keys ?es" for k
    using that assms(3) by (auto simp: entry_keys_def entries_for_def)
  have w1: "ok w1 \<and> (\<forall>k\<in>entry_keys ?es. \<exists>v m. last_write ?es k = Some v \<and> vers w1 k = put m 0 v)"
  proof (cases "?es = []")
    case True
    then show ?thesis using assms(1,2,5) by (simp add: feed_Set_def entry_keys_def)
  next
    case False
    then have s: "op_SetAll W w ?es False 0 = (w1, Inr ())"
      using assms(2,4,5) by (auto simp: feed_Set_def res_simps split: prod.splits)
    show ?thesis
    proof (intro conjI ballI)
      show "ok w1" using set_all_ok [OF assms(1,3) s] by simp
      fix k assume k: "k \<in> entry_keys ?es"
      then obtain v where v: "last_write ?es k = Some v" by (metis last_write_None_iff not_None_eq)
      then show "\<exists>v m. last_write ?es k = Some v \<and> vers w1 k = put m 0 v"
        using set_all_writes [OF assms(1,3) s U [OF k]] by auto
    qed
  qed
  have r: "op_SetReady W w1 True = (w2, Inr ())"
    using assms(6) by (auto simp: feed_SetReady_def res_simps split: prod.splits)
  have w2: "ok w2" "op_IsReady W w2 = Inr True" using set_ready_done [OF _ r] w1 by auto
  have v: "latest_at (vers w2 k) c = last_write ?es k" if "k \<in> entry_keys ?es" for k c
    using set_ready_frame [OF _ r U [OF that]] w1 that put_final by force
  have ks: "\<forall>k\<in>set ks. user_key (Key_Bytes k)" using assms(8) U by blast
  have "grpc_Get (NewRemoteFeedServer W :: ('w, 'd) GrpcServer) w2 req = Inr
      (response (map (\<lambda>k. Some (answer (turl w2) (vers w2) (GetRequest_BlockNumber req) k)) ks))"
    using reads.grpc_Get_answers [OF w2(1) _ _ assms(7) ks, of "NewRemoteFeedServer W"] w2(2) by simp
  then show ?thesis using assms(8) by (simp add: v)
qed

end

section \<open>Authentication\<close>

text \<open>Every registered handler is a \<open>unary_handler\<close> of a method that is no health check.\<close>

definition guarded :: "('c, 'w) method_handler \<Rightarrow> bool" where
  "guarded h \<longleftrightarrow> (\<exists>zero m run. h = unary_handler zero m run \<and> \<not> isHealthMethod m)"

lemma guarded_unary: "\<not> isHealthMethod m \<Longrightarrow> guarded (unary_handler zero m run)"
  unfolding guarded_def by blast

lemma guarded_handlers:
  "guarded (Store_Get_Handler srv)" "guarded (Store_GetFirst_Handler srv)"
  "guarded (V1Store_Get_Handler srv1)" "guarded (V1Store_GetAll_Handler srv1)"
  "guarded (Feed_Set_Handler srv2)" "guarded (Feed_SetReady_Handler srv2)"
  unfolding Store_Get_Handler_def Store_GetFirst_Handler_def V1Store_Get_Handler_def
    V1Store_GetAll_Handler_def Feed_Set_Handler_def Feed_SetReady_Handler_def
  by (rule guarded_unary, simp add: isHealthMethod_def has_prefix_def)+

lemma guarded_registrations:
  "sd \<in> set (registrations S) \<Longrightarrow> (name, h) \<in> set (sd_Methods sd) \<Longrightarrow> guarded h"
  by (auto simp: registrations_def Store_ServiceDesc_def V1Store_ServiceDesc_def Feed_ServiceDesc_def
    guarded_handlers split: option.splits)

lemma chained_handler:
  assumes "chains chain" and "dec zero = Inr request"
  shows "unary_handler zero m run ctx dec (chain is) w = run_chain is m run ctx request w"
  using assms unfolding chains_def unary_handler_def by simp

lemma guarded_method:
  assumes "AuthConfig_Authenticator cfg = Some a" and "AuthConfig_OrganizationID cfg \<noteq> ''''"
    and "checker_ok (unary_checker A a) login" and "chains chain"
    and "sd \<in> set (registrations S)" and "(name, h) \<in> set (sd_Methods sd)"
  shows "if authorized A login (AuthConfig_OrganizationID cfg) ctx
    then \<exists>ctx'. login ctx = Some ctx' \<and> h ctx dec (chain (authUnaryInterceptors A cfg)) w = h ctx' dec None w
    else \<exists>e. h ctx dec (chain (authUnaryInterceptors A cfg)) w = (w, Inl (Error e))"
proof -
  obtain zero m run where h: "h = unary_handler zero m run" and m: "\<not> isHealthMethod m"
    using guarded_registrations [OF assms(5,6)] unfolding guarded_def by blast
  show ?thesis
  proof (cases "dec zero")
    case (Inl e)
    then show ?thesis by (auto simp: h unary_handler_def authorized_def)
  next
    case (Inr request)
    show ?thesis
      using auth_chain [OF assms(1-3) m, of ctx run request w]
      unfolding h chained_handler [where dec = dec, OF assms(4) Inr]
      by (simp add: unary_handler_def Inr)
  qed
qed

text \<open>C19: with an authenticator and an organization, every method that a server registers, the feed
  included, runs for members of the organization only, in the context that the authenticator
  derives; for everyone else it answers with an error and has changed nothing.\<close>

theorem auth_guards_every_method:
  assumes "AuthConfig_Authenticator cfg = Some a" and "AuthConfig_OrganizationID cfg \<noteq> ''''"
    and "checker_ok (unary_checker A a) login" and "chains chain"
    and "sd \<in> set (registrations S)" and "(name, h) \<in> set (sd_Methods sd)"
  shows "if authorized A login (AuthConfig_OrganizationID cfg) ctx
    then \<exists>ctx'. login ctx = Some ctx' \<and> h ctx dec (chain (authUnaryInterceptors A cfg)) w = h ctx' dec None w
    else \<exists>e. h ctx dec (chain (authUnaryInterceptors A cfg)) w = (w, Inl (Error e))"
  by (rule guarded_method [OF assms])

text \<open>A small instance: a context is the name of the caller's organization.\<close>

definition demo_auth :: "(unit, string, string, string, 'w) auth_api" where
  "demo_auth =
     \<lparr>unary_checker = (\<lambda>_ ctx req m h w.
        if ctx = '''' then (w, Inl (Error (Status ''Unauthenticated'' ''no token''))) else h ctx req w),
      stream_checker = (\<lambda>_ ss m h w.
        if ss = '''' then (w, Inl (Error (Status ''Unauthenticated'' ''no token''))) else h ss w),
      from_context = Some, organization_id = (\<lambda>h. h), stream_context = (\<lambda>ss. ss)\<rparr>"

definition demo_login :: "string \<Rightarrow> string option" where
  "demo_login ctx = (if ctx = '''' then None else Some ctx)"

fun demo_chain :: "('c, 'w) unary_interceptor list \<Rightarrow> ('c, 'w) unary_interceptor option" where
  "demo_chain [] = None"
| "demo_chain (i # is) = Some (\<lambda>ctx req m h w. run_chain (i # is) m h ctx req w)"

lemma demo_chains: "chains demo_chain"
  unfolding chains_def
proof (intro allI)
  fix "is" ctx req m h w
  show "(case demo_chain is of None \<Rightarrow> h ctx req w | Some i \<Rightarrow> i ctx req m h w) = run_chain is m h ctx req w"
    by (cases "is") simp_all
qed

lemma demo_checker_ok: "checker_ok (unary_checker demo_auth ()) demo_login"
  by (simp add: checker_ok_def demo_auth_def demo_login_def)

definition mem_feed_ops :: "mem_db badger_store remote_feed_ops" where
  "mem_feed_ops = badger_feed_ops mem_badger (\<lambda>n. [0..<n])"

abbreviation mem_feed_server :: "(mem_db badger_store, unit) GrpcServer" where
  "mem_feed_server \<equiv> NewRemoteFeedServer mem_feed_ops"

definition demo_config :: "unit AuthConfig" where
  "demo_config = \<lparr>AuthConfig_Authenticator = Some (), AuthConfig_OrganizationID = ''acme''\<rparr>"

lemma demo_config_simps [simp]:
  "AuthConfig_Authenticator demo_config = Some ()" "AuthConfig_OrganizationID demo_config = ''acme''"
  by (simp_all add: demo_config_def)

lemma demo_registered:
  "Feed_ServiceDesc (feed_FeedServer mem_feed_ops) \<in> set (registrations (NewRemoteFeedServer mem_feed_ops))"
  by (simp add: registrations_def)

theorem auth_guards_every_method_witness:
  "\<exists>e. Feed_SetReady_Handler (feed_FeedServer mem_feed_ops) ''other'' (\<lambda>m. Inr m)
     (demo_chain (authUnaryInterceptors demo_auth demo_config)) (latest_store []) = (latest_store [], Inl (Error e))"
proof -
  have m: "(''SetReady'', Feed_SetReady_Handler (feed_FeedServer mem_feed_ops)) \<in>
      set (sd_Methods (Feed_ServiceDesc (feed_FeedServer mem_feed_ops)))"
    by (simp add: Feed_ServiceDesc_def)
  have "\<not> authorized (demo_auth :: (_, _, _, _, mem_db badger_store) auth_api) demo_login ''acme'' ''other''"
    by (simp add: authorized_def demo_auth_def demo_login_def)
  then show ?thesis
    using auth_guards_every_method [OF _ _ demo_checker_ok demo_chains demo_registered m,
        of demo_config "''other''" "\<lambda>m. Inr m" "latest_store []"]
    by simp
qed

section \<open>The remote-feed mode\<close>

text \<open>C20: what the feed has written is served.  After a \<open>Set\<close> without \<open>IfNotExist\<close> and a
  \<open>SetReady(true)\<close> have returned, a v2 read of the keys, at any block, returns with
  \<open>BlockReached\<close> and the value that the \<open>Set\<close> wrote last for each key.\<close>

theorem fed_data_is_served:
  assumes "remote_feed_store R vers turl ok U put" and "ok w"
    and "SetRequest_Entries sreq = Some es" and "entries_for U (SinkEntries_Entries es)"
    and "\<not> SinkEntries_IfNotExist es" and "feed_Set R w sreq = (w1, Inr SetResponse)"
    and "feed_SetReady R w1 \<lparr>SetReadyRequest_Ready = True\<rparr> = (w2, Inr SetReadyResponse)"
    and "GetRequest_Keys req = map Some ks" and "\<forall>k\<in>set ks. Key_Bytes k \<in> entry_keys (SinkEntries_Entries es)"
  shows "\<exists>r. grpc_Get (NewRemoteFeedServer R) w2 req = Inr r \<and> GetResponse_BlockReached r \<and>
    map answer_value (QueriedEntries_GetEntries (GetResponse_Entries r)) =
    map (\<lambda>k. last_write (SinkEntries_Entries es) (Key_Bytes k)) ks"
  by (rule remote_feed_store.fed_read [OF assms])

lemma mem_feed_store: "remote_feed_store mem_feed_ops (badger_vers map_of) st_typeUrl
    (\<lambda>s. badger_ok map_of s \<and> 0 < st_numWorkers s) (\<lambda>k. app_key k \<and> k \<noteq> []) put_latest"
  unfolding mem_feed_ops_def by (rule mem_feed_contract)

lemma latest_store_returns:
  assumes "entries_for (\<lambda>k. app_key k \<and> k \<noteq> []) es"
  shows "snd (badger_SetAll mem_badger s es ine b) = Inr ()"
  using mem_latest.SetAll_returns [of es s ine b] assms by (simp add: entries_for_def)

lemma mem_SetReady_returns: "snd (badger_SetReady mem_badger s r) = Inr ()"
  by (simp add: badger_SetReady_def mem_badger_def Let_def readyKey_def)

theorem fed_data_is_served_witness:
  "\<exists>w1 w2 r. feed_Set mem_feed_ops (latest_store [])
      \<lparr>SetRequest_Entries = Some \<lparr>SinkEntries_Entries = [sample_entry 7], SinkEntries_IfNotExist = False\<rparr>\<rparr> =
      (w1, Inr SetResponse) \<and>
    feed_SetReady mem_feed_ops w1 \<lparr>SetReadyRequest_Ready = True\<rparr> = (w2, Inr SetReadyResponse) \<and>
    grpc_Get mem_feed_server w2 (sample_request 9) = Inr r \<and>
    map answer_value (QueriedEntries_GetEntries (GetResponse_Entries r)) = [Some [7]]"
proof -
  let ?es = "\<lparr>SinkEntries_Entries = [sample_entry 7], SinkEntries_IfNotExist = False\<rparr>"
  have k: "app_key [1]" by (rule app_key_short) simp
  have es: "entries_for (\<lambda>k. app_key k \<and> k \<noteq> []) [sample_entry 7]" using k by simp
  obtain w1 where w1: "badger_SetAll mem_badger (latest_store []) [sample_entry 7] False 0 = (w1, Inr ())"
    using latest_store_returns [OF es, of "latest_store []" False 0]
    by (cases "badger_SetAll mem_badger (latest_store []) [sample_entry 7] False 0") simp
  obtain w2 where w2: "badger_SetReady mem_badger w1 True = (w2, Inr ())"
    using mem_SetReady_returns [of w1 True] by (cases "badger_SetReady mem_badger w1 True") simp
  have a: "feed_Set mem_feed_ops (latest_store []) \<lparr>SetRequest_Entries = Some ?es\<rparr> = (w1, Inr SetResponse)"
    by (simp add: feed_Set_def mem_feed_ops_def badger_feed_ops_def w1)
  have b: "feed_SetReady mem_feed_ops w1 \<lparr>SetReadyRequest_Ready = True\<rparr> = (w2, Inr SetReadyResponse)"
    by (simp add: feed_SetReady_def mem_feed_ops_def badger_feed_ops_def w2)
  show ?thesis
    using fed_data_is_served [OF mem_feed_store _ _ _ _ a b, where req = "sample_request 9" and ks = "[sample_key]" and es = ?es] es a b
      latest_store_ok
    by (auto simp: latest_store_def)
qed

text \<open>The readiness gate covers the v2 service only.  While the store is not ready, v2 \<open>Get\<close> and
  \<open>GetFirst\<close> answer every request with \<open>BlockReached\<close> false, but the legacy v1 service, which
  is registered on the same listener, answers with the stored data and \<open>BlockReached\<close> true.\<close>

theorem legacy_ignores_readiness:
  assumes "remote_feed_store R vers turl ok U put" and "ok w" and "op_IsReady R w = Inr False"
    and "U (V1GetRequest_Key v1req)" and "S = NewRemoteFeedServer R"
    and "L = legacy_NewServer (gs_store S) (gs_headBlockFetcher S)"
  shows "grpc_Get S w req = Inr not_reached \<and> grpc_GetFirst S w req = Inr not_reached \<and>
    V1Store_ServiceDesc (legacy_StoreServer L) \<in> set (registrations S) \<and>
    legacy_Get L w v1req =
      Inr (case latest_at (vers w (V1GetRequest_Key v1req)) (V1GetRequest_BlockNumber v1req) of
        None \<Rightarrow> v1_response True V1_RESPONSE_CODE_NOT_FOUND None
      | Some v \<Rightarrow> v1_response True V1_RESPONSE_CODE_FOUND (Some \<lparr>Any_TypeUrl = turl w, Any_Value = v\<rparr>))"
proof -
  have "legacy_Get L w v1req = Inr (legacy_get_entry (V1GetRequest_OmitDeleted v1req)
      (Some (answer (turl w) (vers w) (V1GetRequest_BlockNumber v1req) \<lparr>Key_Bytes = V1GetRequest_Key v1req\<rparr>)))"
    by (rule read_store.legacy_Get_answers [OF reliable_kv_store.reads_contract
          [OF remote_feed_store.axioms(1) [OF assms(1)]] assms(2) _ assms(4)])
      (simp_all add: assms(5,6) legacy_NewServer_def)
  then show ?thesis
    using assms(3)
    by (simp add: assms(5) grpc_Get_def grpc_GetFirst_def registrations_def legacy_get_entry_def answer_def
        found_def not_found_def v1_response_def assms(6) [unfolded assms(5)] split: option.split)
qed

theorem legacy_ignores_readiness_witness:
  "let w = latest_store [([1], value_with_block 0 [7])]; S = mem_feed_server in
   grpc_Get S w (sample_request 0) = Inr not_reached \<and>
   legacy_Get (legacy_NewServer (gs_store S) (gs_headBlockFetcher S)) w
     \<lparr>V1GetRequest_BlockNumber = 0, V1GetRequest_BlockHash = [], V1GetRequest_OmitDeleted = False, V1GetRequest_Key = [1]\<rparr> =
     Inr (v1_response True V1_RESPONSE_CODE_FOUND (Some \<lparr>Any_TypeUrl = ''t'', Any_Value = [7]\<rparr>))"
proof -
  let ?w = "latest_store [([1], value_with_block 0 [7])]"
  have k: "app_key [1]" by (rule app_key_short) simp
  have w: "badger_ok map_of ?w \<and> 0 < st_numWorkers ?w"
    by (simp add: badger_ok_def latest_store_def value_with_block_def)
  have v: "badger_vers map_of ?w [1] = [0 \<mapsto> [7]]" and t: "st_typeUrl ?w = ''t''"
    by (simp_all add: badger_vers_def latest_store_def)
  have n: "op_IsReady mem_feed_ops ?w = Inr False"
    by (simp add: mem_feed_ops_def badger_feed_ops_def badger_IsReady_def latest_store_def)
  note r = legacy_ignores_readiness [where S = mem_feed_server and req = "sample_request 0"
      and v1req = "\<lparr>V1GetRequest_BlockNumber = 0, V1GetRequest_BlockHash = [], V1GetRequest_OmitDeleted = False, V1GetRequest_Key = [1]\<rparr>",
      OF mem_feed_store w n _ refl refl]
  show ?thesis
    unfolding Let_def
    using r [THEN conjunct1] r [THEN conjunct2, THEN conjunct2, THEN conjunct2] k
    by (simp add: v t)
qed

section \<open>The v1 service against the v2 service\<close>

text \<open>What an answer says: its key, the number of its code, its value.\<close>

fun v2_says :: "QueriedEntry option \<Rightarrow> bytes \<times> 32 word \<times> Any option" where
  "v2_says q = (Key_GetBytes (Entry_GetKey (QueriedEntry_GetEntry q)),
     ResponseCode_Number (QueriedEntry_GetCode q), Entry_GetValue (QueriedEntry_GetEntry q))"

fun v1_says :: "V1ResponseEntry option \<Rightarrow> bytes \<times> 32 word \<times> Any option" where
  "v1_says e = (V1ResponseEntry_GetKey e,
     V1ResponseCode_Number (V1GetResponse_GetCode (V1ResponseEntry_GetResponse e)),
     V1GetResponse_GetValue (V1ResponseEntry_GetResponse e))"

lemma v1_says_getall:
  assumes "answer_ok \<lparr>Key_Bytes = k\<rparr> q"
  shows "v1_says (Some (legacy_getall_entry om (Some q))) = v2_says (Some q)"
  using assms by (auto simp: answer_ok_def legacy_getall_entry_def v1_response_def Let_def)


definition mem_read_server :: "(mem_db badger_store, unit) GrpcServer" where
  "mem_read_server = NewStoreServer (badger_ops mem_badger (\<lambda>n. [0..<n])) (\<lambda>_. 5)"


section \<open>The server of the sink mode\<close>

text \<open>
  The server and the sink share one fork-aware store, and the server asks the sink for
  the head block (\<open>cmd/foundational-store/server.go\<close>): the operations of the store and
  \<open>HeadBlock\<close>, on the state of the sink.
\<close>

definition sink_store_ops :: "('s, 'x) store_ops_scheme \<Rightarrow> ('s, 'c, 'fs) sinker store_ops" where
  "sink_store_ops F =
     \<lparr>op_SetAll = (\<lambda>s es ine b. case op_SetAll F (sk_store s) es ine b of (st, r) \<Rightarrow> (s\<lparr>sk_store := st\<rparr>, r)),
      op_Get = (\<lambda>s. op_Get F (sk_store s)), op_GetFirst = (\<lambda>s. op_GetFirst F (sk_store s))\<rparr>"

definition sink_server :: "('s, 'x) store_ops_scheme \<Rightarrow> (('s, 'c, 'fs) sinker, 'd) GrpcServer" where
  "sink_server F = NewStoreServer (sink_store_ops F) HeadBlock"

lemma read_store_lens:
  "read_store get ok U ans \<Longrightarrow> read_store (\<lambda>s. get (f s)) (\<lambda>s. ok (f s)) U (\<lambda>s. ans (f s))"
  by (simp add: read_store_def)

context reliable_kv_store
begin

lemma sink_server_response:
  assumes "fork_inv user_key (sk_store s)" and "ok (fs_wrapped (sk_store s))"
    and "GetRequest_Keys req = map Some ks" and "\<forall>k\<in>set ks. user_key (Key_Bytes k)"
  shows "grpc_Get (sink_server (fork_ops W cord)) s req = Inr
    (if HeadBlock s < GetRequest_BlockNumber req then not_reached
     else response (map (\<lambda>k. Some (fork_answer turl vers (sk_store s) (GetRequest_BlockNumber req) k)) ks))"
proof -
  have g: "read_store (\<lambda>s. fork_Get W (sk_store s)) (\<lambda>s. fork_inv user_key (sk_store s) \<and> ok (fs_wrapped (sk_store s)))
      user_key (\<lambda>s. fork_answer turl vers (sk_store s))"
    by (rule read_store_lens [OF fork_reads_contract])
  show ?thesis
    using read_store.grpc_Get_answers [OF g _ _ _ assms(3,4), of s "sink_server (fork_ops W cord)"] assms(1,2)
    by (simp add: sink_server_def sink_store_ops_def fork_ops_def)
qed

end

lemma sink_server_answers:
  assumes "reliable_kv_store W vers turl ok U put" and "represents U vers (sk_store s) A"
    and "ok (fs_wrapped (sk_store s))" and "map_order cord"
    and "spec_allows_run U (concat (map (signal_ops C D) xs)) A"
    and "sink_run C (fork_ops W cord) D ord xs s = (s', Inr ())" and "xs \<noteq> []"
    and "GetRequest_Keys req = map Some ks" and "\<forall>k\<in>set ks. U (Key_Bytes k)"
    and "\<forall>k\<in>set ks. reads_exactly (spec_run (concat (map (signal_ops C D) xs)) A) (GetRequest_BlockNumber req) (Key_Bytes k)"
  shows "\<exists>r n. grpc_Get (sink_server (fork_ops W cord)) s' req = Inr r \<and> signal_block (last xs) = Some n \<and>
    (if n < GetRequest_BlockNumber req then r = not_reached
     else GetResponse_BlockReached r \<and>
       map answer_value (QueriedEntries_GetEntries (GetResponse_Entries r)) =
       map (\<lambda>k. latest_at (sp_versions (spec_run (concat (map (signal_ops C D) xs)) A) (Key_Bytes k))
         (GetRequest_BlockNumber req)) ks)"
proof -
  let ?B = "spec_run (concat (map (signal_ops C D) xs)) A" and ?n = "GetRequest_BlockNumber req"
  note K = reliable_kv_store.axioms(1) [OF assms(1)]
  have R: "represents U vers (sk_store s') ?B" and w: "ok (fs_wrapped (sk_store s'))"
    and h: "signal_block (last xs) = Some (HeadBlock s')"
    using kv_store.represents_run [OF K assms(2-5)] sink_run_fork_run [OF assms(6)] assms(7)
    by (auto simp: HeadBlock_def)
  have i: "fork_inv U (sk_store s')" by (rule representsD(1) [OF R])
  note r = reliable_kv_store.sink_server_response [OF assms(1) i w assms(8,9), of cord]
  have v: "answer_value (Some (fork_answer turl vers (sk_store s') ?n k)) = latest_at (sp_versions ?B (Key_Bytes k)) ?n"
    if "k \<in> set ks" for k
    using answer_value_fork_answer [OF i] represents_view [OF R] assms(9,10) that by simp
  show ?thesis using r h v by auto
qed



end
