(* ===== verification/Dsn.thy ===== *)
theory Dsn
  imports Prelude "HOL-Library.Char_ord"
begin

text \<open>
  Data source names (\<open>store/dsn.go\<close>): a URL is taken apart into the fields of a
  connection, and put together again as the \<open>key=value\<close> string that the Postgres driver
  reads.  The expansion of variables (\<open>envsubst\<close>, with the environment) and \<open>url.Parse\<close>
  are parameters; the accessors of a parsed URL, \<open>strconv.ParseInt\<close> and
  \<open>strings.Replace\<close> are written out as far as the code uses them.
\<close>

section \<open>What is used of the standard library\<close>

text \<open>
  A parsed URL: \<open>url_User\<close> is nil or a name with an optional password, \<open>url_Query\<close> the map
  that \<open>Query()\<close> returns (every key with its values, in the order of the query).
\<close>

record URL =
  url_Scheme :: string
  url_Host :: string
  url_User :: "(string \<times> string option) option"
  url_EscapedPath :: string
  url_Query :: "(string \<times> string list) list"

definition is_digit :: "char \<Rightarrow> bool" where
  "is_digit c \<longleftrightarrow> c \<in> set ''0123456789''"

text \<open>\<open>splitHostPort\<close> of \<open>net/url\<close>: a last \<open>:\<close> followed by digits only separates a port; brackets go.\<close>

definition split_last_colon :: "string \<Rightarrow> (string \<times> string) option" where
  "split_last_colon s =
     (if CHR '':'' \<in> set s
      then Some (rev (drop 1 (dropWhile (\<lambda>c. c \<noteq> CHR '':'') (rev s))), rev (takeWhile (\<lambda>c. c \<noteq> CHR '':'') (rev s)))
      else None)"

definition strip_brackets :: "string \<Rightarrow> string" where
  "strip_brackets h =
     (if 2 \<le> length h \<and> hd h = CHR ''['' \<and> last h = CHR '']'' then butlast (tl h) else h)"

definition splitHostPort :: "string \<Rightarrow> string \<times> string" where
  "splitHostPort hostPort =
     (case split_last_colon hostPort of
        Some (h, p) \<Rightarrow> if list_all is_digit p then (strip_brackets h, p) else (strip_brackets hostPort, '''')
      | None \<Rightarrow> (strip_brackets hostPort, ''''))"

definition url_Hostname :: "URL \<Rightarrow> string" where
  "url_Hostname u = fst (splitHostPort (url_Host u))"

definition url_Port :: "URL \<Rightarrow> string" where
  "url_Port u = snd (splitHostPort (url_Host u))"

definition url_Username :: "URL \<Rightarrow> string" where
  "url_Username u = (case url_User u of None \<Rightarrow> '''' | Some (n, _) \<Rightarrow> n)"

definition url_Password :: "URL \<Rightarrow> string" where
  "url_Password u = (case url_User u of Some (_, Some p) \<Rightarrow> p | _ \<Rightarrow> '''')"

text \<open>
  The value that \<open>strconv.ParseInt(s, 10, 32)\<close> returns, with or without an error: 0 for a
  syntax error, the nearest 32-bit number for one that is out of range.
\<close>

definition digit_value :: "char \<Rightarrow> int" where
  "digit_value c = int (of_char c) - 48"

definition digits_value :: "string \<Rightarrow> int" where
  "digits_value s = fold (\<lambda>c n. 10 * n + digit_value c) s 0"

definition ParseInt32 :: "string \<Rightarrow> int" where
  "ParseInt32 s =
     (let neg = (s \<noteq> [] \<and> hd s = CHR ''-'');
          ds = (if s \<noteq> [] \<and> (hd s = CHR ''-'' \<or> hd s = CHR ''+'') then tl s else s)
      in if ds = [] \<or> \<not> list_all is_digit ds then 0
         else if neg then max (- (2 ^ 31)) (- digits_value ds)
         else min (2 ^ 31 - 1) (digits_value ds))"

definition trim_prefix :: "string \<Rightarrow> string \<Rightarrow> string" where
  "trim_prefix s pre = (if take (length pre) s = pre then drop (length pre) s else s)"

text \<open>\<open>strings.Replace(s, old, new, 1)\<close> and \<open>strings.Join\<close>; \<open>%d\<close> of a number.\<close>

fun replace_first :: "string \<Rightarrow> string \<Rightarrow> string \<Rightarrow> string" where
  "replace_first [] old new = (if old = [] then new else [])"
| "replace_first (c # cs) old new =
     (if take (length old) (c # cs) = old then new @ drop (length old) (c # cs)
      else c # replace_first cs old new)"

fun join :: "string \<Rightarrow> string list \<Rightarrow> string" where
  "join sep [] = []"
| "join sep [x] = x"
| "join sep (x # y # xs) = x @ sep @ join sep (y # xs)"

text \<open>\<open>%q\<close> of a string without characters to escape.\<close>

definition quoted :: "string \<Rightarrow> string" where
  "quoted s = [CHR 0x22] @ s @ [CHR 0x22]"

definition digit_char :: "nat \<Rightarrow> char" where
  "digit_char n = ''0123456789'' ! n"

fun show_nat :: "nat \<Rightarrow> string" where
  "show_nat n = (if n < 10 then [digit_char n] else show_nat (n div 10) @ [digit_char (n mod 10)])"

declare show_nat.simps [simp del]

definition show_int :: "int \<Rightarrow> string" where
  "show_int i = (if i < 0 then CHR ''-'' # show_nat (nat (- i)) else show_nat (nat i))"

section \<open>The code\<close>

record DSN =
  dsn_driver :: string
  dsn_original :: string
  dsn_Host :: string
  dsn_Port :: int
  dsn_Username :: string
  dsn_Password :: string
  dsn_Database :: string
  dsn_schema :: string
  dsn_Options :: "string list"

definition driverMap :: "(string \<times> string) list" where
  "driverMap = [(''psql'', ''postgres''), (''postgres'', ''postgres''), (''clickhouse'', ''clickhouse''),
     (''bigtable'', ''bigtable''), (''badger'', ''badger'')]"

text \<open>
  The loop over the sorted keys: the option of each key, in its slot (the slot of
  \<open>schemaName\<close> stays empty), and the schema.
\<close>

fun dsn_options :: "(string \<times> string list) list \<Rightarrow> string list \<Rightarrow> string \<Rightarrow> (string list \<times> string) res" where
  "dsn_options query [] schema = Inr ([], schema)"
| "dsn_options query (key # keys) schema =
     (let values = (case map_of query key of None \<Rightarrow> [] | Some vs \<Rightarrow> vs)
      in if key = ''schemaName''
         then (case values of
                 [] \<Rightarrow> index_panic
               | v # _ \<Rightarrow> bind_res (dsn_options query keys v) (\<lambda>(os, s). Inr ('''' # os, s)))
         else bind_res (dsn_options query keys schema)
           (\<lambda>(os, s). Inr ((key @ ''='' @ join '','' values) # os, s)))"

text \<open>\<open>ord\<close> orders the ranges over the driver map and over the query.\<close>

definition ParseDSN :: "(string \<Rightarrow> error + string) \<Rightarrow> (string \<Rightarrow> error + URL) \<Rightarrow>
    (string list \<Rightarrow> string list) \<Rightarrow> string \<Rightarrow> DSN res" where
  "ParseDSN expand url_parse ord dsn =
     (case expand dsn of
        Inl e \<Rightarrow> Inl (Error (Wrap ''variables expansion failed'' e))
      | Inr expanded \<Rightarrow>
     (case url_parse expanded of
        Inl e \<Rightarrow> Inl (Error (Wrap ''invalid url'' e))
      | Inr dsnURL \<Rightarrow>
     (case map_of driverMap (url_Scheme dsnURL) of
        None \<Rightarrow> Inl (Error (Err (''invalid scheme '' @ url_Scheme dsnURL @ '', allowed schemes: ['' @
          join '','' (ord (map fst driverMap)) @ '']'')))
      | Some driver \<Rightarrow>
          let port = (if CHR '':'' \<in> set (url_Host dsnURL) then ParseInt32 (url_Port dsnURL) else 5432);
              database = (if driver \<noteq> ''badger'' then trim_prefix (url_EscapedPath dsnURL) ''/''
                          else url_EscapedPath dsnURL);
              keys = sort (ord (map fst (url_Query dsnURL)));
              schema = (if driver = ''clickhouse'' then database else ''public'')
          in bind_res (dsn_options (url_Query dsnURL) keys schema) (\<lambda>(options, schema').
               Inr \<lparr>dsn_driver = driver, dsn_original = dsn, dsn_Host = url_Hostname dsnURL,
                    dsn_Port = port, dsn_Username = url_Username dsnURL,
                    dsn_Password = url_Password dsnURL, dsn_Database = database,
                    dsn_schema = schema', dsn_Options = options\<rparr>))))"

definition DSN_Driver :: "DSN \<Rightarrow> string" where
  "DSN_Driver c = dsn_driver c"

definition DSN_Schema :: "DSN \<Rightarrow> string" where
  "DSN_Schema c = dsn_schema c"

text \<open>\<open>ConnString\<close> writes to its receiver; the loop over the options returns in its first turn.\<close>

fun clickhouse_loop :: "string list \<Rightarrow> DSN \<Rightarrow> DSN \<times> string" where
  "clickhouse_loop [] c = (c, dsn_original c)"
| "clickhouse_loop (option # options) c =
     (if dsn_Host c = ''localhost''
      then (c\<lparr>dsn_Host := ''127.0.0.1''\<rparr>,
            replace_first (dsn_original c) ''clickhouse://''
              ((if option = ''secure=true'' then ''https'' else ''http'') @ ''://''))
      else clickhouse_loop options c)"

definition ConnString :: "DSN \<Rightarrow> DSN \<times> string" where
  "ConnString c =
     (if dsn_driver c = ''clickhouse'' then clickhouse_loop (dsn_Options c) c
      else if dsn_driver c = ''bigtable'' then (c, dsn_original c)
      else (c, ''host='' @ dsn_Host c @ '' port='' @ show_int (dsn_Port c) @ '' dbname='' @ dsn_Database c @ '' ''
          @ join '' '' (dsn_Options c)
          @ (if dsn_Username c \<noteq> '''' then '' user='' @ dsn_Username c else '''')
          @ (if dsn_Password c \<noteq> '''' then '' password='' @ dsn_Password c else '''')))"

section \<open>Reading a connection string\<close>

text \<open>
  The driver splits the string at spaces into words and every word at its first \<open>=\<close>
  (without quotes, which the code never writes).
\<close>

fun words :: "string \<Rightarrow> string \<Rightarrow> string list" where
  "words acc [] = (if acc = [] then [] else [acc])"
| "words acc (c # cs) =
     (if c = CHR '' '' then (if acc = [] then [] else [acc]) @ words [] cs else words (acc @ [c]) cs)"

definition field_of :: "string \<Rightarrow> string \<times> string" where
  "field_of w = (takeWhile (\<lambda>c. c \<noteq> CHR ''='') w, drop 1 (dropWhile (\<lambda>c. c \<noteq> CHR ''='') w))"

definition conn_fields :: "string \<Rightarrow> (string \<times> string) list" where
  "conn_fields s = map field_of (words [] s)"

abbreviation no_space :: "string \<Rightarrow> bool" where
  "no_space s \<equiv> CHR '' '' \<notin> set s"

lemma words_append_space: "words acc (x @ CHR '' '' # y) = words acc x @ words [] y"
  by (induction acc x rule: words.induct) auto

lemma words_word: "no_space w \<Longrightarrow> words acc w = (if acc @ w = [] then [] else [acc @ w])"
  by (induction acc w rule: words.induct) auto

lemma words_join:
  assumes "\<forall>w\<in>set ws. no_space w"
  shows "words [] (join '' '' ws) = filter (\<lambda>w. w \<noteq> []) ws"
  using assms
proof (induction "'' ''" ws rule: join.induct)
  case (3 x y xs)
  then show ?case by (simp add: words_append_space words_word)
qed (simp_all add: words_word)

lemma field_of_kv [simp]:
  assumes "CHR ''='' \<notin> set k"
  shows "field_of (k @ CHR ''='' # v) = (k, v)"
proof -
  have "takeWhile (\<lambda>c. c \<noteq> CHR ''='') (k @ CHR ''='' # v) = k"
    using assms by (subst takeWhile_append2) auto
  moreover have "dropWhile (\<lambda>c. c \<noteq> CHR ''='') (k @ CHR ''='' # v) = CHR ''='' # v"
    using assms by (subst dropWhile_append2) auto
  ultimately show ?thesis by (simp add: field_of_def)
qed

lemma digit_char_set: "n < 10 \<Longrightarrow> digit_char n \<in> set ''0123456789''"
  unfolding digit_char_def by (rule nth_mem) simp

lemma show_nat_digits: "set (show_nat n) \<subseteq> set ''0123456789''"
proof (induction n rule: show_nat.induct)
  case (1 n)
  then show ?case
    using digit_char_set [of n] digit_char_set [of "n mod 10"] by (subst show_nat.simps) auto
qed

lemma show_int_no_space: "no_space (show_int i)"
  using show_nat_digits [of "nat i"] show_nat_digits [of "nat (- i)"] by (auto simp: show_int_def)

section \<open>Properties\<close>

text \<open>The fields that the driver should find, in the order in which they are written.\<close>

definition dsn_fields :: "DSN \<Rightarrow> (string \<times> string) list" where
  "dsn_fields c =
     [(''host'', dsn_Host c), (''port'', show_int (dsn_Port c)), (''dbname'', dsn_Database c)]
     @ map field_of (filter (\<lambda>w. w \<noteq> []) (dsn_Options c))
     @ (if dsn_Username c \<noteq> '''' then [(''user'', dsn_Username c)] else [])
     @ (if dsn_Password c \<noteq> '''' then [(''password'', dsn_Password c)] else [])"


lemma words_kv:
  assumes "no_space k" and "no_space v"
  shows "words [] (k @ CHR ''='' # v @ CHR '' '' # r) = (k @ CHR ''='' # v) # words [] r"
    and "words [] (k @ CHR ''='' # v) = [k @ CHR ''='' # v]"
  using words_append_space [of "[]" "k @ CHR ''='' # v" r] words_word [of "k @ CHR ''='' # v" "[]"] assms
  by simp_all

text \<open>The words of a connection string; the password, which comes last, may have spaces.\<close>

lemma ConnString_words:
  assumes "dsn_driver c \<noteq> ''clickhouse''" and "dsn_driver c \<noteq> ''bigtable''"
    and "no_space (dsn_Host c)" and "no_space (dsn_Database c)" and "\<forall>w\<in>set (dsn_Options c). no_space w"
    and "no_space (dsn_Username c)"
  shows "words [] (snd (ConnString c)) =
    (''host'' @ CHR ''='' # dsn_Host c) # (''port'' @ CHR ''='' # show_int (dsn_Port c)) #
    (''dbname'' @ CHR ''='' # dsn_Database c) # filter (\<lambda>w. w \<noteq> []) (dsn_Options c)
    @ (if dsn_Username c \<noteq> '''' then [''user'' @ CHR ''='' # dsn_Username c] else [])
    @ (if dsn_Password c \<noteq> '''' then words [] (''password'' @ CHR ''='' # dsn_Password c) else [])"
proof -
  let ?j = "join '' '' (dsn_Options c)"
  let ?p = "if dsn_Password c \<noteq> '''' then CHR '' '' # ''password'' @ CHR ''='' # dsn_Password c else ''''"
  let ?u = "if dsn_Username c \<noteq> '''' then CHR '' '' # ''user'' @ CHR ''='' # dsn_Username c @ ?p else ?p"
  have e: "snd (ConnString c) = ''host'' @ CHR ''='' # dsn_Host c @ CHR '' '' # ''port'' @ CHR ''='' #
      show_int (dsn_Port c) @ CHR '' '' # ''dbname'' @ CHR ''='' # dsn_Database c @ CHR '' '' # ?j @ ?u"
    using assms(1,2) by (simp add: ConnString_def)
  have p: "words [] (x @ ?p) = words [] x @ (if dsn_Password c \<noteq> '''' then words [] (''password'' @ CHR ''='' # dsn_Password c) else [])" for x
    by (simp add: words_append_space del: append_Cons)
  have u: "words [] (x @ ?u) = words [] x
      @ (if dsn_Username c \<noteq> '''' then [''user'' @ CHR ''='' # dsn_Username c] else [])
      @ (if dsn_Password c \<noteq> '''' then words [] (''password'' @ CHR ''='' # dsn_Password c) else [])" for x
  proof (cases "dsn_Username c = ''''")
    case True
    then show ?thesis using p by simp
  next
    case False
    have "words [] (x @ ?u) = words [] x @ words [] ((''user'' @ CHR ''='' # dsn_Username c) @ ?p)"
      using False by (simp add: words_append_space)
    also have "\<dots> = words [] x @ [''user'' @ CHR ''='' # dsn_Username c]
        @ (if dsn_Password c \<noteq> '''' then words [] (''password'' @ CHR ''='' # dsn_Password c) else [])"
      unfolding p using words_kv(2) [of "''user''" "dsn_Username c"] assms(6) by simp
    finally show ?thesis using False by simp
  qed
  show ?thesis
    unfolding e u [symmetric] words_join [OF assms(5), symmetric]
    using words_kv(1) [of "''host''" "dsn_Host c"] words_kv(1) [of "''port''" "show_int (dsn_Port c)"]
      words_kv(1) [of "''dbname''" "dsn_Database c"] assms(3,4) show_int_no_space
    by (simp add: u words_join [OF assms(5)])
qed


definition sample_dsn :: DSN where
  "sample_dsn = \<lparr>dsn_driver = ''postgres'', dsn_original = ''psql://u:p@h/db?sslmode=disable'', dsn_Host = ''h'',
     dsn_Port = 5432, dsn_Username = ''u'', dsn_Password = ''p'', dsn_Database = ''db'', dsn_schema = ''public'',
     dsn_Options = ['''', ''sslmode=disable'']\<rparr>"


section \<open>Where the round trip fails\<close>

text \<open>A password with a space is not quoted: what follows the space is a field of its own, and the driver lets
  the last field of a name win.\<close>

theorem password_adds_field:
  assumes "dsn_driver c \<noteq> ''clickhouse''" and "dsn_driver c \<noteq> ''bigtable''"
    and "no_space (dsn_Host c)" and "no_space (dsn_Database c)" and "\<forall>w\<in>set (dsn_Options c). no_space w"
    and "no_space (dsn_Username c)" and "dsn_Password c = p @ CHR '' '' # k @ CHR ''='' # v"
    and "no_space p" and "no_space k" and "CHR ''='' \<notin> set k" and "no_space v"
  shows "(k, v) \<in> set (conn_fields (snd (ConnString c)))"
proof -
  have "words [] (''password'' @ CHR ''='' # dsn_Password c) =
      [''password'' @ CHR ''='' # p, k @ CHR ''='' # v]"
    unfolding assms(7)
    using words_kv(1) [of "''password''" p "k @ CHR ''='' # v"] words_kv(2) [OF assms(9,11)] assms(8) by simp
  then have "k @ CHR ''='' # v \<in> set (words [] (snd (ConnString c)))"
    unfolding ConnString_words [OF assms(1-6)] using assms(7) by simp
  then have "field_of (k @ CHR ''='' # v) \<in> set (conn_fields (snd (ConnString c)))"
    unfolding conn_fields_def by (metis image_eqI set_map)
  then show ?thesis using assms(10) by simp
qed

text \<open>An IPv6 host without a port has a colon, so that the port is that of an empty string, not the default.\<close>

theorem ipv6_default_port:
  assumes "expand dsn = Inr e" and "url_parse e = Inr u" and "url_Host u = ''[::1]''"
    and "ParseDSN expand url_parse ord dsn = Inr d"
  shows "dsn_Port d = 0 \<and> dsn_Host d = ''::1''"
proof -
  have "splitHostPort ''[::1]'' = (''::1'', '''')"
    by (simp add: splitHostPort_def split_last_colon_def strip_brackets_def is_digit_def)
  then have "url_Port u = ''''" "url_Hostname u = ''::1''"
    using assms(3) by (simp_all add: url_Port_def url_Hostname_def)
  then show ?thesis
    using assms by (auto simp: ParseDSN_def Let_def ParseInt32_def res_simps split: option.splits)
qed

text \<open>The second connection string of a ClickHouse DSN on localhost is not the first.\<close>

theorem clickhouse_conn_string_changes:
  assumes "dsn_driver c = ''clickhouse''" and "dsn_Host c = ''localhost''" and "dsn_Options c = o1 # os"
    and "ConnString c = (c', s)"
  shows "s = replace_first (dsn_original c) ''clickhouse://'' ((if o1 = ''secure=true'' then ''https'' else ''http'') @ ''://'') \<and>
    snd (ConnString c') = dsn_original c"
proof -
  have "dsn_Host c' = ''127.0.0.1'' \<Longrightarrow> snd (clickhouse_loop os' c') = dsn_original c'" for os'
    by (induction os') auto
  then show ?thesis using assms by (auto simp: ConnString_def)
qed

end
