(* ===== verification/Hex.thy ===== *)
theory Hex
  imports Prelude
begin

text \<open>
  \<open>encoding/hex\<close> as the code uses it: \<open>EncodeToString\<close> (the Postgres stores index the rows
  of a query by it) and \<open>DecodeString\<close> (the command line reads keys with it).
\<close>

definition hexChars :: string where
  "hexChars = ''0123456789abcdef''"

definition hex_char :: "nat \<Rightarrow> char" where
  "hex_char n = hexChars ! n"

fun hex_encode :: "bytes \<Rightarrow> string" where
  "hex_encode [] = []"
| "hex_encode (b # bs) = hex_char (unat b div 16) # hex_char (unat b mod 16) # hex_encode bs"

text \<open>The value of a digit, in either case.\<close>

definition hexDigits :: "(char \<times> nat) list" where
  "hexDigits = zip hexChars [0..<16] @ zip ''ABCDEF'' [10..<16]"

definition from_hex_char :: "char \<Rightarrow> nat option" where
  "from_hex_char c = map_of hexDigits c"

text \<open>Pairs of digits from the left; an odd length is only seen when all pairs were read.\<close>

fun hex_decode :: "string \<Rightarrow> error + bytes" where
  "hex_decode [] = Inr []"
| "hex_decode [c] =
     (case from_hex_char c of
        None \<Rightarrow> Inl (Err ''encoding/hex: invalid byte'')
      | Some _ \<Rightarrow> Inl (Err ''encoding/hex: odd length hex string''))"
| "hex_decode (c # d # cs) =
     (case from_hex_char c of
        None \<Rightarrow> Inl (Err ''encoding/hex: invalid byte'')
      | Some h \<Rightarrow>
          (case from_hex_char d of
             None \<Rightarrow> Inl (Err ''encoding/hex: invalid byte'')
           | Some l \<Rightarrow>
               (case hex_decode cs of
                  Inl e \<Rightarrow> Inl e
                | Inr bs \<Rightarrow> Inr (of_nat (16 * h + l) # bs))))"

lemma from_hex_char_hex_char: "n < 16 \<Longrightarrow> from_hex_char (hex_char n) = Some n"
proof -
  have "\<forall>n\<in>set [0..<16]. from_hex_char (hex_char n) = Some n"
    by code_simp
  then show "n < 16 \<Longrightarrow> from_hex_char (hex_char n) = Some n" by simp
qed

lemma hex_decode_encode: "hex_decode (hex_encode bs) = Inr bs"
proof (induction bs)
  case (Cons b bs)
  have "unat b < 256" using unsigned_less [of b, where 'a = nat] by simp
  then have h: "from_hex_char (hex_char (unat b div 16)) = Some (unat b div 16)"
    "from_hex_char (hex_char (unat b mod 16)) = Some (unat b mod 16)"
    by (simp_all add: from_hex_char_hex_char)
  have "of_nat (16 * (unat b div 16) + unat b mod 16) = b" unfolding mult_div_mod_eq by simp
  with Cons h show ?case by simp
qed simp

lemma hex_encode_inj: "hex_encode xs = hex_encode ys \<longleftrightarrow> xs = ys"
  by (metis hex_decode_encode sum.inject(2))

lemma hex_encode_length: "length (hex_encode bs) = 2 * length bs"
  by (induction bs) auto

end
