(* ===== verification/Postgres_Store.thy ===== *)
theory Postgres_Store
  imports Store_Interface Dsn Hex
begin

text \<open>
  The two Postgres backends (\<open>store/postgres\<close>, \<open>store/postgres_time_traversal\<close>).  The
  database is a parameter, \<open>sql_api\<close>: the calls of \<open>sqlx\<close> that the stores make.  The
  argument of a statement is a value of \<open>sql_arg\<close>, which keeps the Go type that the code
  passes: whether a driver can convert it is part of the driver's behaviour.  Statements
  are their SQL text, white space apart (also where an error quotes one).  The creation time of a row is written and never
  read.
\<close>

section \<open>The database calls\<close>

datatype sql_arg =
    Arg_Uint64 u64
  | Arg_Bytes bytes
  | Arg_Key "Key option"
  | Arg_KeyArray "Key option list"
  | Arg_BytesArray "bytes list"
  | Arg_Now

record row =
  row_block_number :: u64
  row_key :: bytes
  row_value :: bytes

text \<open>
  \<^item> \<open>sql_open\<close>, \<open>sql_prepare\<close>: \<open>sqlx.Open\<close> and \<open>db.Preparex\<close>;
  \<^item> \<open>stmt_exec\<close>, \<open>stmt_query\<close>, \<open>stmt_get\<close>: \<open>Exec\<close>, \<open>Queryx\<close> (with the result of \<open>StructScan\<close>
    for each row) and \<open>Get\<close> of a prepared statement, which runs on the database;
  \<^item> \<open>sql_count\<close>, \<open>tx_count\<close>: \<open>Get\<close> of a count on the database and in a transaction;
  \<^item> \<open>sql_begin\<close>, \<open>tx_exec\<close>, \<open>tx_commit\<close>, \<open>tx_rollback\<close>.
\<close>

record ('db, 'st, 'tx) sql_api =
  sql_open :: "string \<Rightarrow> string \<Rightarrow> error + 'db"
  sql_prepare :: "'db \<Rightarrow> string \<Rightarrow> error + 'st"
  stmt_exec :: "'db \<Rightarrow> 'st \<Rightarrow> sql_arg list \<Rightarrow> 'db \<times> (error + unit)"
  stmt_query :: "'db \<Rightarrow> 'st \<Rightarrow> sql_arg list \<Rightarrow> error + (error + row) list"
  stmt_get :: "'db \<Rightarrow> 'st \<Rightarrow> sql_arg list \<Rightarrow> error + row"
  sql_count :: "'db \<Rightarrow> string \<Rightarrow> sql_arg list \<Rightarrow> error + int"
  sql_begin :: "'db \<Rightarrow> 'db \<times> (error + 'tx)"
  tx_count :: "'db \<Rightarrow> 'tx \<Rightarrow> string \<Rightarrow> sql_arg list \<Rightarrow> error + int"
  tx_exec :: "'db \<Rightarrow> 'tx \<Rightarrow> string \<Rightarrow> 'db \<times> (error + unit)"
  tx_commit :: "'db \<Rightarrow> 'tx \<Rightarrow> 'db \<times> (error + unit)"
  tx_rollback :: "'db \<Rightarrow> 'tx \<Rightarrow> 'db"

section \<open>Statements\<close>

definition createSchema :: "string \<Rightarrow> string" where
  "createSchema schema = ''CREATE SCHEMA IF NOT EXISTS '' @ schema @ '';''"

definition createEntriesTable :: "string \<Rightarrow> string" where
  "createEntriesTable schema =
     ''create table if not exists '' @ schema @ ''.entries ( block_number bigint not null, key bytea not null,'' @
     '' value bytea, create_time timestamp not null, constraint entries_pk primary key (block_number, key) );'' @
     '' create index if not exists entries_key_index on '' @ schema @ ''.entries (key);'' @
     '' create index if not exists entries_block_index on '' @ schema @ ''.entries (block_number);''"

definition pgtt_createEntriesTable :: "string \<Rightarrow> string" where
  "pgtt_createEntriesTable schema =
     createEntriesTable schema @
     '' create index if not exists entries_key_block_index on '' @ schema @ ''.entries (key, block_number desc);''"

definition insert_text :: "string \<Rightarrow> string" where
  "insert_text schema =
     ''insert into '' @ schema @ ''.entries (block_number, key, value, create_time) values ($1,$2,$3,$4);''"

definition count_text :: "string \<Rightarrow> string" where
  "count_text schema = ''SELECT COUNT(*) FROM '' @ schema @ ''.entries WHERE key = $1''"

definition pg_select_text :: "string \<Rightarrow> string" where
  "pg_select_text schema = ''select * from '' @ schema @ ''.entries where key = $1;''"

definition pg_select_any_text :: "string \<Rightarrow> string" where
  "pg_select_any_text schema = ''SELECT * FROM '' @ schema @ ''.entries WHERE key = ANY($1);''"

definition pg_select_first_text :: "string \<Rightarrow> string" where
  "pg_select_first_text schema =
     ''SELECT * FROM '' @ schema @ ''.entries WHERE key >= $1 ORDER BY key ASC LIMIT 1;''"

definition pgtt_select_text :: "string \<Rightarrow> string" where
  "pgtt_select_text schema = ''select * from '' @ schema @
     ''.entries where key = $1 and block_number <= $2 order by block_number desc limit 1;''"

definition pgtt_select_any_text :: "string \<Rightarrow> string" where
  "pgtt_select_any_text schema = ''select distinct on (key) * from '' @ schema @
     ''.entries where key = any($1) and block_number <= $2 order by key, block_number desc;''"

definition pgtt_select_key_text :: "string \<Rightarrow> string" where
  "pgtt_select_key_text schema = ''select key, block_number from '' @ schema @
     ''.entries where key = $1 and block_number <= $2 order by block_number desc limit 1;''"

definition pgtt_select_keys_text :: "string \<Rightarrow> string" where
  "pgtt_select_keys_text schema = ''select distinct on (key) key, block_number from '' @ schema @
     ''.entries where key = any($1) and block_number <= $2 order by key, block_number desc;''"

definition pgtt_select_first_text :: "string \<Rightarrow> string" where
  "pgtt_select_first_text schema = ''select * from '' @ schema @
     ''.entries where key >= $1 order by key asc, block_number asc limit 1;''"

section \<open>Opening\<close>

record ('db, 'st) pg_store =
  pg_db :: 'db
  pg_schemaName :: string
  pg_typeUrl :: string
  pg_insertStatement :: "'st option"
  pg_selectStatement :: "'st option"
  pg_selectAnyStatement :: "'st option"
  pg_selectFirstStmt :: "'st option"

record ('db, 'st) pgtt_store =
  pgtt_db :: 'db
  pgtt_schemaName :: string
  pgtt_typeUrl :: string
  pgtt_insertStatement :: "'st option"
  pgtt_selectStatement :: "'st option"
  pgtt_selectAnyStatement :: "'st option"
  pgtt_selectKeyOnlyStatement :: "'st option"
  pgtt_selectAllKeyOnlyStatement :: "'st option"
  pgtt_selectFirstStmt :: "'st option"

text \<open>The scripts differ in the statement for the table only.\<close>

definition runDatabaseScript :: "('db, 'st, 'tx) sql_api \<Rightarrow> 'db \<Rightarrow> string \<Rightarrow> 'db \<times> unit res" where
  "runDatabaseScript A db schemaName =
     (case sql_begin A db of
        (db0, Inl e) \<Rightarrow> (db0, Inl (Error (Wrap ''begin transaction'' e)))
      | (db0, Inr tx) \<Rightarrow>
     (case tx_exec A db0 tx (createSchema schemaName) of
        (db1, Inl e) \<Rightarrow> (tx_rollback A db1 tx, Inl (Error (Wrap ''create schema'' e)))
      | (db1, Inr _) \<Rightarrow>
     (case tx_exec A db1 tx (createEntriesTable schemaName) of
        (db2, Inl e) \<Rightarrow> (tx_rollback A db2 tx, Inl (Error (Wrap ''create entries table'' e)))
      | (db2, Inr _) \<Rightarrow>
     (case tx_commit A db2 tx of
        (db3, Inl e) \<Rightarrow> (db3, Inl (Error (Wrap ''commit transaction'' e)))
      | (db3, Inr _) \<Rightarrow> (db3, Inr ())))))"

definition pgtt_runDatabaseScript :: "('db, 'st, 'tx) sql_api \<Rightarrow> 'db \<Rightarrow> string \<Rightarrow> 'db \<times> unit res" where
  "pgtt_runDatabaseScript A db schemaName =
     (case sql_begin A db of
        (db0, Inl e) \<Rightarrow> (db0, Inl (Error (Wrap ''begin transaction'' e)))
      | (db0, Inr tx) \<Rightarrow>
     (case tx_exec A db0 tx (createSchema schemaName) of
        (db1, Inl e) \<Rightarrow> (tx_rollback A db1 tx, Inl (Error (Wrap ''create schema'' e)))
      | (db1, Inr _) \<Rightarrow>
     (case tx_exec A db1 tx (pgtt_createEntriesTable schemaName) of
        (db2, Inl e) \<Rightarrow> (tx_rollback A db2 tx, Inl (Error (Wrap ''create entries table'' e)))
      | (db2, Inr _) \<Rightarrow>
     (case tx_commit A db2 tx of
        (db3, Inl e) \<Rightarrow> (db3, Inl (Error (Wrap ''commit transaction'' e)))
      | (db3, Inr _) \<Rightarrow> (db3, Inr ())))))"

text \<open>Preparing a list of statements in order; the first that fails is reported with its message.\<close>

fun prepare_all :: "('db, 'st, 'tx) sql_api \<Rightarrow> 'db \<Rightarrow> (string \<times> string) list \<Rightarrow> 'st list res" where
  "prepare_all A db [] = Inr []"
| "prepare_all A db ((what, txt) # ps) =
     (case sql_prepare A db txt of
        Inl e \<Rightarrow> Inl (Error (Wrap (''failed to prepare statement for '' @ what @ '' '' @ quoted txt) e))
      | Inr st \<Rightarrow> bind_res (prepare_all A db ps) (\<lambda>sts. Inr (st # sts)))"

definition pg_prepareStatements :: "('db, 'st, 'tx) sql_api \<Rightarrow> ('db, 'st) pg_store \<Rightarrow> ('db, 'st) pg_store res" where
  "pg_prepareStatements A s =
     bind_res (prepare_all A (pg_db s)
       [(''insert entries'', insert_text (pg_schemaName s)), (''select entry'', pg_select_text (pg_schemaName s)),
        (''select any'', pg_select_any_text (pg_schemaName s)), (''select first'', pg_select_first_text (pg_schemaName s))])
     (\<lambda>sts. Inr (s\<lparr>pg_insertStatement := Some (sts ! 0), pg_selectStatement := Some (sts ! 1),
        pg_selectAnyStatement := Some (sts ! 2), pg_selectFirstStmt := Some (sts ! 3)\<rparr>))"

definition pgtt_prepareStatements :: "('db, 'st, 'tx) sql_api \<Rightarrow> ('db, 'st) pgtt_store \<Rightarrow> ('db, 'st) pgtt_store res" where
  "pgtt_prepareStatements A s =
     bind_res (prepare_all A (pgtt_db s)
       [(''insert entries'', insert_text (pgtt_schemaName s)), (''select entry'', pgtt_select_text (pgtt_schemaName s)),
        (''select any'', pgtt_select_any_text (pgtt_schemaName s)), (''select key only'', pgtt_select_key_text (pgtt_schemaName s)),
        (''select all key only'', pgtt_select_keys_text (pgtt_schemaName s)),
        (''select first'', pgtt_select_first_text (pgtt_schemaName s))])
     (\<lambda>sts. Inr (s\<lparr>pgtt_insertStatement := Some (sts ! 0), pgtt_selectStatement := Some (sts ! 1),
        pgtt_selectAnyStatement := Some (sts ! 2), pgtt_selectKeyOnlyStatement := Some (sts ! 3),
        pgtt_selectAllKeyOnlyStatement := Some (sts ! 4), pgtt_selectFirstStmt := Some (sts ! 5)\<rparr>))"

definition pg_NewStore :: "('db, 'st, 'tx) sql_api \<Rightarrow> DSN \<Rightarrow> string \<Rightarrow> DSN \<times> ('db, 'st) pg_store res" where
  "pg_NewStore A dsn typeUrl =
     (let (dsn1, connectionString) = ConnString dsn in (dsn1,
      case sql_open A (DSN_Driver dsn1) connectionString of
        Inl e \<Rightarrow> Inl (Error (Wrap ''failed to open connection to postgres'' e))
      | Inr db \<Rightarrow>
     (case runDatabaseScript A db (DSN_Schema dsn1) of
        (db1, r) \<Rightarrow>
          bind_res (wrap_res ''failed to execute script'' r) (\<lambda>_.
          wrap_res ''failed to prepare statements'' (pg_prepareStatements A
            \<lparr>pg_db = db1, pg_schemaName = DSN_Schema dsn1, pg_typeUrl = typeUrl, pg_insertStatement = None,
             pg_selectStatement = None, pg_selectAnyStatement = None, pg_selectFirstStmt = None\<rparr>)))))"

definition pgtt_NewStore :: "('db, 'st, 'tx) sql_api \<Rightarrow> DSN \<Rightarrow> string \<Rightarrow> DSN \<times> ('db, 'st) pgtt_store res" where
  "pgtt_NewStore A dsn typeUrl =
     (let (dsn1, connectionString) = ConnString dsn in (dsn1,
      case sql_open A (DSN_Driver dsn1) connectionString of
        Inl e \<Rightarrow> Inl (Error (Wrap ''failed to open connection to postgres'' e))
      | Inr db \<Rightarrow>
     (case pgtt_runDatabaseScript A db (DSN_Schema dsn1) of
        (db1, r) \<Rightarrow>
          bind_res (wrap_res ''failed to execute script'' r) (\<lambda>_.
          wrap_res ''failed to prepare statements'' (pgtt_prepareStatements A
            \<lparr>pgtt_db = db1, pgtt_schemaName = DSN_Schema dsn1, pgtt_typeUrl = typeUrl, pgtt_insertStatement = None,
             pgtt_selectStatement = None, pgtt_selectAnyStatement = None, pgtt_selectKeyOnlyStatement = None,
             pgtt_selectAllKeyOnlyStatement = None, pgtt_selectFirstStmt = None\<rparr>)))))"

section \<open>Writing\<close>

text \<open>A call on a statement that may be nil.\<close>

definition exec_stmt :: "('db, 'st, 'tx) sql_api \<Rightarrow> 'db \<Rightarrow> 'st option \<Rightarrow> sql_arg list \<Rightarrow> 'db \<times> unit res" where
  "exec_stmt A db st args =
     (case st of None \<Rightarrow> (db, nil_deref)
      | Some st \<Rightarrow> (case stmt_exec A db st args of (db', r) \<Rightarrow> (db', of_err r)))"

text \<open>The arguments of an insert: the key is passed as the pointer to the message.\<close>

definition insert_args :: "u64 \<Rightarrow> Entry \<Rightarrow> Any \<Rightarrow> sql_arg list" where
  "insert_args blockNumber entry v = [Arg_Uint64 blockNumber, Arg_Key (Entry_Key entry), Arg_Bytes (Any_Value v), Arg_Now]"

text \<open>\<open>Set\<close> and the loop of \<open>SetAll\<close> are the same text in both packages.\<close>

definition insert_one :: "('db, 'st, 'tx) sql_api \<Rightarrow> string \<Rightarrow> 'st option \<Rightarrow> Entry option \<Rightarrow> bool \<Rightarrow> u64 \<Rightarrow> 'db \<Rightarrow>
    'db \<times> unit res" where
  "insert_one A schema st entry ifNotExist blockNumber db =
     (case entry of
        None \<Rightarrow> (db, Inl (Error (Err ''entry cannot be nil'')))
      | Some e \<Rightarrow>
     (case (if ifNotExist then sql_count A db (count_text schema) [Arg_Key (Entry_Key e)] else Inr 0) of
        Inl err \<Rightarrow> (db, Inl (Error (Wrap ''failed to check existence of key'' err)))
      | Inr existing \<Rightarrow>
          if 0 < existing then (db, Inr ())
          else (case Entry_Value e of
                  None \<Rightarrow> (db, nil_deref)
                | Some v \<Rightarrow>
                    (case exec_stmt A db st (insert_args blockNumber e v) of
                       (db', r) \<Rightarrow> (db', wrap_res ''failed to insert entry'' r)))))"

text \<open>
  The loop; the inserts run on the database, not in the transaction, which is rolled back
  when an entry fails and left open by a panic.
\<close>

fun insert_loop :: "('db, 'st, 'tx) sql_api \<Rightarrow> string \<Rightarrow> 'st \<Rightarrow> 'tx \<Rightarrow> bool \<Rightarrow> u64 \<Rightarrow> Entry option list \<Rightarrow> 'db \<Rightarrow>
    'db \<times> unit res" where
  "insert_loop A schema st tx ine b [] db = (db, Inr ())"
| "insert_loop A schema st tx ine b (entry # es) db =
     (case entry of
        None \<Rightarrow> (tx_rollback A db tx, Inl (Error (Err ''entry cannot be nil'')))
      | Some e \<Rightarrow>
     (case (if ine then tx_count A db tx (count_text schema) [Arg_Key (Entry_Key e)] else Inr 0) of
        Inl err \<Rightarrow> (tx_rollback A db tx, Inl (Error (Wrap ''failed to check existence of key'' err)))
      | Inr existing \<Rightarrow>
          if 0 < existing then insert_loop A schema st tx ine b es db
          else (case Entry_Value e of
                  None \<Rightarrow> (db, nil_deref)
                | Some v \<Rightarrow>
                    (case stmt_exec A db st (insert_args b e v) of
                       (db', Inl err) \<Rightarrow>
                         (tx_rollback A db' tx, Inl (Error (Wrap ''failed to insert entry'' err)))
                     | (db', Inr _) \<Rightarrow> insert_loop A schema st tx ine b es db'))))"

definition insert_all :: "('db, 'st, 'tx) sql_api \<Rightarrow> string \<Rightarrow> 'st option \<Rightarrow> Entry option list \<Rightarrow> bool \<Rightarrow> u64 \<Rightarrow> 'db \<Rightarrow>
    'db \<times> unit res" where
  "insert_all A schema st entries ifNotExist blockNumber db =
     (if entries = [] then (db, Inr ())
      else (case sql_begin A db of
              (db0, Inl e) \<Rightarrow> (db0, Inl (Error (Wrap ''failed to begin transaction'' e)))
            | (db0, Inr tx) \<Rightarrow>
                (case st of
                   None \<Rightarrow> (tx_rollback A db0 tx, Inl (Error (Err ''insert statement is nil'')))
                 | Some insertStmt \<Rightarrow>
                     (case insert_loop A schema insertStmt tx ifNotExist blockNumber entries db0 of
                        (db1, Inl f) \<Rightarrow> (db1, Inl f)
                      | (db1, Inr _) \<Rightarrow>
                          (case tx_commit A db1 tx of
                             (db2, Inl e) \<Rightarrow> (db2, Inl (Error (Wrap ''failed to commit transaction'' e)))
                           | (db2, Inr _) \<Rightarrow> (db2, Inr ()))))))"

definition pg_Set :: "('db, 'st, 'tx) sql_api \<Rightarrow> ('db, 'st) pg_store \<Rightarrow> Entry option \<Rightarrow> bool \<Rightarrow> u64 \<Rightarrow>
    ('db, 'st) pg_store \<times> unit res" where
  "pg_Set A s entry ifNotExist blockNumber =
     (case insert_one A (pg_schemaName s) (pg_insertStatement s) entry ifNotExist blockNumber (pg_db s) of
        (db, r) \<Rightarrow> (s\<lparr>pg_db := db\<rparr>, r))"

definition pg_SetAll :: "('db, 'st, 'tx) sql_api \<Rightarrow> ('db, 'st) pg_store \<Rightarrow> Entry option list \<Rightarrow> bool \<Rightarrow> u64 \<Rightarrow>
    ('db, 'st) pg_store \<times> unit res" where
  "pg_SetAll A s entries ifNotExist blockNumber =
     (case insert_all A (pg_schemaName s) (pg_insertStatement s) entries ifNotExist blockNumber (pg_db s) of
        (db, r) \<Rightarrow> (s\<lparr>pg_db := db\<rparr>, r))"

definition pgtt_Set :: "('db, 'st, 'tx) sql_api \<Rightarrow> ('db, 'st) pgtt_store \<Rightarrow> Entry option \<Rightarrow> bool \<Rightarrow> u64 \<Rightarrow>
    ('db, 'st) pgtt_store \<times> unit res" where
  "pgtt_Set A s entry ifNotExist blockNumber =
     (case insert_one A (pgtt_schemaName s) (pgtt_insertStatement s) entry ifNotExist blockNumber (pgtt_db s) of
        (db, r) \<Rightarrow> (s\<lparr>pgtt_db := db\<rparr>, r))"

definition pgtt_SetAll :: "('db, 'st, 'tx) sql_api \<Rightarrow> ('db, 'st) pgtt_store \<Rightarrow> Entry option list \<Rightarrow> bool \<Rightarrow> u64 \<Rightarrow>
    ('db, 'st) pgtt_store \<times> unit res" where
  "pgtt_SetAll A s entries ifNotExist blockNumber =
     (case insert_all A (pgtt_schemaName s) (pgtt_insertStatement s) entries ifNotExist blockNumber (pgtt_db s) of
        (db, r) \<Rightarrow> (s\<lparr>pgtt_db := db\<rparr>, r))"

section \<open>Reading\<close>

definition query_stmt :: "('db, 'st, 'tx) sql_api \<Rightarrow> 'db \<Rightarrow> 'st option \<Rightarrow> sql_arg list \<Rightarrow> (error + row) list res" where
  "query_stmt A db st args = (case st of None \<Rightarrow> nil_deref | Some st \<Rightarrow> of_err (stmt_query A db st args))"

text \<open>The loop over the rows: a map from the hexadecimal key to the last row scanned for it.\<close>

fun scan_rows :: "string \<Rightarrow> (error + row) list \<Rightarrow> (string \<times> row) list \<Rightarrow> (string \<times> row) list res" where
  "scan_rows msg [] m = Inr m"
| "scan_rows msg (Inl e # rs) m = Inl (Error (Wrap msg e))"
| "scan_rows msg (Inr r # rs) m = scan_rows msg rs (AList.update (hex_encode (row_key r)) r m)"

fun answer_rows :: "string \<Rightarrow> (string \<times> row) list \<Rightarrow> Key option list \<Rightarrow> QueriedEntry option list res" where
  "answer_rows typeUrl m [] = Inr []"
| "answer_rows typeUrl m (key # keys) =
     bind_res (key_bytes key) (\<lambda>k. bind_res (answer_rows typeUrl m keys) (\<lambda>qs.
       Inr (Some (case map_of m (hex_encode k) of
                    None \<Rightarrow> not_found key
                  | Some entry \<Rightarrow> found key typeUrl (row_value entry)) # qs)))"

text \<open>\<open>keys[i] = k.Bytes\<close> for every key.\<close>

fun all_key_bytes :: "Key option list \<Rightarrow> bytes list res" where
  "all_key_bytes [] = Inr []"
| "all_key_bytes (k # ks) = bind_res (key_bytes k) (\<lambda>b. bind_res (all_key_bytes ks) (\<lambda>bs. Inr (b # bs)))"

definition pg_Get :: "('db, 'st, 'tx) sql_api \<Rightarrow> ('db, 'st) pg_store \<Rightarrow> GetRequest \<Rightarrow> GetResponse res" where
  "pg_Get A s request =
     bind_res (wrap_res ''failed to select entries''
       (query_stmt A (pg_db s) (pg_selectAnyStatement s) [Arg_KeyArray (GetRequest_Keys request)])) (\<lambda>rows.
     bind_res (scan_rows ''failed to scan entry'' rows []) (\<lambda>entriesMap.
     bind_res (answer_rows (pg_typeUrl s) entriesMap (GetRequest_Keys request)) (\<lambda>entries.
       Inr (response entries))))"

definition pgtt_Get :: "('db, 'st, 'tx) sql_api \<Rightarrow> ('db, 'st) pgtt_store \<Rightarrow> GetRequest \<Rightarrow> GetResponse res" where
  "pgtt_Get A s request =
     bind_res (all_key_bytes (GetRequest_Keys request)) (\<lambda>keys.
     bind_res (wrap_res ''failed to select entries''
       (query_stmt A (pgtt_db s) (pgtt_selectAnyStatement s)
          [Arg_BytesArray keys, Arg_Uint64 (GetRequest_BlockNumber request)])) (\<lambda>rows.
     bind_res (scan_rows ''failed to scan entry'' rows []) (\<lambda>entriesMap.
     bind_res (answer_rows (pgtt_typeUrl s) entriesMap (GetRequest_Keys request)) (\<lambda>out.
       Inr (response out)))))"

text \<open>\<open>GetFirst\<close> of both packages: the key is passed as a pointer; a missing row is NOT_FOUND.\<close>

fun first_rows :: "('db, 'st, 'tx) sql_api \<Rightarrow> 'db \<Rightarrow> string \<Rightarrow> 'st option \<Rightarrow> Key option list \<Rightarrow> QueriedEntry option list res" where
  "first_rows A db typeUrl st [] = Inr []"
| "first_rows A db typeUrl st (key # keys) =
     (case st of
        None \<Rightarrow> nil_deref
      | Some stmt \<Rightarrow>
          (case stmt_get A db stmt [Arg_Key key] of
             Inl err \<Rightarrow>
               if errors_is err ErrNoRows
               then bind_res (first_rows A db typeUrl st keys) (\<lambda>qs. Inr (Some (not_found key) # qs))
               else Inl (Error err)
           | Inr entry \<Rightarrow>
               bind_res (first_rows A db typeUrl st keys) (\<lambda>qs.
                 Inr (Some (found key typeUrl (row_value entry)) # qs))))"

definition pg_GetFirst :: "('db, 'st, 'tx) sql_api \<Rightarrow> ('db, 'st) pg_store \<Rightarrow> GetRequest \<Rightarrow> GetResponse res" where
  "pg_GetFirst A s request =
     bind_res (first_rows A (pg_db s) (pg_typeUrl s) (pg_selectFirstStmt s) (GetRequest_Keys request)) (\<lambda>entries.
       Inr (response entries))"

definition pgtt_GetFirst :: "('db, 'st, 'tx) sql_api \<Rightarrow> ('db, 'st) pgtt_store \<Rightarrow> GetRequest \<Rightarrow> GetResponse res" where
  "pgtt_GetFirst A s request =
     bind_res (first_rows A (pgtt_db s) (pgtt_typeUrl s) (pgtt_selectFirstStmt s) (GetRequest_Keys request)) (\<lambda>out.
       Inr (response out))"

text \<open>The key-only reads; the scanned row has no value.\<close>

record KeyOnlyEntry =
  ko_BlockNumber :: u64
  ko_Key :: bytes

definition key_only :: "row \<Rightarrow> KeyOnlyEntry" where
  "key_only r = \<lparr>ko_BlockNumber = row_block_number r, ko_Key = row_key r\<rparr>"

definition GetKeyOnly :: "('db, 'st, 'tx) sql_api \<Rightarrow> ('db, 'st) pgtt_store \<Rightarrow> bytes \<Rightarrow> u64 \<Rightarrow> KeyOnlyEntry option res" where
  "GetKeyOnly A s key blockNumber =
     (case pgtt_selectKeyOnlyStatement s of
        None \<Rightarrow> nil_deref
      | Some stmt \<Rightarrow>
          (case stmt_get A (pgtt_db s) stmt [Arg_Bytes key, Arg_Uint64 blockNumber] of
             Inl err \<Rightarrow> if errors_is err ErrNoRows then Inr None else Inl (Error err)
           | Inr entry \<Rightarrow> Inr (Some (key_only entry))))"

fun scan_keys :: "(error + row) list \<Rightarrow> KeyOnlyEntry list res" where
  "scan_keys [] = Inr []"
| "scan_keys (Inl e # rs) = Inl (Error (Wrap ''failed to scan key-only entry'' e))"
| "scan_keys (Inr r # rs) = bind_res (scan_keys rs) (\<lambda>es. Inr (key_only r # es))"

definition GetAllKeysOnly :: "('db, 'st, 'tx) sql_api \<Rightarrow> ('db, 'st) pgtt_store \<Rightarrow> bytes list \<Rightarrow> u64 \<Rightarrow> KeyOnlyEntry list res" where
  "GetAllKeysOnly A s keys blockNumber =
     bind_res (wrap_res ''failed to select key-only entries''
       (query_stmt A (pgtt_db s) (pgtt_selectAllKeyOnlyStatement s) [Arg_BytesArray keys, Arg_Uint64 blockNumber]))
     scan_keys"

definition pgtt_GetTypeURL :: "('db, 'st) pgtt_store \<Rightarrow> string" where
  "pgtt_GetTypeURL s = pgtt_typeUrl s"

definition pg_ops :: "('db, 'st, 'tx) sql_api \<Rightarrow> ('db, 'st) pg_store store_ops" where
  "pg_ops A = \<lparr>op_SetAll = pg_SetAll A, op_Get = pg_Get A, op_GetFirst = pg_GetFirst A\<rparr>"

definition pgtt_ops :: "('db, 'st, 'tx) sql_api \<Rightarrow> ('db, 'st) pgtt_store store_ops" where
  "pgtt_ops A = \<lparr>op_SetAll = pgtt_SetAll A, op_Get = pgtt_Get A, op_GetFirst = pgtt_GetFirst A\<rparr>"

end
