(* ===== verification/Base64.thy ===== *)
theory Base64
  imports Prelude
begin

text \<open>
  \<open>base64.StdEncoding\<close> of the Go library, as far as the command line uses it: \<open>DecodeString\<close>
  (the alphabet with \<open>+\<close> and \<open>/\<close>, padding required, line breaks ignored), and the encoding
  as the reference that it inverts.
\<close>

definition b64Chars :: string where
  "b64Chars = ''ABCDEFGHIJKLMNOPQRSTUVWXYZabcdefghijklmnopqrstuvwxyz0123456789+/''"

definition b64_char :: "nat \<Rightarrow> char" where
  "b64_char n = b64Chars ! n"

definition b64_value :: "char \<Rightarrow> nat option" where
  "b64_value c = map_of (zip b64Chars [0..<64]) c"

definition b64_error :: "error + bytes" where
  "b64_error = Inl (Ext ''illegal base64 data'')"

text \<open>The bytes of four sextets.\<close>

definition sextet1 :: "nat \<Rightarrow> nat \<Rightarrow> byte" where
  "sextet1 x y = of_nat ((x * 64 + y) div 16)"

definition sextet2 :: "nat \<Rightarrow> nat \<Rightarrow> byte" where
  "sextet2 y z = of_nat (((y mod 16) * 64 + z) div 4)"

definition sextet3 :: "nat \<Rightarrow> nat \<Rightarrow> byte" where
  "sextet3 z u = of_nat ((z mod 4) * 64 + u)"

text \<open>Groups of four characters; only the last one may be padded.\<close>

fun b64_quanta :: "string \<Rightarrow> error + bytes" where
  "b64_quanta [] = Inr []"
| "b64_quanta (a # b # c # d # r) =
     (case (b64_value a, b64_value b) of
        (Some x, Some y) \<Rightarrow>
          if c = CHR ''='' then
            (if d = CHR ''='' \<and> r = [] then Inr [sextet1 x y] else b64_error)
          else (case b64_value c of
                  None \<Rightarrow> b64_error
                | Some z \<Rightarrow>
                    if d = CHR ''='' then
                      (if r = [] then Inr [sextet1 x y, sextet2 y z]
                       else b64_error)
                    else (case b64_value d of
                            None \<Rightarrow> b64_error
                          | Some u \<Rightarrow>
                              (case b64_quanta r of
                                 Inl e \<Rightarrow> Inl e
                               | Inr bs \<Rightarrow> Inr (sextet1 x y # sextet2 y z
                                   # sextet3 z u # bs))))
      | _ \<Rightarrow> b64_error)"
| "b64_quanta _ = b64_error"

definition b64_decode :: "string \<Rightarrow> error + bytes" where
  "b64_decode s = b64_quanta (filter (\<lambda>c. c \<noteq> CHR 0x0A \<and> c \<noteq> CHR 0x0D) s)"

fun b64_encode :: "bytes \<Rightarrow> string" where
  "b64_encode [] = []"
| "b64_encode [a] = [b64_char (unat a div 4), b64_char (unat a mod 4 * 16), CHR ''='', CHR ''='']"
| "b64_encode [a, b] =
     [b64_char (unat a div 4), b64_char (unat a mod 4 * 16 + unat b div 16), b64_char (unat b mod 16 * 4), CHR ''='']"
| "b64_encode (a # b # c # r) =
     b64_char (unat a div 4) # b64_char (unat a mod 4 * 16 + unat b div 16) #
     b64_char (unat b mod 16 * 4 + unat c div 64) # b64_char (unat c mod 64) # b64_encode r"

lemma b64_char_facts:
  "n < 64 \<Longrightarrow> b64_value (b64_char n) = Some n \<and> b64_char n \<noteq> CHR ''='' \<and>
     b64_char n \<noteq> CHR 0x0A \<and> b64_char n \<noteq> CHR 0x0D"
proof -
  have "\<forall>n\<in>set [0..<64]. b64_value (b64_char n) = Some n \<and> b64_char n \<noteq> CHR ''='' \<and>
     b64_char n \<noteq> CHR 0x0A \<and> b64_char n \<noteq> CHR 0x0D"
    by code_simp
  then show "n < 64 \<Longrightarrow> ?thesis" by simp
qed

lemma byte_bound: "unat (a :: byte) < 256"
  using unsigned_less [of a, where 'a = nat] by simp

lemma byte_parts:
  "unat (a :: byte) div 4 < 64" "unat (a :: byte) mod 4 < 4" "unat (a :: byte) div 16 < 16"
  "unat (a :: byte) mod 16 < 16" "unat (a :: byte) div 64 < 4" "unat (a :: byte) mod 64 < 64"
  using byte_bound [of a] by (simp_all add: less_mult_imp_div_less)

lemma b64_bounds:
  "unat (a :: byte) div 4 < 64" "unat (a :: byte) mod 4 * 16 < 64"
  "unat (a :: byte) mod 4 * 16 + unat (b :: byte) div 16 < 64"
  "unat (b :: byte) mod 16 * 4 < 64" "unat (b :: byte) mod 16 * 4 + unat (c :: byte) div 64 < 64"
  "unat (c :: byte) mod 64 < 64"
proof -
  have m: "x * 16 + y < 64" if "x < 4" "y < 16" for x y :: nat using that by linarith
  have n: "x * 4 + y < 64" if "x < 16" "y < 4" for x y :: nat using that by linarith
  show "unat (a :: byte) mod 4 * 16 + unat (b :: byte) div 16 < 64" by (rule m [OF byte_parts(2,3)])
  show "unat (a :: byte) mod 4 * 16 < 64" using m [OF byte_parts(2), of 0 a] by simp
  show "unat (b :: byte) mod 16 * 4 + unat (c :: byte) div 64 < 64" by (rule n [OF byte_parts(4,5)])
  show "unat (b :: byte) mod 16 * 4 < 64" using n [OF byte_parts(4), of 0 b] by simp
qed (rule byte_parts)+

lemma sextet1_byte:
  assumes "q < 16"
  shows "sextet1 (unat a div 4) (unat a mod 4 * 16 + q) = a"
proof -
  have g: "h * 64 + (l * 16 + q) = q + (h * 4 + l) * 16" for h l :: nat by simp
  have "(unat a div 4 * 64 + (unat a mod 4 * 16 + q)) div 16 = unat a"
    unfolding g div_mult_mod_eq using assms by simp
  then show ?thesis by (simp add: sextet1_def)
qed

lemma sextet2_byte:
  assumes "k < 4"
  shows "sextet2 (p * 16 + unat b div 16) (unat b mod 16 * 4 + k) = b"
proof -
  have g: "h * 64 + (l * 4 + k) = k + (h * 16 + l) * 4" for h l :: nat by simp
  have "(p * 16 + unat b div 16) mod 16 = unat b div 16" using byte_parts(3) [of b] by simp
  then have "((p * 16 + unat b div 16) mod 16 * 64 + (unat b mod 16 * 4 + k)) div 4 = unat b"
    unfolding g using assms by simp
  then show ?thesis by (simp only: sextet2_def) simp
qed

lemma sextet3_byte: "sextet3 (l * 4 + unat c div 64) (unat c mod 64) = c"
proof -
  have "(l * 4 + unat c div 64) mod 4 = unat c div 64" using byte_parts(5) [of c] by simp
  then show ?thesis by (simp add: sextet3_def)
qed

lemmas sextet_bytes [simp] =
  sextet1_byte [OF byte_parts(3)] sextet1_byte [of 0, simplified]
  sextet2_byte [OF byte_parts(5)] sextet2_byte [of 0, simplified] sextet3_byte

lemma b64_quanta_encode: "b64_quanta (b64_encode bs) = Inr bs"
  by (induction bs rule: b64_encode.induct) (simp_all add: b64_char_facts b64_bounds)

lemma b64_encode_no_breaks: "filter (\<lambda>c. c \<noteq> CHR 0x0A \<and> c \<noteq> CHR 0x0D) (b64_encode bs) = b64_encode bs"
  by (induction bs rule: b64_encode.induct) (use b64_bounds b64_char_facts in simp_all)

lemma b64_decode_encode: "b64_decode (b64_encode bs) = Inr bs"
  by (simp add: b64_decode_def b64_encode_no_breaks b64_quanta_encode)

end
