(* ===== verification/Commands.thy ===== *)
theory Commands
  imports Grpc_Properties Postgres_Store Base64
begin

text \<open>
  The commands (\<open>cmd/foundational-store\<close>): \<open>get\<close>, \<open>server\<close> and \<open>remote-feed\<close>.  A command reads
  its flags, checks them, and puts the components together.  What it calls of other
  packages (cobra, viper, \<open>dauth\<close>, the Substreams client, dialing, the supervisor of the
  application) is a parameter; logging is left out, except for what \<open>get\<close> prints and
  what \<open>ping\<close> reports.
\<close>

section \<open>Flags\<close>

text \<open>
  The value of a flag is the one given or the default; a flag that does not exist, or has
  another type, reads as the zero value (the commands drop the error).
\<close>

datatype flag_value =
  Flag_String string | Flag_Int int | Flag_Uint64 u64 | Flag_Bool bool | Flag_Duration int

type_synonym flags = "string \<Rightarrow> flag_value option"

definition with_defaults :: "(string \<times> flag_value) list \<Rightarrow> flags \<Rightarrow> flags" where
  "with_defaults defs given name = (case given name of Some v \<Rightarrow> Some v | None \<Rightarrow> map_of defs name)"

definition GetString :: "flags \<Rightarrow> string \<Rightarrow> string" where
  "GetString fl name = (case fl name of Some (Flag_String s) \<Rightarrow> s | _ \<Rightarrow> '''')"

definition GetInt :: "flags \<Rightarrow> string \<Rightarrow> int" where
  "GetInt fl name = (case fl name of Some (Flag_Int i) \<Rightarrow> i | _ \<Rightarrow> 0)"

definition GetUint64 :: "flags \<Rightarrow> string \<Rightarrow> u64" where
  "GetUint64 fl name = (case fl name of Some (Flag_Uint64 n) \<Rightarrow> n | _ \<Rightarrow> 0)"

definition GetBool :: "flags \<Rightarrow> string \<Rightarrow> bool" where
  "GetBool fl name = (case fl name of Some (Flag_Bool b) \<Rightarrow> b | _ \<Rightarrow> False)"

definition GetDuration :: "flags \<Rightarrow> string \<Rightarrow> int" where
  "GetDuration fl name = (case fl name of Some (Flag_Duration d) \<Rightarrow> d | _ \<Rightarrow> 0)"

text \<open>\<open>strings.TrimSpace\<close> on ASCII.\<close>

definition is_space :: "char \<Rightarrow> bool" where
  "is_space c \<longleftrightarrow> c \<in> {CHR '' '', CHR 0x09, CHR 0x0A, CHR 0x0B, CHR 0x0C, CHR 0x0D}"

definition TrimSpace :: "string \<Rightarrow> string" where
  "TrimSpace s = rev (dropWhile is_space (rev (dropWhile is_space s)))"

definition seconds :: "int \<Rightarrow> int" where
  "seconds n = n * 1000000000"

definition auth_flag_defaults :: "(string \<times> flag_value) list" where
  "auth_flag_defaults =
     [(''common-auth-plugin'', Flag_String ''''), (''organization-id'', Flag_String ''''),
      (''internal-addr'', Flag_String ''''),
      (''internal-auth-plugin'', Flag_String ''trust://?allowed=x-organization-id,x-user-id,x-api-key-id'')]"

definition server_flag_defaults :: "(string \<times> flag_value) list" where
  "server_flag_defaults =
     [(''addr'', Flag_String '':50051''), (''dsn'', Flag_String ''''), (''type-url'', Flag_String ''''),
      (''workers'', Flag_Int 10), (''manifest-path'', Flag_String ''''), (''output-module-name'', Flag_String ''''),
      (''cursor-file-path'', Flag_String ''state.cursor''), (''batch-size'', Flag_Int 1),
      (''max-batch-time'', Flag_Duration (seconds 30)), (''flush-queue-size'', Flag_Int 3),
      (''no-time-traversal'', Flag_Bool False), (''store-manager-address'', Flag_String ''''),
      (''startup-delay'', Flag_Duration 0)] @ auth_flag_defaults"

definition remote_feed_flag_defaults :: "(string \<times> flag_value) list" where
  "remote_feed_flag_defaults =
     [(''addr'', Flag_String '':50051''), (''dsn'', Flag_String ''''), (''type-url'', Flag_String ''''),
      (''workers'', Flag_Int 10), (''startup-delay'', Flag_Duration 0)] @ auth_flag_defaults"

definition get_flag_defaults :: "(string \<times> flag_value) list" where
  "get_flag_defaults =
     [(''server'', Flag_String ''localhost:50051''), (''key'', Flag_String ''''), (''block-number'', Flag_Uint64 0),
      (''block-hash'', Flag_String ''''), (''encoding'', Flag_String ''hex'')]"

section \<open>Authentication of the listeners\<close>

text \<open>\<open>dauth_new\<close> is \<open>dauth.New\<close>, after the plugins have been registered.\<close>

definition no_auth :: "'a AuthConfig" where
  "no_auth = \<lparr>AuthConfig_Authenticator = None, AuthConfig_OrganizationID = ''''\<rparr>"

definition loadAuthConfig :: "(string \<Rightarrow> error + 'a) \<Rightarrow> flags \<Rightarrow> 'a AuthConfig res" where
  "loadAuthConfig dauth_new fl =
     (let plugin = TrimSpace (GetString fl ''common-auth-plugin'');
          orgID = TrimSpace (GetString fl ''organization-id'')
      in if plugin = ''''
         then (if orgID \<noteq> '''' then Inl (Error (Err ''organization-id requires common-auth-plugin'')) else Inr no_auth)
         else if orgID = '''' then Inl (Error (Err ''common-auth-plugin requires organization-id''))
         else (case dauth_new plugin of
                 Inl e \<Rightarrow> Inl (Error (Wrap ''initialize auth plugin'' e))
               | Inr authenticator \<Rightarrow> Inr \<lparr>AuthConfig_Authenticator = Some authenticator, AuthConfig_OrganizationID = orgID\<rparr>))"

definition loadInternalAuthConfig :: "(string \<Rightarrow> error + 'a) \<Rightarrow> flags \<Rightarrow> ('a AuthConfig \<times> string) res" where
  "loadInternalAuthConfig dauth_new fl =
     (let addr = TrimSpace (GetString fl ''internal-addr'')
      in if addr = '''' then Inr (no_auth, '''')
         else let plugin = TrimSpace (GetString fl ''internal-auth-plugin'');
                  orgID = TrimSpace (GetString fl ''organization-id'')
           in if plugin = '''' then Inr (no_auth, addr)
              else (case dauth_new plugin of
                      Inl e \<Rightarrow> Inl (Error (Wrap ''initialize internal auth plugin'' e))
                    | Inr authenticator \<Rightarrow>
                        Inr (\<lparr>AuthConfig_Authenticator = Some authenticator, AuthConfig_OrganizationID = orgID\<rparr>, addr)))"

section \<open>get\<close>

text \<open>\<open>base58\<close> is \<open>base58.Decode\<close> of another package.\<close>

definition decodeBytes :: "(string \<Rightarrow> error + bytes) \<Rightarrow> string \<Rightarrow> string \<Rightarrow> error + bytes" where
  "decodeBytes base58 data encoding =
     (if encoding = ''base58'' then base58 data
      else if encoding = ''hex'' then hex_decode (trim_prefix data ''0x'')
      else if encoding = ''base64'' then b64_decode data
      else Inl (Err (''unsupported encoding: '' @ encoding @ ''. Supported encodings: base58, hex, base64'')))"

definition MustBase58Decode :: "(string \<Rightarrow> error + bytes) \<Rightarrow> string \<Rightarrow> bytes res" where
  "MustBase58Decode base58 s =
     (case base58 s of Inl e \<Rightarrow> Inl (Panic ''Failed to decode base58'') | Inr data \<Rightarrow> Inr data)"

text \<open>
  The generated clients: \<open>invoke\<close> is \<open>Invoke\<close> of the connection, from the full method name
  and the request to the message that it decodes into \<open>out\<close>.
\<close>

type_synonym invoke = "string \<Rightarrow> message \<Rightarrow> error + message"

definition storeClient_Get :: "invoke \<Rightarrow> GetRequest \<Rightarrow> GetResponse res" where
  "storeClient_Get invoke req =
     (case invoke ''/sf.substreams.foundational_store.service.v2.Store/Get'' (Msg_GetRequest req) of
        Inl e \<Rightarrow> Inl (Error e)
      | Inr m \<Rightarrow> (case m of Msg_GetResponse r \<Rightarrow> Inr r | _ \<Rightarrow> assertion_panic))"

definition storeClient_GetFirst :: "invoke \<Rightarrow> GetRequest \<Rightarrow> GetResponse res" where
  "storeClient_GetFirst invoke req =
     (case invoke ''/sf.substreams.foundational_store.service.v2.Store/GetFirst'' (Msg_GetRequest req) of
        Inl e \<Rightarrow> Inl (Error e)
      | Inr m \<Rightarrow> (case m of Msg_GetResponse r \<Rightarrow> Inr r | _ \<Rightarrow> assertion_panic))"

text \<open>What the command prints; \<open>protoscope\<close> formats a value.\<close>

datatype get_output =
    Out_Connecting string | Out_Sending string | Out_QueryTime
  | Out_NotReached u64 | Out_NoEntry | Out_TypeUrl string | Out_Value string | Out_ValueSize nat
  | Out_NilValue | Out_NotFound | Out_NotFoundFinalized | Out_UnknownCode ResponseCode

definition print_entry :: "(bytes \<Rightarrow> string) \<Rightarrow> QueriedEntry option \<Rightarrow> get_output list" where
  "print_entry protoscope qe =
     (case qe of
        None \<Rightarrow> [Out_NoEntry]
      | Some q \<Rightarrow>
          (case QueriedEntry_Code q of
             RESPONSE_CODE_FOUND \<Rightarrow>
               (case Entry_GetValue (QueriedEntry_Entry q) of
                  None \<Rightarrow> [Out_NilValue]
                | Some v \<Rightarrow> [Out_TypeUrl (Any_TypeUrl v), Out_Value (protoscope (Any_Value v)),
                             Out_ValueSize (length (Any_Value v))])
           | RESPONSE_CODE_NOT_FOUND \<Rightarrow> [Out_NotFound]
           | RESPONSE_CODE_NOT_FOUND_FINALIZE \<Rightarrow> [Out_NotFoundFinalized]
           | c \<Rightarrow> [Out_UnknownCode c]))"

definition print_response :: "(bytes \<Rightarrow> string) \<Rightarrow> u64 \<Rightarrow> GetResponse \<Rightarrow> get_output list" where
  "print_response protoscope blockNumber resp =
     (if \<not> GetResponse_BlockReached resp then [Out_NotReached blockNumber]
      else print_entry protoscope
        (case QueriedEntries_GetEntries (GetResponse_GetEntries (Some resp)) of [] \<Rightarrow> None | qe # _ \<Rightarrow> qe))"

text \<open>\<open>RunE\<close> of the command: what it prints, and the error it returns; \<open>dial\<close> is \<open>grpc.Dial\<close>.\<close>

definition get_request :: "flags \<Rightarrow> bytes \<Rightarrow> bytes \<Rightarrow> GetRequest" where
  "get_request fl keyBytes blockHashBytes =
     \<lparr>GetRequest_BlockNumber = GetUint64 fl ''block-number'', GetRequest_BlockHash = blockHashBytes,
      GetRequest_Keys = [Some \<lparr>Key_Bytes = keyBytes\<rparr>]\<rparr>"

definition GetCmd_RunE :: "(string \<Rightarrow> error + bytes) \<Rightarrow> (string \<Rightarrow> error + invoke) \<Rightarrow> (bytes \<Rightarrow> string) \<Rightarrow> flags \<Rightarrow>
    get_output list \<times> unit res" where
  "GetCmd_RunE base58 dial protoscope fl =
     (let getKey = GetString fl ''key''; getServer = GetString fl ''server'';
          getEncoding = GetString fl ''encoding'' in
      if getKey = '''' then ([], Inl (Error (Err ''key is required'')))
      else if getServer = '''' then ([], Inl (Error (Err ''server address is required'')))
      else case decodeBytes base58 getKey getEncoding of
        Inl e \<Rightarrow> ([], Inl (Error (Wrap (''failed to decode key as '' @ getEncoding) e)))
      | Inr keyBytes \<Rightarrow>
     (case dial getServer of
        Inl e \<Rightarrow> ([Out_Connecting getServer], Inl (Error (Wrap ''failed to connect to server'' e)))
      | Inr conn \<Rightarrow>
     (let getBlockHash = GetString fl ''block-hash'' in
      case (if getBlockHash = '''' then Inr [] else decodeBytes base58 getBlockHash getEncoding) of
        Inl e \<Rightarrow> ([Out_Connecting getServer], Inl (Error (Wrap (''failed to decode block-hash as '' @ getEncoding) e)))
      | Inr blockHashBytes \<Rightarrow>
          (case wrap_res ''failed to get value'' (storeClient_Get conn (get_request fl keyBytes blockHashBytes)) of
             Inl f \<Rightarrow> ([Out_Connecting getServer, Out_Sending getKey], Inl f)
           | Inr resp \<Rightarrow>
               ([Out_Connecting getServer, Out_Sending getKey, Out_QueryTime]
                @ print_response protoscope (GetUint64 fl ''block-number'') resp, Inr ())))))"

section \<open>The store of the server\<close>

text \<open>
  \<open>baseStore\<close> is an interface value: one of the four backends, with its operations found
  by its type.
\<close>

datatype ('db, 'pdb, 'st) base_store =
    Base_Badger "'db badger_store"
  | Base_BadgerTT "'db tt_store"
  | Base_Postgres "('pdb, 'st) pg_store"
  | Base_PostgresTT "('pdb, 'st) pgtt_store"

definition base_ops :: "('db, 'it, 'txn, 'wb) badger_api \<Rightarrow> (nat \<Rightarrow> nat list) \<Rightarrow> ('pdb, 'st, 'tx) sql_api \<Rightarrow>
    ('db, 'pdb, 'st) base_store store_ops" where
  "base_ops B sched A =
     \<lparr>op_SetAll = (\<lambda>w es ine b. case w of
         Base_Badger s \<Rightarrow> map_prod Base_Badger (\<lambda>r. r) (op_SetAll (badger_ops B sched) s es ine b)
       | Base_BadgerTT s \<Rightarrow> map_prod Base_BadgerTT (\<lambda>r. r) (op_SetAll (tt_ops B sched) s es ine b)
       | Base_Postgres s \<Rightarrow> map_prod Base_Postgres (\<lambda>r. r) (op_SetAll (pg_ops A) s es ine b)
       | Base_PostgresTT s \<Rightarrow> map_prod Base_PostgresTT (\<lambda>r. r) (op_SetAll (pgtt_ops A) s es ine b)),
      op_Get = (\<lambda>w req. case w of
         Base_Badger s \<Rightarrow> op_Get (badger_ops B sched) s req
       | Base_BadgerTT s \<Rightarrow> op_Get (tt_ops B sched) s req
       | Base_Postgres s \<Rightarrow> op_Get (pg_ops A) s req
       | Base_PostgresTT s \<Rightarrow> op_Get (pgtt_ops A) s req),
      op_GetFirst = (\<lambda>w req. case w of
         Base_Badger s \<Rightarrow> op_GetFirst (badger_ops B sched) s req
       | Base_BadgerTT s \<Rightarrow> op_GetFirst (tt_ops B sched) s req
       | Base_Postgres s \<Rightarrow> op_GetFirst (pg_ops A) s req
       | Base_PostgresTT s \<Rightarrow> op_GetFirst (pgtt_ops A) s req)\<rparr>"

definition with_type_prefix :: "string \<Rightarrow> string" where
  "with_type_prefix serverTypeUrl =
     (if has_prefix serverTypeUrl ''type.googleapis.com/'' then serverTypeUrl
      else ''type.googleapis.com/'' @ serverTypeUrl)"

definition open_base_store :: "('db, 'it, 'txn, 'wb) badger_api \<Rightarrow> ('pdb, 'st, 'tx) sql_api \<Rightarrow> (string \<Rightarrow> error + unit) \<Rightarrow>
    (string \<Rightarrow> error + 'db) \<Rightarrow> DSN \<Rightarrow> string \<Rightarrow> int \<Rightarrow> bool \<Rightarrow> ('db, 'pdb, 'st) base_store res" where
  "open_base_store B A mkdir open_db dsn typeUrl workers noTimeTraversal =
     (if DSN_Driver dsn = ''badger'' then
        (if noTimeTraversal
         then bind_res (wrap_res ''failed to create Badger foundational-store''
                (badger_NewStore B mkdir open_db (dsn_Database dsn) typeUrl workers)) (\<lambda>s. Inr (Base_Badger s))
         else bind_res (wrap_res ''failed to create Badger time traversal foundational-store''
                (tt_NewStore mkdir open_db (dsn_Database dsn) typeUrl workers)) (\<lambda>s. Inr (Base_BadgerTT s)))
      else if DSN_Driver dsn = ''postgres'' then
        (if noTimeTraversal
         then bind_res (wrap_res ''failed to create Postgres foundational-store''
                (snd (pg_NewStore A dsn typeUrl))) (\<lambda>s. Inr (Base_Postgres s))
         else bind_res (wrap_res ''failed to create Postgres time traversal foundational-store''
                (snd (pgtt_NewStore A dsn typeUrl))) (\<lambda>s. Inr (Base_PostgresTT s)))
      else Inl (Error (Err (''unsupported foundational-store driver: '' @ DSN_Driver dsn))))"

section \<open>Pings\<close>

text \<open>The messages to the store manager; the failure reason is a pointer.\<close>

datatype PingResponse_Code =
  PingResponse_unset | PingResponse_pong | PingResponse_failed | PingResponse_unnamed "32 word"

record PingRequest =
  PingRequest_ModuleOutputHash :: string
  PingRequest_Network :: string

record PingResponse =
  PingResponse_Code :: PingResponse_Code
  PingResponse_FailureReason :: "string option"

fun PingResponse_GetFailureReason :: "PingResponse option \<Rightarrow> string" where
  "PingResponse_GetFailureReason (Some x) = (case PingResponse_FailureReason x of Some r \<Rightarrow> r | None \<Rightarrow> '''')"
| "PingResponse_GetFailureReason None = ''''"

datatype ping_log =
  Ping_Error error | Ping_NilResponse | Ping_Successful | Ping_Failed PingResponse_Code string

text \<open>\<open>client_ping\<close> is \<open>Ping\<close> of the store manager's client.\<close>

definition ping :: "(PingRequest \<Rightarrow> error + PingResponse option) \<Rightarrow> string \<Rightarrow> string \<Rightarrow> ping_log" where
  "ping client_ping moduleOutputHash network =
     (case client_ping \<lparr>PingRequest_ModuleOutputHash = moduleOutputHash, PingRequest_Network = network\<rparr> of
        Inl e \<Rightarrow> Ping_Error e
      | Inr None \<Rightarrow> Ping_NilResponse
      | Inr (Some resp) \<Rightarrow>
          if PingResponse_Code resp = PingResponse_pong then Ping_Successful
          else Ping_Failed (PingResponse_Code resp) (PingResponse_GetFailureReason (Some resp)))"

text \<open>The goroutine: a ping at once, then one per tick until the context is done.\<close>

datatype ping_event = Tick | Ctx_Done

fun ping_loop :: "(PingRequest \<Rightarrow> error + PingResponse option) \<Rightarrow> string \<Rightarrow> string \<Rightarrow> ping_event list \<Rightarrow> ping_log list" where
  "ping_loop c h n [] = []"
| "ping_loop c h n (Ctx_Done # es) = []"
| "ping_loop c h n (Tick # es) = ping c h n # ping_loop c h n es"

definition ping_goroutine :: "(PingRequest \<Rightarrow> error + PingResponse option) \<Rightarrow> string \<Rightarrow> string \<Rightarrow> ping_event list \<Rightarrow> ping_log list" where
  "ping_goroutine c h n es = ping c h n # ping_loop c h n es"

section \<open>server and remote-feed\<close>

text \<open>
  What the two commands call of other packages:
  \<^item> \<open>env_expand\<close>, \<open>env_url_parse\<close>, \<open>env_option_order\<close>: what \<open>ParseDSN\<close> takes;
  \<^item> \<open>env_mkdir\<close>, \<open>env_open_db\<close>: the directory and the database of a Badger store;
  \<^item> \<open>env_read_file\<close>, \<open>env_getwd\<close>, \<open>env_join\<close>, \<open>env_files\<close>: the file system of the cursor;
  \<^item> \<open>env_new_sink\<close>: \<open>subsink.NewFromViper\<close>, from the path of the manifest and the name of
    the output module; \<open>env_module_hash\<close> and \<open>env_network\<close> are \<open>OutputModuleHash()\<close> and
    \<open>Pkg.Network\<close> of the client it returns;
  \<^item> \<open>env_dial\<close>, \<open>env_ping\<close>: \<open>grpcclient.Dial\<close>, and \<open>Ping\<close> of the store manager's client;
  \<^item> \<open>env_dauth_new\<close>: \<open>dauth.New\<close>.
\<close>

record ('db, 'fs, 'client, 'conn, 'a) command_env =
  env_expand :: "string \<Rightarrow> error + string"
  env_url_parse :: "string \<Rightarrow> error + URL"
  env_option_order :: "string list \<Rightarrow> string list"
  env_mkdir :: "string \<Rightarrow> error + unit"
  env_open_db :: "string \<Rightarrow> error + 'db"
  env_read_file :: "string \<Rightarrow> error + string"
  env_getwd :: "error + string"
  env_join :: "string \<Rightarrow> string \<Rightarrow> string"
  env_files :: 'fs
  env_new_sink :: "string \<Rightarrow> string \<Rightarrow> error + 'client"
  env_module_hash :: "'client \<Rightarrow> string"
  env_network :: "'client \<Rightarrow> string"
  env_dial :: "string \<Rightarrow> error + 'conn"
  env_ping :: "'conn \<Rightarrow> PingRequest \<Rightarrow> error + PingResponse option"
  env_dauth_new :: "string \<Rightarrow> error + 'a"

text \<open>
  What a command has set going when it waits for the termination of the application, in
  this order: the delay, the sink with its client and its cursor, the listeners, the pings.
\<close>

datatype ('client, 'c, 'd) command_action =
    Slept int
  | Sink_Started 'client "'c option"
  | Listeners_Started "(string \<times> 'd) list"
  | Pings_Started "ping_event list \<Rightarrow> ping_log list"

definition startup_delay :: "flags \<Rightarrow> ('client, 'c, 'd) command_action list" where
  "startup_delay fl = (if 0 < GetDuration fl ''startup-delay'' then [Slept (GetDuration fl ''startup-delay'')] else [])"

definition command_dsn :: "('db, 'fs, 'client, 'conn, 'a, 'e) command_env_scheme \<Rightarrow> flags \<Rightarrow> (DSN \<times> string) res" where
  "command_dsn E fl =
     (if GetString fl ''dsn'' = '''' then Inl (Error (Err ''dsn is required''))
      else if GetString fl ''type-url'' = '''' then Inl (Error (Err ''type URL is required''))
      else bind_res (wrap_res ''failed to parse DSN''
             (ParseDSN (env_expand E) (env_url_parse E) (env_option_order E) (GetString fl ''dsn'')))
           (\<lambda>dsn. Inr (dsn, with_type_prefix (GetString fl ''type-url''))))"

text \<open>
  The state of the process that the goroutines of \<open>server\<close> share: the fork-aware store,
  in the sink when there is one.
\<close>

datatype ('s, 'c, 'fs) process = Process_Store 's | Process_Sinker "('s, 'c, 'fs) sinker"

definition process_ops :: "('s, 'x) store_ops_scheme \<Rightarrow> ('s, 'c, 'fs) process store_ops" where
  "process_ops F =
     \<lparr>op_SetAll = (\<lambda>p es ine b. case p of
         Process_Store s \<Rightarrow> map_prod Process_Store (\<lambda>r. r) (op_SetAll F s es ine b)
       | Process_Sinker s \<Rightarrow> map_prod Process_Sinker (\<lambda>r. r) (op_SetAll (sink_store_ops F) s es ine b)),
      op_Get = (\<lambda>p. case p of
         Process_Store s \<Rightarrow> op_Get F s | Process_Sinker s \<Rightarrow> op_Get (sink_store_ops F) s),
      op_GetFirst = (\<lambda>p. case p of
         Process_Store s \<Rightarrow> op_GetFirst F s | Process_Sinker s \<Rightarrow> op_GetFirst (sink_store_ops F) s)\<rparr>"

definition process_headBlock :: "('s, 'c, 'fs) process \<Rightarrow> u64" where
  "process_headBlock p = (case p of Process_Store _ \<Rightarrow> - 1 | Process_Sinker s \<Rightarrow> HeadBlock s)"

text \<open>The closure \<open>ping\<close> as the goroutine runs it: without an address it does nothing.\<close>

definition server_pings :: "('db, 'fs, 'client, 'conn, 'a, 'e) command_env_scheme \<Rightarrow> flags \<Rightarrow> 'client \<Rightarrow>
    (ping_event list \<Rightarrow> ping_log list) res" where
  "server_pings E fl client =
     (if GetString fl ''store-manager-address'' = '''' then Inr (\<lambda>_. [])
      else case env_dial E (GetString fl ''store-manager-address'') of
             Inl e \<Rightarrow> Inl (Error (Wrap ''dialing store manager'' e))
           | Inr conn \<Rightarrow> Inr (ping_goroutine (env_ping E conn) (env_module_hash E client) (env_network E client)))"

definition server_sink :: "('c, 'fs) cursor_api \<Rightarrow> ('db, 'fs, 'client, 'conn, 'a, 'e) command_env_scheme \<Rightarrow> flags \<Rightarrow> 's \<Rightarrow>
    'c option \<Rightarrow> (('s, 'c, 'fs) process \<times> (ping_event list \<Rightarrow> ping_log list) \<times> ('client, 'c, 'd) command_action list) res" where
  "server_sink C E fl storeImpl cursor =
     (if GetString fl ''manifest-path'' = '''' then Inr (Process_Store storeImpl, (\<lambda>_. []), [])
      else case env_new_sink E (GetString fl ''manifest-path'') (GetString fl ''output-module-name'') of
             Inl e \<Rightarrow> Inl (Error (Wrap ''failed to create substreams sink'' e))
           | Inr substreamsClient \<Rightarrow>
               (let sinker = NewSinker C storeImpl (GetString fl ''cursor-file-path'') cursor (env_files E)
                in bind_res (server_pings E fl substreamsClient) (\<lambda>pings.
                     Inr (Process_Sinker sinker, pings, [Sink_Started substreamsClient cursor]))))"

text \<open>The authentication of the listeners, and the listeners.\<close>

definition command_listen :: "('a, 'ctx, 'h, 't, 'w) auth_api \<Rightarrow>
    (('ctx, 'w) unary_interceptor list \<Rightarrow> ('t, 'w) stream_interceptor list \<Rightarrow> ('ctx, 'w) ServiceDesc list \<Rightarrow> 'd) \<Rightarrow>
    (string \<Rightarrow> error + 'a) \<Rightarrow> flags \<Rightarrow> ('w, 'd) GrpcServer \<Rightarrow> (('w, 'd) GrpcServer \<times> (string \<times> 'd) list) res" where
  "command_listen A factory dauth_new fl server =
     bind_res (loadAuthConfig dauth_new fl) (\<lambda>authConfig.
     bind_res (loadInternalAuthConfig dauth_new fl) (\<lambda>(internalAuthConfig, internalAddr). Inr
       (if internalAddr \<noteq> ''''
        then grpc_RunWithInternal A factory server (GetString fl ''addr'') authConfig internalAddr internalAuthConfig
        else grpc_Run A factory server (GetString fl ''addr'') authConfig)))"

text \<open>
  \<open>serverCmdE\<close> up to \<open>WaitForTermination\<close>: what it has set going, and the state of the
  process and its server, or the error that it returns.
\<close>

definition serverCmdE :: "('c, 'fs) cursor_api \<Rightarrow> ('db, 'it, 'txn, 'wb) badger_api \<Rightarrow> (nat \<Rightarrow> nat list) \<Rightarrow>
    ('pdb, 'st, 'tx) sql_api \<Rightarrow> ((bytes \<times> cachedEntry) list \<Rightarrow> (bytes \<times> cachedEntry) list) \<Rightarrow>
    ('a, 'ctx, 'h, 't, (('db, 'pdb, 'st) base_store fork_store, 'c, 'fs) process) auth_api \<Rightarrow>
    (('ctx, (('db, 'pdb, 'st) base_store fork_store, 'c, 'fs) process) unary_interceptor list \<Rightarrow>
     ('t, (('db, 'pdb, 'st) base_store fork_store, 'c, 'fs) process) stream_interceptor list \<Rightarrow>
     ('ctx, (('db, 'pdb, 'st) base_store fork_store, 'c, 'fs) process) ServiceDesc list \<Rightarrow> 'd) \<Rightarrow>
    ('db, 'fs, 'client, 'conn, 'a, 'e) command_env_scheme \<Rightarrow> flags \<Rightarrow>
    ('client, 'c, 'd) command_action list \<times>
      ((('db, 'pdb, 'st) base_store fork_store, 'c, 'fs) process \<times>
       ((('db, 'pdb, 'st) base_store fork_store, 'c, 'fs) process, 'd) GrpcServer) res" where
  "serverCmdE C B sched P cord A factory E fl =
     (case command_dsn E fl of
        Inl f \<Rightarrow> (startup_delay fl, Inl f)
      | Inr (dsn, typeUrl) \<Rightarrow>
     (case open_base_store B P (env_mkdir E) (env_open_db E) dsn typeUrl (GetInt fl ''workers'')
             (GetBool fl ''no-time-traversal'') of
        Inl f \<Rightarrow> (startup_delay fl, Inl f)
      | Inr baseStore \<Rightarrow>
     (let storeImpl = fork_NewStore baseStore;
          cursor = LoadCursorFromFile C (env_read_file E) (env_getwd E) (env_join E) (GetString fl ''cursor-file-path'') in
      case server_sink C E fl storeImpl cursor of
        Inl f \<Rightarrow> (startup_delay fl, Inl f)
      | Inr (proc, pings, started) \<Rightarrow>
     (case command_listen A factory (env_dauth_new E) fl
             (NewStoreServer (process_ops (fork_ops (base_ops B sched P) cord)) process_headBlock) of
        Inl f \<Rightarrow> (startup_delay fl @ started, Inl f)
      | Inr (server, listeners) \<Rightarrow>
          (startup_delay fl @ started @ [Listeners_Started listeners] @
             (if GetString fl ''store-manager-address'' = '''' then [] else [Pings_Started pings]),
           Inr (proc, server))))))"

definition remoteFeedCmdE :: "('db, 'it, 'txn, 'wb) badger_api \<Rightarrow> (nat \<Rightarrow> nat list) \<Rightarrow>
    ('a, 'ctx, 'h, 't, 'db badger_store) auth_api \<Rightarrow>
    (('ctx, 'db badger_store) unary_interceptor list \<Rightarrow> ('t, 'db badger_store) stream_interceptor list \<Rightarrow>
     ('ctx, 'db badger_store) ServiceDesc list \<Rightarrow> 'd) \<Rightarrow>
    ('db, 'fs, 'client, 'conn, 'a, 'e) command_env_scheme \<Rightarrow> flags \<Rightarrow>
    ('client, 'c, 'd) command_action list \<times> ('db badger_store \<times> ('db badger_store, 'd) GrpcServer) res" where
  "remoteFeedCmdE B sched A factory E fl =
     (case command_dsn E fl of
        Inl f \<Rightarrow> (startup_delay fl, Inl f)
      | Inr (dsn, typeUrl) \<Rightarrow>
     (if DSN_Driver dsn \<noteq> ''badger''
      then (startup_delay fl, Inl (Error (Err (''remote-feed mode only supports the badger driver, got '' @ quoted (DSN_Driver dsn)))))
      else case wrap_res ''failed to create Badger foundational-store''
             (badger_NewStore B (env_mkdir E) (env_open_db E) (dsn_Database dsn) typeUrl (GetInt fl ''workers'')) of
        Inl f \<Rightarrow> (startup_delay fl, Inl f)
      | Inr badgerStore \<Rightarrow>
     (case command_listen A factory (env_dauth_new E) fl (NewRemoteFeedServer (badger_feed_ops B sched)) of
        Inl f \<Rightarrow> (startup_delay fl, Inl f)
      | Inr (server, listeners) \<Rightarrow>
          (startup_delay fl @ [Listeners_Started listeners], Inr (badgerStore, server)))))"

text \<open>
  The end of a command: \<open>app_err\<close> is what \<open>WaitForTermination\<close> returns.  \<open>main\<close> exits with
  1 on an error of the command (\<open>Execute\<close> returns it).
\<close>

datatype command_end = Command_Returned "unit res" | Process_Exit nat

definition command_finish :: "error option \<Rightarrow> 'r res \<Rightarrow> command_end" where
  "command_finish app_err r =
     (case r of
        Inl f \<Rightarrow> Command_Returned (Inl f)
      | Inr _ \<Rightarrow> (case app_err of None \<Rightarrow> Command_Returned (Inr ()) | Some e \<Rightarrow> Process_Exit 1))"

definition command_main :: "command_end \<Rightarrow> nat option" where
  "command_main r =
     (case r of
        Process_Exit n \<Rightarrow> Some n
      | Command_Returned (Inl (Error e)) \<Rightarrow> Some 1
      | Command_Returned (Inl Blocked) \<Rightarrow> None
      | Command_Returned (Inl (Panic _)) \<Rightarrow> Some 2
      | Command_Returned (Inr _) \<Rightarrow> Some 0)"

end
