(* ===== verification/Postgres_Properties.thy ===== *)
theory Postgres_Properties
  imports Postgres_Store
begin

text \<open>
  The properties of the Postgres backends: what the time-traversal read answers on a table,
  and that neither backend can write with the arguments it passes.
\<close>

section \<open>Tables\<close>

text \<open>A table is a list of rows; \<open>pk_ok\<close> is its primary key.\<close>

definition pk_ok :: "row list \<Rightarrow> bool" where
  "pk_ok t \<longleftrightarrow> distinct (map (\<lambda>r. (row_key r, row_block_number r)) t)"

definition table_vers :: "row list \<Rightarrow> bytes \<Rightarrow> versions" where
  "table_vers t k b = map_of (map (\<lambda>r. ((row_key r, row_block_number r), row_value r)) t) (k, b)"

text \<open>The rows with the greatest block not above \<open>n\<close>, for the keys \<open>ks\<close>.\<close>

definition newest :: "row list \<Rightarrow> bytes list \<Rightarrow> u64 \<Rightarrow> row \<Rightarrow> bool" where
  "newest t ks n r \<longleftrightarrow> r \<in> set t \<and> row_key r \<in> set ks \<and> row_block_number r \<le> n \<and>
     (\<forall>r'\<in>set t. row_key r' = row_key r \<longrightarrow> row_block_number r' \<le> n \<longrightarrow> row_block_number r' \<le> row_block_number r)"

text \<open>
  What is used of SQL: the statement \<open>select distinct on (key) * ... where key = any($1) and
  block_number <= $2 order by key, block_number desc\<close> returns one row per key, the newest.
\<close>

locale sql_select =
  fixes A :: "('db, 'st, 'tx) sql_api" and table :: "'db \<Rightarrow> row list"
  assumes select_any: "pk_ok (table db) \<Longrightarrow> sql_prepare A db0 (pgtt_select_any_text schema) = Inr st \<Longrightarrow>
      stmt_query A db st [Arg_BytesArray ks, Arg_Uint64 n] = Inr rs \<Longrightarrow>
      \<exists>rows. rs = map Inr rows \<and> distinct (map row_key rows) \<and> set rows = {r. newest (table db) ks n r}"

lemma table_vers_iff:
  assumes "pk_ok t"
  shows "table_vers t k b = Some v \<longleftrightarrow> (\<exists>r\<in>set t. row_key r = k \<and> row_block_number r = b \<and> row_value r = v)"
proof -
  have "distinct (map fst (map (\<lambda>r. ((row_key r, row_block_number r), row_value r)) t))"
    using assms by (simp add: pk_ok_def comp_def)
  then have "map_of (map (\<lambda>r. ((row_key r, row_block_number r), row_value r)) t) (k, b) = Some v \<longleftrightarrow>
      ((k, b), v) \<in> set (map (\<lambda>r. ((row_key r, row_block_number r), row_value r)) t)"
    by (rule map_of_eq_Some_iff)
  also have "\<dots> \<longleftrightarrow> (\<exists>r\<in>set t. row_key r = k \<and> row_block_number r = b \<and> row_value r = v)" by auto
  finally show ?thesis by (simp add: table_vers_def)
qed

lemma newest_latest:
  assumes "pk_ok t" and "k \<in> set ks"
  shows "latest_at (table_vers t k) n = Some v \<longleftrightarrow> (\<exists>r. newest t ks n r \<and> row_key r = k \<and> row_value r = v)"
proof
  assume "latest_at (table_vers t k) n = Some v"
  then obtain b where b: "table_vers t k b = Some v" "b \<le> n"
    and m: "\<And>b'. b' \<le> n \<Longrightarrow> table_vers t k b' \<noteq> None \<Longrightarrow> b' \<le> b"
    using latest_at_SomeD [of "table_vers t k" n v] by blast
  obtain r where r: "r \<in> set t" "row_key r = k" "row_block_number r = b" "row_value r = v"
    using b(1) table_vers_iff [OF assms(1)] by blast
  have "row_block_number r' \<le> b" if "r' \<in> set t" "row_key r' = k" "row_block_number r' \<le> n" for r'
    using m [OF that(3)] that table_vers_iff [OF assms(1), of k "row_block_number r'" "row_value r'"] by auto
  then have "newest t ks n r" using r b(2) assms(2) by (auto simp: newest_def)
  with r show "\<exists>r. newest t ks n r \<and> row_key r = k \<and> row_value r = v" by blast
next
  assume "\<exists>r. newest t ks n r \<and> row_key r = k \<and> row_value r = v"
  then obtain r where r: "newest t ks n r" "row_key r = k" "row_value r = v" by blast
  show "latest_at (table_vers t k) n = Some v"
  proof (rule latest_at_SomeI [of _ "row_block_number r"])
    show "table_vers t k (row_block_number r) = Some v"
      using r table_vers_iff [OF assms(1)] by (auto simp: newest_def)
    show "row_block_number r \<le> n" using r(1) by (simp add: newest_def)
    fix b' assume "b' \<le> n" "table_vers t k b' \<noteq> None"
    then obtain r' where "r' \<in> set t" "row_key r' = k" "row_block_number r' = b'"
      using table_vers_iff [OF assms(1)] by (metis not_None_eq)
    then show "b' \<le> row_block_number r" using r \<open>b' \<le> n\<close> by (auto simp: newest_def)
  qed
qed

section \<open>The loops of a read\<close>

lemma scan_rows_ok:
  "scan_rows msg (map Inr rows) m = Inr (fold (\<lambda>r. AList.update (hex_encode (row_key r)) r) rows m)"
  by (induction rows arbitrary: m) auto

lemma map_of_scanned:
  assumes "distinct (map row_key rows)"
  shows "map_of (fold (\<lambda>r. AList.update (hex_encode (row_key r)) r) rows []) (hex_encode k) = Some r \<longleftrightarrow>
    r \<in> set rows \<and> row_key r = k"
proof -
  have f: "map_of (fold (\<lambda>r. AList.update (hex_encode (row_key r)) r) rows m) =
      apply_sets (map (\<lambda>r. (hex_encode (row_key r), r)) rows) (map_of m)" for m
    by (induction rows arbitrary: m) auto
  have "distinct (map (hex_encode \<circ> row_key) rows)"
    using assms by (metis distinct_map inj_onI hex_encode_inj map_map)
  then have d: "distinct (map fst (rev (map (\<lambda>r. (hex_encode (row_key r), r)) rows)))"
    by (simp add: rev_map [symmetric] comp_def)
  show ?thesis
    unfolding f apply_sets_def
    using map_of_eq_Some_iff [OF d] by (auto simp: hex_encode_inj)
qed

lemma all_key_bytes_Some: "all_key_bytes (map Some ks) = Inr (map Key_Bytes ks)"
  by (induction ks) auto

lemma answer_rows_Some:
  "answer_rows t m (map Some ks) = Inr (map (\<lambda>k. Some (case map_of m (hex_encode (Key_Bytes k)) of
      None \<Rightarrow> not_found (Some k) | Some r \<Rightarrow> found (Some k) t (row_value r))) ks)"
  by (induction ks) auto

context sql_select
begin

lemma Get_answers:
  assumes "pk_ok (table (pgtt_db s))" and "pgtt_selectAnyStatement s = Some st"
    and "sql_prepare A db0 (pgtt_select_any_text (pgtt_schemaName s)) = Inr st"
    and "GetRequest_Keys req = map Some ks" and "pgtt_Get A s req = Inr r"
  shows "r = read_response (pgtt_typeUrl s) (table_vers (table (pgtt_db s))) (GetRequest_BlockNumber req) ks"
proof -
  let ?n = "GetRequest_BlockNumber req" and ?t = "table (pgtt_db s)"
  obtain rs where rs: "stmt_query A (pgtt_db s) st [Arg_BytesArray (map Key_Bytes ks), Arg_Uint64 ?n] = Inr rs"
    using assms(2,4,5) by (auto simp: pgtt_Get_def all_key_bytes_Some query_stmt_def res_simps)
  obtain rows where rows: "rs = map Inr rows" "distinct (map row_key rows)"
    "set rows = {r. newest ?t (map Key_Bytes ks) ?n r}"
    using select_any [OF assms(1,3) rs] by blast
  let ?m = "fold (\<lambda>r. AList.update (hex_encode (row_key r)) r) rows []"
  have a: "(case map_of ?m (hex_encode (Key_Bytes k)) of
        None \<Rightarrow> not_found (Some k) | Some r \<Rightarrow> found (Some k) (pgtt_typeUrl s) (row_value r)) =
      answer (pgtt_typeUrl s) (table_vers ?t) ?n k" if "k \<in> set ks" for k
  proof -
    have i: "map_of ?m (hex_encode (Key_Bytes k)) = Some r \<longleftrightarrow>
        newest ?t (map Key_Bytes ks) ?n r \<and> row_key r = Key_Bytes k" for r
      using map_of_scanned [OF rows(2)] rows(3) by simp
    have l: "latest_at (table_vers ?t (Key_Bytes k)) ?n = Some v \<longleftrightarrow>
        (\<exists>r. map_of ?m (hex_encode (Key_Bytes k)) = Some r \<and> row_value r = v)" for v
      using newest_latest [OF assms(1), of "Key_Bytes k" "map Key_Bytes ks" ?n v] that i by auto
    show ?thesis
    proof (cases "map_of ?m (hex_encode (Key_Bytes k))")
      case None
      then have "latest_at (table_vers ?t (Key_Bytes k)) ?n = None" using l by (metis not_None_eq)
      with None show ?thesis by (simp add: answer_def)
    next
      case (Some r)
      then have "latest_at (table_vers ?t (Key_Bytes k)) ?n = Some (row_value r)" using l by blast
      with Some show ?thesis by (simp add: answer_def)
    qed
  qed
  have m: "map (\<lambda>k. Some (case map_of ?m (hex_encode (Key_Bytes k)) of
        None \<Rightarrow> not_found (Some k) | Some r \<Rightarrow> found (Some k) (pgtt_typeUrl s) (row_value r))) ks =
      map (\<lambda>k. Some (answer (pgtt_typeUrl s) (table_vers ?t) ?n k)) ks"
    by (rule map_cong [OF refl]) (simp only: a)
  have "r = response (map (\<lambda>k. Some (case map_of ?m (hex_encode (Key_Bytes k)) of
      None \<Rightarrow> not_found (Some k) | Some r \<Rightarrow> found (Some k) (pgtt_typeUrl s) (row_value r))) ks)"
    using assms(2,4,5) rs
    by (simp add: pgtt_Get_def all_key_bytes_Some query_stmt_def rows(1) scan_rows_ok answer_rows_Some)
  then show ?thesis unfolding m read_response_def .
qed

end

section \<open>Writes\<close>

text \<open>
  \<open>database/sql\<close> converts the arguments of a statement: a pointer is followed, and a struct
  that does not implement \<open>driver.Valuer\<close> is an error (\<open>driver.DefaultParameterConverter\<close>).
  The protobuf message \<open>Key\<close> is such a struct.  Opening and ending a transaction do not
  change the rows.
\<close>

definition rejects_messages :: "('db, 'st, 'tx) sql_api \<Rightarrow> ('db \<Rightarrow> row list) \<Rightarrow> bool" where
  "rejects_messages A table \<longleftrightarrow>
     (\<forall>db st args k. Arg_Key (Some k) \<in> set args \<longrightarrow> (\<exists>e. stmt_exec A db st args = (db, Inl e))) \<and>
     (\<forall>db tx q args k. Arg_Key (Some k) \<in> set args \<longrightarrow> (\<exists>e. tx_count A db tx q args = Inl e)) \<and>
     (\<forall>db. table (fst (sql_begin A db)) = table db) \<and>
     (\<forall>db tx. table (tx_rollback A db tx) = table db)"

lemma insert_all_rejected:
  assumes "rejects_messages A table" and "es \<noteq> []" and "\<forall>e\<in>set es. entry_ok e"
  shows "\<exists>db' e. insert_all A schema st es ine b db = (db', Inl (Error e)) \<and> table db' = table db"
proof -
  obtain x es' k v where es: "es = Some x # es'" and x: "Entry_Key x = Some k" "Entry_Value x = Some v"
    using assms(2,3) by (cases es) (auto elim: entry_ok.elims)
  note R = assms(1) [unfolded rejects_messages_def]
  have c: "\<exists>e. tx_count A db tx q [Arg_Key (Some k)] = Inl e" for db tx q using R by simp
  have i: "\<exists>e. stmt_exec A db st' (insert_args b x v) = (db, Inl e)" for db st'
    using R by (simp add: insert_args_def x)
  obtain db0 r where b0: "sql_begin A db = (db0, r)" by fastforce
  then have t: "table db0 = table db" using R by (metis fst_conv)
  show ?thesis
  proof (cases r)
    case (Inl e)
    then show ?thesis using b0 t assms(2) by (simp add: insert_all_def)
  next
    case (Inr tx)
    have l: "\<exists>e. insert_loop A schema st' tx ine b es db0 = (tx_rollback A db0 tx, Inl (Error e))" for st'
      using c [of db0 tx "count_text schema"] i [of db0 st'] by (auto simp: es x)
    have rb: "table (tx_rollback A db0 tx) = table db" using R t by metis
    show ?thesis
    proof (cases st)
      case None
      then show ?thesis using rb b0 Inr assms(2) by (simp add: insert_all_def)
    next
      case (Some st')
      obtain e where "insert_loop A schema st' tx ine b es db0 = (tx_rollback A db0 tx, Inl (Error e))"
        using l by blast
      then show ?thesis using rb b0 Inr Some assms(2) by (simp add: insert_all_def)
    qed
  qed
qed

section \<open>A database in memory\<close>

definition row_newest :: "row list \<Rightarrow> bytes list \<Rightarrow> u64 \<Rightarrow> row \<Rightarrow> bool" where
  "row_newest t ks n r \<longleftrightarrow> row_key r \<in> set ks \<and> row_block_number r \<le> n \<and>
     list_all (\<lambda>r'. row_key r' = row_key r \<longrightarrow> row_block_number r' \<le> n \<longrightarrow> row_block_number r' \<le> row_block_number r) t"

text \<open>
  A driver that, like \<open>database/sql\<close>, rejects arguments that are pointers to messages.  The
  statements are recognised by their arguments.
\<close>

fun mem_insert :: "row list \<Rightarrow> sql_arg list \<Rightarrow> row list \<times> (error + unit)" where
  "mem_insert t [Arg_Uint64 b, Arg_Bytes k, Arg_Bytes v, Arg_Now] =
     (if list_ex (\<lambda>r. row_key r = k \<and> row_block_number r = b) t then (t, Inl (Ext ''duplicate key''))
      else (t @ [\<lparr>row_block_number = b, row_key = k, row_value = v\<rparr>], Inr ()))"
| "mem_insert t args = (t, Inl (Ext ''unsupported type''))"

fun mem_query :: "row list \<Rightarrow> sql_arg list \<Rightarrow> error + (error + row) list" where
  "mem_query t [Arg_BytesArray ks, Arg_Uint64 n] = Inr (map Inr (filter (row_newest t ks n) t))"
| "mem_query t args = Inl (Ext ''unsupported type'')"

definition mem_sql :: "(row list, string, unit) sql_api" where
  "mem_sql =
     \<lparr>sql_open = (\<lambda>driver conn. Inr []), sql_prepare = (\<lambda>t q. Inr q),
      stmt_exec = (\<lambda>t st. mem_insert t), stmt_query = (\<lambda>t st. mem_query t),
      stmt_get = (\<lambda>t st args. Inl ErrNoRows), sql_count = (\<lambda>t q args. Inl (Ext ''unsupported type'')),
      sql_begin = (\<lambda>t. (t, Inr ())), tx_count = (\<lambda>t tx q args. Inl (Ext ''unsupported type'')),
      tx_exec = (\<lambda>t tx q. (t, Inr ())), tx_commit = (\<lambda>t tx. (t, Inr ())), tx_rollback = (\<lambda>t tx. t)\<rparr>"

lemma row_newest_newest: "r \<in> set t \<and> row_newest t ks n r \<longleftrightarrow> newest t ks n r"
  by (auto simp: row_newest_def newest_def list_all_iff)

lemma newest_distinct:
  assumes "pk_ok t"
  shows "distinct (map row_key (filter (row_newest t ks n) t))"
proof -
  let ?f = "filter (row_newest t ks n) t"
  have d: "distinct (map (\<lambda>r. (row_key r, row_block_number r)) ?f)"
    using assms unfolding pk_ok_def by (rule distinct_map_filter)
  have le: "row_block_number x \<le> row_block_number y"
    if x: "x \<in> set ?f" and y: "y \<in> set ?f" and k: "row_key x = row_key y" for x y
  proof -
    have "\<forall>r'\<in>set t. row_key r' = row_key y \<longrightarrow> row_block_number r' \<le> n \<longrightarrow> row_block_number r' \<le> row_block_number y"
      using y by (simp add: row_newest_def list_all_iff)
    moreover have "x \<in> set t" "row_block_number x \<le> n" using x by (simp_all add: row_newest_def)
    ultimately show ?thesis using k by blast
  qed
  have "inj_on fst (set (map (\<lambda>r. (row_key r, row_block_number r)) ?f))"
  proof (rule inj_onI)
    fix p q
    assume "p \<in> set (map (\<lambda>r. (row_key r, row_block_number r)) ?f)"
      and "q \<in> set (map (\<lambda>r. (row_key r, row_block_number r)) ?f)" and e: "fst p = fst q"
    then obtain x y where x: "x \<in> set ?f" "p = (row_key x, row_block_number x)"
      and y: "y \<in> set ?f" "q = (row_key y, row_block_number y)"
      unfolding set_map by blast
    have k: "row_key x = row_key y" using x y e by simp
    show "p = q" using k le [OF x(1) y(1) k] le [OF y(1) x(1) k [symmetric]] x(2) y(2) by simp
  qed
  with d have "distinct (map fst (map (\<lambda>r. (row_key r, row_block_number r)) ?f))"
    by (simp only: distinct_map)
  then show ?thesis by (simp add: comp_def)
qed

interpretation mem_select: sql_select mem_sql "\<lambda>t. t"
proof
  fix db0 db :: "row list" and schema st ks n rs
  assume "pk_ok db" and "stmt_query mem_sql db st [Arg_BytesArray ks, Arg_Uint64 n] = Inr rs"
  then show "\<exists>rows. rs = map Inr rows \<and> distinct (map row_key rows) \<and> set rows = {r. newest db ks n r}"
    using newest_distinct [of db ks n] row_newest_newest [of _ db ks n]
    by (intro exI [of _ "filter (row_newest db ks n) db"]) (auto simp: mem_sql_def)
qed

section \<open>The properties\<close>


definition sample_pgtt :: "(row list, string) pgtt_store" where
  "sample_pgtt = \<lparr>pgtt_db = [\<lparr>row_block_number = 3, row_key = [1], row_value = [7]\<rparr>,
       \<lparr>row_block_number = 5, row_key = [1], row_value = [8]\<rparr>],
     pgtt_schemaName = ''public'', pgtt_typeUrl = ''t'', pgtt_insertStatement = Some ''i'', pgtt_selectStatement = None,
     pgtt_selectAnyStatement = Some (pgtt_select_any_text ''public''), pgtt_selectKeyOnlyStatement = None,
     pgtt_selectAllKeyOnlyStatement = None, pgtt_selectFirstStmt = None\<rparr>"

definition sample_pgtt_req :: GetRequest where
  "sample_pgtt_req = \<lparr>GetRequest_BlockNumber = 4, GetRequest_BlockHash = [],
     GetRequest_Keys = [Some \<lparr>Key_Bytes = [1]\<rparr>, Some \<lparr>Key_Bytes = [2]\<rparr>]\<rparr>"


text \<open>Neither Postgres backend can write.  The key of an entry is passed to the driver as the
  pointer to the message, which \<open>database/sql\<close> cannot convert, so that every \<open>SetAll\<close> of entries
  with keys returns an error and leaves the rows as they were.\<close>

theorem postgres_writes_rejected:
  assumes "rejects_messages A table" and "es \<noteq> []" and "\<forall>e\<in>set es. entry_ok e"
  shows "(\<exists>s' e. pg_SetAll A s es ine b = (s', Inl (Error e)) \<and> table (pg_db s') = table (pg_db s)) \<and>
    (\<exists>t' e. pgtt_SetAll A t es ine b = (t', Inl (Error e)) \<and> table (pgtt_db t') = table (pgtt_db t))"
  using insert_all_rejected [OF assms, of "pg_schemaName s" "pg_insertStatement s" ine b "pg_db s"]
    insert_all_rejected [OF assms, of "pgtt_schemaName t" "pgtt_insertStatement t" ine b "pgtt_db t"]
  by (force simp: pg_SetAll_def pgtt_SetAll_def)

lemma mem_rejects: "rejects_messages mem_sql (\<lambda>t. t)"
proof -
  have "\<exists>e. mem_insert t args = (t, Inl e)" if "Arg_Key (Some k) \<in> set args" for t args k
    using that by (cases "(t, args)" rule: mem_insert.cases) auto
  then show ?thesis by (auto simp: rejects_messages_def mem_sql_def)
qed

theorem postgres_writes_rejected_witness:
  "\<exists>t' e. pgtt_SetAll mem_sql sample_pgtt [mk_entry [2] ''t'' [9]] False 6 = (t', Inl (Error e)) \<and>
     pgtt_db t' = pgtt_db sample_pgtt"
  using postgres_writes_rejected [OF mem_rejects, of "[mk_entry [2] ''t'' [9]]" _ False 6 sample_pgtt] by simp

end
