(* ===== verification/Command_Properties.thy ===== *)
theory Command_Properties
  imports Commands Postgres_Properties
begin

text \<open>
  The properties of the commands: how key arguments are decoded, what a started server
  guards and answers, and what \<open>get\<close> prints.  The server reaches its backend through an
  interface value; the contract of a backend carries over to it.
\<close>

section \<open>A backend behind an interface value\<close>

text \<open>\<open>emb\<close> injects the states of a backend into those of the interface.\<close>

definition embeds :: "('v \<Rightarrow> 'w) \<Rightarrow> ('v, 'x) store_ops_scheme \<Rightarrow> ('w, 'y) store_ops_scheme \<Rightarrow> bool" where
  "embeds emb W W' \<longleftrightarrow> inj emb \<and> (\<forall>w. op_Get W' (emb w) = op_Get W w) \<and>
     (\<forall>w es ine b. op_SetAll W' (emb w) es ine b = map_prod emb (\<lambda>r. r) (op_SetAll W w es ine b))"

definition behind :: "('v \<Rightarrow> 'w) \<Rightarrow> ('v \<Rightarrow> 'a) \<Rightarrow> 'w \<Rightarrow> 'a" where
  "behind emb f w = f (inv emb w)"

lemma behind_emb [simp]: "inj emb \<Longrightarrow> behind emb f (emb v) = f v"
  by (simp add: behind_def)

context kv_store
begin

lemma embedded:
  assumes "embeds emb W W'"
  shows "kv_store W' (behind emb vers) (behind emb turl) (\<lambda>w. \<exists>v. w = emb v \<and> ok v) user_key put"
proof
  have inj: "inj emb" using assms by (simp add: embeds_def)
  have set: "\<exists>v'. w' = emb v' \<and> op_SetAll W v es ine b = (v', x)"
    if "op_SetAll W' (emb v) es ine b = (w', x)" for v w' es ine b x
    using that assms by (cases "op_SetAll W v es ine b") (simp add: embeds_def)
  fix w w' es ine b x k
  assume "\<exists>v. w = emb v \<and> ok v"
  then obtain v where w: "w = emb v" and v: "ok v" by blast
  show "GetRequest_Keys req = map Some ks \<Longrightarrow> \<forall>k\<in>set ks. user_key (Key_Bytes k) \<Longrightarrow> op_Get W' w req = Inr r \<Longrightarrow>
      r = read_response (behind emb turl w) (behind emb vers w) (GetRequest_BlockNumber req) ks" for req ks r
    using get_answers [OF v] assms by (simp add: w inj embeds_def)
  assume es: "entries_for user_key es"
  show "op_SetAll W' w es ine b = (w', x) \<Longrightarrow> (\<exists>v. w' = emb v \<and> ok v) \<and> behind emb turl w' = behind emb turl w"
    using set [of v es ine b w' x] set_all_ok [OF v es] by (auto simp: w inj)
  assume k: "user_key k"
  show "op_SetAll W' w es False b = (w', Inr ()) \<Longrightarrow>
      behind emb vers w' k = (case last_write es k of None \<Rightarrow> behind emb vers w k | Some v \<Rightarrow> put (behind emb vers w k) b v)"
    using set [of v es False b w' "Inr ()"] set_all_writes [OF v es _ k]
    by (auto simp: w inj split: option.split)
  show "op_SetAll W' w es ine b = (w', x) \<Longrightarrow> k \<notin> entry_keys es \<Longrightarrow> behind emb vers w' k = behind emb vers w k"
    using set [of v es ine b w' x] set_all_frame [OF v es _ k] by (auto simp: w inj)
  show "op_SetAll W' w es ine b = (w', x) \<Longrightarrow> behind emb vers w' k b' \<noteq> None \<Longrightarrow>
      b' = b \<or> behind emb vers w k b' \<noteq> None" for b'
    using set [of v es ine b w' x] set_all_adds [OF v es _ k, of ine b _ x b'] by (auto simp: w inj)
  show "op_SetAll W' w es True b = (w', x) \<Longrightarrow> behind emb vers w k \<noteq> (\<lambda>_. None) \<Longrightarrow>
      behind emb vers w' k = behind emb vers w k"
    using set [of v es True b w' x] set_all_keeps [OF v es _ k] by (auto simp: w inj)
  show "op_SetAll W' w es True b = (w', Inr ()) \<Longrightarrow> k \<in> entry_keys es \<Longrightarrow> behind emb vers w k = (\<lambda>_. None) \<Longrightarrow>
      \<exists>v. (k, v) \<in> set (map entry_kv es) \<and> behind emb vers w' k = put (\<lambda>_. None) b v"
    using set [of v es True b w' "Inr ()"] set_all_inserts [OF v es _ k] by (auto simp: w inj)
qed (use put_same put_other in blast)+

end

context reliable_kv_store
begin

lemma embedded_reliable:
  assumes "embeds emb W W'"
  shows "reliable_kv_store W' (behind emb vers) (behind emb turl) (\<lambda>w. \<exists>v. w = emb v \<and> ok v) user_key put"
proof (intro reliable_kv_store.intro reliable_kv_store_axioms.intro embedded [OF assms])
  show "\<exists>r. op_Get W' w req = Inr r"
    if "\<exists>v. w = emb v \<and> ok v" "GetRequest_Keys req = map Some ks" "\<forall>k\<in>set ks. user_key (Key_Bytes k)" for w req ks
    using that get_returns assms by (auto simp: embeds_def)
  show "snd (op_SetAll W' w es ine b) = Inr ()"
    if "\<exists>v. w = emb v \<and> ok v" "entries_for user_key es" for w es ine b
    using that set_all_returns assms by (auto simp: embeds_def)
qed

end

lemma base_embeds:
  "embeds Base_Badger (badger_ops B sched) (base_ops B sched P)"
  "embeds Base_BadgerTT (tt_ops B sched) (base_ops B sched P)"
  "embeds Base_Postgres (pg_ops P) (base_ops B sched P)"
  "embeds Base_PostgresTT (pgtt_ops P) (base_ops B sched P)"
  by (simp_all add: embeds_def base_ops_def inj_def)

text \<open>The backends of the server fulfil the contract through the interface value.\<close>

interpretation mem_base: reliable_kv_store "base_ops mem_badger (\<lambda>n. [0..<n]) mem_sql"
  "behind Base_BadgerTT (tt_vers map_of)" "behind Base_BadgerTT tt_typeUrl"
  "\<lambda>w. \<exists>v. w = Base_BadgerTT v \<and> mem_tt_ok v" "\<lambda>k. length k = 1" put_version
  by (rule reliable_kv_store.embedded_reliable [OF mem_tt_contract base_embeds(2)])

section \<open>Key arguments\<close>

text \<open>A hexadecimal digit in the case that \<open>EncodeToString\<close> writes; other characters as they are.\<close>

definition canonical_digit :: "char \<Rightarrow> char" where
  "canonical_digit c = (case from_hex_char c of Some n \<Rightarrow> hex_char n | None \<Rightarrow> c)"

lemma hex_char_digits: "n < 16 \<Longrightarrow> hex_char n \<in> set hexChars"
  by (auto simp: hex_char_def hexChars_def nth_Cons split: nat.splits)

lemma from_hex_char_bound: "from_hex_char c = Some n \<Longrightarrow> n < 16"
  unfolding from_hex_char_def by (drule map_of_SomeD) (auto simp: hexDigits_def dest!: set_zip_rightD)

lemma canonical_digit_eq:
  assumes "n < 16"
  shows "canonical_digit c = hex_char n \<longleftrightarrow> from_hex_char c = Some n"
proof (cases "from_hex_char c")
  case None
  have "c \<noteq> hex_char n" using None from_hex_char_hex_char [OF assms] by auto
  then show ?thesis using None by (simp add: canonical_digit_def)
next
  case (Some m)
  have "m = n" if "hex_char m = hex_char n"
    using from_hex_char_hex_char [OF assms] from_hex_char_hex_char [OF from_hex_char_bound [OF Some]] that by simp
  then show ?thesis using Some by (auto simp: canonical_digit_def)
qed

lemma byte_digits: "unat (of_nat (16 * h + l) :: byte) div 16 = h \<and> unat (of_nat (16 * h + l) :: byte) mod 16 = l"
  if "h < 16" "l < 16"
proof -
  have "unat (of_nat (16 * h + l) :: byte) = 16 * h + l"
    using that unfolding unat_of_nat by simp
  then show ?thesis using that by (simp del: of_nat_add of_nat_mult)
qed

lemma hex_decode_iff: "hex_decode s = Inr bs \<longleftrightarrow> map canonical_digit s = hex_encode bs"
proof (induction s arbitrary: bs rule: hex_decode.induct)
  case 1
  then show ?case by (cases bs) auto
next
  case (2 c)
  then show ?case by (cases bs) (auto split: option.split)
next
  case (3 c d cs)
  show ?case
  proof (cases bs)
    case Nil
    then show ?thesis by (auto split: option.split sum.split)
  next
    case (Cons b bs')
    have b: "unat b < 256" using unsigned_less [of b, where 'a = nat] by simp
    have j: "of_nat (16 * (unat b div 16) + unat b mod 16) = b" unfolding mult_div_mod_eq by simp
    have "(\<exists>h l. from_hex_char c = Some h \<and> from_hex_char d = Some l \<and> of_nat (16 * h + l) = b) \<longleftrightarrow>
        from_hex_char c = Some (unat b div 16) \<and> from_hex_char d = Some (unat b mod 16)"
      using j byte_digits from_hex_char_bound by (metis (no_types))
    moreover have "hex_decode (c # d # cs) = Inr bs \<longleftrightarrow>
        (\<exists>h l. from_hex_char c = Some h \<and> from_hex_char d = Some l \<and> of_nat (16 * h + l) = b) \<and>
        hex_decode cs = Inr bs'"
      using Cons by (auto split: option.splits sum.splits)
    ultimately show ?thesis
      using 3 b Cons by (cases "from_hex_char c"; cases "from_hex_char d") (auto simp: canonical_digit_eq)
  qed
qed

lemma trim_hex_prefix: "trim_prefix (hex_encode k) ''0x'' = hex_encode k"
proof (cases k)
  case (Cons b bs)
  have "CHR ''x'' \<notin> set hexChars" by (simp add: hexChars_def)
  then have "hex_char (unat b mod 16) \<noteq> CHR ''x''" using hex_char_digits [of "unat b mod 16"] by auto
  then show ?thesis using Cons by (simp add: trim_prefix_def)
qed (simp add: trim_prefix_def)

text \<open>C29: keys on the command line.  A hexadecimal argument is decoded to \<open>k\<close> exactly if, without the
  prefix \<open>0x\<close> and up to the case of its digits, it is the hexadecimal encoding of \<open>k\<close>; and
  every key can be given: its encodings, with the prefix, without it, and in base64, are
  decoded to it.\<close>

theorem key_arguments_decode:
  "(decodeBytes base58 s ''hex'' = Inr k \<longleftrightarrow> map canonical_digit (trim_prefix s ''0x'') = hex_encode k) \<and>
   decodeBytes base58 (hex_encode k) ''hex'' = Inr k \<and>
   decodeBytes base58 (''0x'' @ hex_encode k) ''hex'' = Inr k \<and>
   decodeBytes base58 (b64_encode k) ''base64'' = Inr k"
  using trim_hex_prefix [of k]
  by (simp add: decodeBytes_def hex_decode_iff hex_decode_encode [unfolded hex_decode_iff] b64_decode_encode)
    (simp add: trim_prefix_def hex_decode_encode [unfolded hex_decode_iff])

section \<open>What get prints\<close>

text \<open>The printed form of a value, for some type URL.\<close>

definition printed :: "(bytes \<Rightarrow> string) \<Rightarrow> string \<Rightarrow> bytes option \<Rightarrow> get_output list" where
  "printed protoscope t a =
     (case a of
        None \<Rightarrow> [Out_NotFound]
      | Some v \<Rightarrow> [Out_TypeUrl t, Out_Value (protoscope v), Out_ValueSize (length v)])"

lemma print_answer: "print_entry p (Some (answer t V c k)) = printed p t (latest_at (V (Key_Bytes k)) c)"
  by (simp add: print_entry_def answer_def found_def not_found_def printed_def split: option.split)

lemma print_cached:
  assumes "entry_ok e"
  shows "\<exists>t. print_entry p (Some \<lparr>QueriedEntry_Code = RESPONSE_CODE_FOUND, QueriedEntry_Entry = e\<rparr>) =
    printed p t (Some (snd (entry_kv e)))"
  using assms by (cases e) (auto simp: print_entry_def entry_kv_def printed_def)

lemma print_fork_answer:
  assumes "fork_inv U s"
  shows "\<exists>t. print_entry p (Some (fork_answer turl V s c k)) = printed p t (fork_view V s (Key_Bytes k) c)"
proof (cases "map_of (fs_cache s) (Key_Bytes k)")
  case None
  then have "\<exists>t. print_entry p (Some (fork_answer turl V s c k)) = printed p t (latest_at (V (fs_wrapped s) (Key_Bytes k)) c)"
    using print_answer by (auto simp: fork_answer_def overlaid_def)
  then show ?thesis using None by (simp add: fork_view_def cached_at_def)
next
  case (Some ca)
  show ?thesis
  proof (cases "ce_blockNumber ca \<le> c")
    case True
    then show ?thesis
      using Some print_cached [of "ce_entry ca" p] fork_invD [OF assms Some]
      by (simp add: fork_answer_def overlaid_def fork_view_def cached_at_def)
  next
    case False
    then have "\<exists>t. print_entry p (Some (fork_answer turl V s c k)) = printed p t (latest_at (V (fs_wrapped s) (Key_Bytes k)) c)"
      using print_answer Some by (auto simp: fork_answer_def overlaid_def)
    then show ?thesis using Some False by (simp add: fork_view_def cached_at_def)
  qed
qed

lemma print_response_simps [simp]:
  "print_response p n not_reached = [Out_NotReached n]"
  "print_response p n (response [q]) = print_entry p q"
  by (simp_all add: print_response_def not_reached_def response_def)

lemma Store_Get_Handler_runs:
  "Store_Get_Handler (grpc_StoreServer S) ctx (\<lambda>_. Inr (Msg_GetRequest req)) None w =
     (w, bind_res (grpc_Get S w req) (\<lambda>r. Inr (Msg_GetResponse r)))"
  by (simp add: Store_Get_Handler_def unary_handler_def grpc_StoreServer_def answer_msg_def)

lemma GetCmd_RunE_runs:
  assumes "GetString fl ''key'' \<noteq> ''''" and "GetString fl ''server'' \<noteq> ''''"
    and "decodeBytes base58 (GetString fl ''key'') (GetString fl ''encoding'') = Inr k"
    and "dial (GetString fl ''server'') = Inr conn" and "GetString fl ''block-hash'' = ''''"
    and "conn ''/sf.substreams.foundational_store.service.v2.Store/Get'' (Msg_GetRequest (get_request fl k [])) =
      Inr (Msg_GetResponse resp)"
  shows "GetCmd_RunE base58 dial protoscope fl =
    ([Out_Connecting (GetString fl ''server''), Out_Sending (GetString fl ''key''), Out_QueryTime]
     @ print_response protoscope (GetUint64 fl ''block-number'') resp, Inr ())"
  using assms by (simp add: GetCmd_RunE_def storeClient_Get_def Let_def)

text \<open>C13: \<open>get\<close> prints what the chain says.  Connected to a server over a sink whose store
  represents a chain, \<open>get\<close> with a key argument that decodes to \<open>k\<close> and a block at which
  the reads of \<open>k\<close> are exact returns without an error, and prints the latest version of \<open>k\<close> at that block, that
  there is none, or, above the sink's head block, that the block is not reached.\<close>

theorem get_prints_chain:
  assumes "reliable_kv_store W vers turl ok U put" and "represents U vers (sk_store s) A"
    and "ok (fs_wrapped (sk_store s))" and "S = sink_server (fork_ops W cord)"
    and "\<And>req r. Store_Get_Handler (grpc_StoreServer S) ctx (\<lambda>_. Inr (Msg_GetRequest req)) None s = (s, Inr r) \<Longrightarrow>
      conn ''/sf.substreams.foundational_store.service.v2.Store/Get'' (Msg_GetRequest req) = Inr r"
    and "GetString fl ''key'' \<noteq> ''''" and "GetString fl ''server'' \<noteq> ''''"
    and "decodeBytes base58 (GetString fl ''key'') (GetString fl ''encoding'') = Inr k" and "U k"
    and "dial (GetString fl ''server'') = Inr conn" and "GetString fl ''block-hash'' = ''''"
    and "reads_exactly A (GetUint64 fl ''block-number'') k"
  shows "\<exists>t. GetCmd_RunE base58 dial protoscope fl =
    ([Out_Connecting (GetString fl ''server''), Out_Sending (GetString fl ''key''), Out_QueryTime]
     @ (if HeadBlock s < GetUint64 fl ''block-number'' then [Out_NotReached (GetUint64 fl ''block-number'')]
        else printed protoscope t (latest_at (sp_versions A k) (GetUint64 fl ''block-number''))), Inr ())"
proof -
  let ?n = "GetUint64 fl ''block-number''" and ?k = "\<lparr>Key_Bytes = k\<rparr>"
  let ?a = "\<lambda>k. Some (fork_answer turl vers (sk_store s) ?n k)"
  have i: "fork_inv U (sk_store s)" by (rule representsD(1) [OF assms(2)])
  have q: "GetRequest_Keys (get_request fl k []) = map Some [?k]" "GetRequest_BlockNumber (get_request fl k []) = ?n"
    by (simp_all add: get_request_def)
  have u: "\<forall>k'\<in>set [?k]. U (Key_Bytes k')" using assms(9) by simp
  have "grpc_Get S s (get_request fl k []) = Inr (if HeadBlock s < ?n then not_reached else response (map ?a [?k]))"
    using reliable_kv_store.sink_server_response [OF assms(1) i assms(3) q(1) u, of cord] unfolding q(2) assms(4) .
  then have "conn ''/sf.substreams.foundational_store.service.v2.Store/Get'' (Msg_GetRequest (get_request fl k [])) =
      Inr (Msg_GetResponse (if HeadBlock s < ?n then not_reached else response (map ?a [?k])))"
    by (intro assms(5)) (simp add: Store_Get_Handler_runs)
  note r = GetCmd_RunE_runs [where dial = dial and conn = conn and protoscope = protoscope, OF assms(6-8,10,11) this]
  obtain t where "print_entry protoscope (?a ?k) = printed protoscope t (latest_at (sp_versions A k) ?n)"
    using print_fork_answer [OF i, of protoscope turl vers ?n ?k] represents_view [OF assms(2,9,12)] by auto
  then show ?thesis using r by (auto)
qed

theorem get_prints_chain_witness:
  "let s = (mem_sink sample_fork [])\<lparr>sk_headBlock := 9\<rparr>; S = (sink_server mem_fork_ops :: (_, unit) GrpcServer);
     conn = (\<lambda>m req. case snd (Store_Get_Handler (grpc_StoreServer S) () (\<lambda>_. Inr req) None s) of
       Inr r \<Rightarrow> Inr r | Inl f \<Rightarrow> Inl (Err ''rpc''));
     fl = with_defaults get_flag_defaults [''key'' \<mapsto> Flag_String ''0x01'', ''block-number'' \<mapsto> Flag_Uint64 6]
   in \<exists>t. GetCmd_RunE (\<lambda>_. Inl (Err ''base58'')) (\<lambda>_. Inr conn) (map (char_of \<circ> unat)) fl =
     ([Out_Connecting ''localhost:50051'', Out_Sending ''0x01'', Out_QueryTime, Out_TypeUrl t,
       Out_Value [char_of (7::nat)], Out_ValueSize 1], Inr ())"
proof -
  let ?s = "(mem_sink sample_fork [])\<lparr>sk_headBlock := 9\<rparr>" and ?S = "sink_server mem_fork_ops :: (_, unit) GrpcServer"
  let ?conn = "\<lambda>m req. case snd (Store_Get_Handler (grpc_StoreServer ?S) () (\<lambda>_. Inr req) None ?s) of
       Inr r \<Rightarrow> Inr r | Inl f \<Rightarrow> Inl (Err ''rpc'')"
  let ?fl = "with_defaults get_flag_defaults [''key'' \<mapsto> Flag_String ''0x01'', ''block-number'' \<mapsto> Flag_Uint64 6]"
  let ?A = "\<lparr>sp_versions = (\<lambda>k. if k = [1] then [5 \<mapsto> [7]] else (\<lambda>_. None)), sp_final = 2, sp_exact = (\<lambda>_. 0)\<rparr>"
  let ?b58 = "\<lambda>_. Inl (Err ''base58'')"
  have fl: "GetString ?fl ''key'' = ''0x01''" "GetString ?fl ''server'' = ''localhost:50051''"
    "GetString ?fl ''encoding'' = ''hex''" "GetString ?fl ''block-hash'' = ''''" "GetUint64 ?fl ''block-number'' = 6"
    by (simp_all add: GetString_def GetUint64_def with_defaults_def get_flag_defaults_def)
  have k: "decodeBytes ?b58 ''0x01'' ''hex'' = Inr [1]"
    by (simp add: decodeBytes_def trim_prefix_def from_hex_char_def hexDigits_def hexChars_def upt_conv_Cons)
  have r: "represents (\<lambda>k. length k = 1) (tt_vers map_of) (sk_store ?s) ?A"
    by (rule representsI) (auto simp: sample_fork_inv [simplified] split: if_splits)
  have e: "reads_exactly ?A 6 [1]" by (simp add: reads_exactly_def)
  have l: "latest_at (sp_versions ?A [1]) 6 = Some [7]" by simp
  have "\<exists>t. GetCmd_RunE ?b58 (\<lambda>_. Inr ?conn) (map (char_of \<circ> unat)) ?fl =
    ([Out_Connecting (GetString ?fl ''server''), Out_Sending (GetString ?fl ''key''), Out_QueryTime]
     @ (if HeadBlock ?s < GetUint64 ?fl ''block-number'' then [Out_NotReached (GetUint64 ?fl ''block-number'')]
        else printed (map (char_of \<circ> unat)) t (latest_at (sp_versions ?A [1]) (GetUint64 ?fl ''block-number''))), Inr ())"
    by (rule get_prints_chain [OF mem_tt_contract r, where S = ?S and k = "[1]" and ctx = "()" and conn = ?conn])
      (use mem_tt_store_ok e in \<open>simp_all add: fl k\<close>)
  then show ?thesis
    unfolding Let_def fl l by (simp add: HeadBlock_def printed_def)
qed

section \<open>What a started server is\<close>

lemma command_listen_Inr:
  assumes "command_listen A factory dauth_new fl S = Inr (S', ls)"
  obtains auth iauth iaddr where "loadAuthConfig dauth_new fl = Inr auth"
    and "loadInternalAuthConfig dauth_new fl = Inr (iauth, iaddr)"
    and "gs_store S' = gs_store S" and "gs_headBlockFetcher S' = gs_headBlockFetcher S"
    and "gs_readyFunc S' = gs_readyFunc S"
    and "ls = (if iaddr \<noteq> '''' then
        [(iaddr, factory (authUnaryInterceptors A iauth) (authStreamInterceptors A iauth) (registrations S))] else [])
      @ [(GetString fl ''addr'', factory (authUnaryInterceptors A auth) (authStreamInterceptors A auth) (registrations S))]"
proof -
  have reg: "registrations (S\<lparr>gs_dgrpcServers := ds\<rparr>) = registrations S" for ds
  proof -
    have "grpc_Get (S\<lparr>gs_dgrpcServers := ds\<rparr>) = grpc_Get S" "grpc_GetFirst (S\<lparr>gs_dgrpcServers := ds\<rparr>) = grpc_GetFirst S"
      by (simp_all add: fun_eq_iff grpc_Get_def grpc_GetFirst_def grpc_checkReady_def cong: if_cong)
    then show ?thesis by (simp add: registrations_def grpc_StoreServer_def)
  qed
  obtain auth iauth iaddr where l: "loadAuthConfig dauth_new fl = Inr auth"
      "loadInternalAuthConfig dauth_new fl = Inr (iauth, iaddr)"
    and r: "(if iaddr \<noteq> '''' then grpc_RunWithInternal A factory S (GetString fl ''addr'') auth iaddr iauth
        else grpc_Run A factory S (GetString fl ''addr'') auth) = (S', ls)"
    using assms by (auto simp: command_listen_def res_simps split: if_splits)
  show ?thesis
    using r by (intro that [OF l]) (auto simp: grpc_RunWithInternal_def grpc_Run_def grpc_newServer_def reg Let_def split: if_splits)
qed

lemma server_sink_store:
  "server_sink C E fl st cursor = Inr (Process_Sinker s, pings, started) \<Longrightarrow> sk_store s = st"
  by (auto simp: server_sink_def NewSinker_def res_simps split: if_splits sum.splits)

lemma serverCmdE_Inr:
  assumes "serverCmdE C B sched P cord A factory E fl = (acts, Inr (proc, S))"
  obtains dsn turl base ls where "command_dsn E fl = Inr (dsn, turl)"
    and "open_base_store B P (env_mkdir E) (env_open_db E) dsn turl (GetInt fl ''workers'')
      (GetBool fl ''no-time-traversal'') = Inr base"
    and "\<And>s. proc = Process_Sinker s \<Longrightarrow> sk_store s = fork_NewStore base"
    and "command_listen A factory (env_dauth_new E) fl
      (NewStoreServer (process_ops (fork_ops (base_ops B sched P) cord)) process_headBlock) = Inr (S, ls)"
    and "Listeners_Started ls \<in> set acts"
proof -
  show thesis
    using assms unfolding serverCmdE_def Let_def
    by (auto split: sum.splits prod.splits if_splits dest: server_sink_store intro: that)
qed

text \<open>The server of a sink process answers as the server over its sink.\<close>

lemma process_server_Get:
  assumes "gs_store S = process_ops F" and "gs_headBlockFetcher S = process_headBlock" and "gs_readyFunc S = None"
  shows "grpc_Get (S :: (_, 'd) GrpcServer) (Process_Sinker s) req = grpc_Get (sink_server F :: (_, 'd) GrpcServer) s req"
  using assms by (simp add: grpc_Get_def grpc_checkReady_def sink_server_def NewStoreServer_def process_ops_def
    process_headBlock_def)

lemma command_dsn_Inr:
  "command_dsn E fl = Inr (dsn, turl) \<longleftrightarrow> GetString fl ''dsn'' \<noteq> '''' \<and> GetString fl ''type-url'' \<noteq> '''' \<and>
     ParseDSN (env_expand E) (env_url_parse E) (env_option_order E) (GetString fl ''dsn'') = Inr dsn \<and>
     turl = with_type_prefix (GetString fl ''type-url'')"
  by (auto simp: command_dsn_def res_simps)

lemma open_badger_tt:
  assumes "open_base_store B P mkdir open_db dsn turl n False = Inr base" and "DSN_Driver dsn = ''badger''"
  obtains db where "open_db (dsn_Database dsn) = Inr db"
    and "base = Base_BadgerTT \<lparr>tt_db = db, tt_typeUrl = turl, tt_numWorkers = n\<rparr>"
  using assms by (auto simp: open_base_store_def tt_NewStore_def res_simps split: sum.splits)


text \<open>C11: what a started server lets in.  With an authentication plugin the command starts only if
  an organization is given, and then every method registered on the public address runs for
  members of that organization only; besides this address a server listens on the internal
  one, if there is one, and on no other.\<close>

theorem started_server_is_guarded:
  assumes "serverCmdE C B sched P cord A factory E fl = (acts, Inr (proc, S :: (_, 'd) GrpcServer))"
    and "TrimSpace (GetString fl ''common-auth-plugin'') \<noteq> ''''"
    and "\<And>a. env_dauth_new E (TrimSpace (GetString fl ''common-auth-plugin'')) = Inr a \<Longrightarrow>
      checker_ok (unary_checker A a) login"
    and "chains chain"
  shows "\<exists>ls ui si sds. Listeners_Started ls \<in> set acts \<and> (GetString fl ''addr'', factory ui si sds) \<in> set ls \<and>
    set (map fst ls) = {GetString fl ''addr''} \<union> ({TrimSpace (GetString fl ''internal-addr'')} - {''''}) \<and>
    TrimSpace (GetString fl ''organization-id'') \<noteq> '''' \<and> sds \<noteq> [] \<and>
    (\<forall>sd\<in>set sds. \<forall>(name, h)\<in>set (sd_Methods sd). \<forall>ctx dec w.
       if authorized A login (TrimSpace (GetString fl ''organization-id'')) ctx
       then \<exists>ctx'. login ctx = Some ctx' \<and> h ctx dec (chain ui) w = h ctx' dec None w
       else \<exists>e. h ctx dec (chain ui) w = (w, Inl (Error e)))"
proof -
  let ?org = "TrimSpace (GetString fl ''organization-id'')"
  obtain ls where l: "command_listen A factory (env_dauth_new E) fl
      (NewStoreServer (process_ops (fork_ops (base_ops B sched P) cord)) process_headBlock) = Inr (S, ls)"
    and a: "Listeners_Started ls \<in> set acts"
    by (rule serverCmdE_Inr [OF assms(1)]) simp
  let ?S = "NewStoreServer (process_ops (fork_ops (base_ops B sched P) cord)) process_headBlock ::
    (_, 'd) GrpcServer"
  obtain auth iauth iaddr where auth: "loadAuthConfig (env_dauth_new E) fl = Inr auth"
    and iauth: "loadInternalAuthConfig (env_dauth_new E) fl = Inr (iauth, iaddr)"
    and ls: "ls = (if iaddr \<noteq> '''' then
        [(iaddr, factory (authUnaryInterceptors A iauth) (authStreamInterceptors A iauth) (registrations ?S))] else [])
      @ [(GetString fl ''addr'', factory (authUnaryInterceptors A auth) (authStreamInterceptors A auth) (registrations ?S))]"
    by (rule command_listen_Inr [OF l])
  obtain au where au: "env_dauth_new E (TrimSpace (GetString fl ''common-auth-plugin'')) = Inr au"
    and cfg: "AuthConfig_Authenticator auth = Some au" "AuthConfig_OrganizationID auth = ?org" "?org \<noteq> ''''"
    using auth assms(2) by (auto simp: loadAuthConfig_def Let_def split: if_splits sum.splits)
  have i: "iaddr = TrimSpace (GetString fl ''internal-addr'')"
    using iauth by (auto simp: loadInternalAuthConfig_def Let_def split: if_splits sum.splits)
  have g: "\<forall>sd\<in>set (registrations ?S). \<forall>(name, h)\<in>set (sd_Methods sd). \<forall>ctx dec w.
       if authorized A login ?org ctx
       then \<exists>ctx'. login ctx = Some ctx' \<and> h ctx dec (chain (authUnaryInterceptors A auth)) w = h ctx' dec None w
       else \<exists>e. h ctx dec (chain (authUnaryInterceptors A auth)) w = (w, Inl (Error e))"
    using guarded_method [OF cfg(1) _ assms(3) [OF au] assms(4)] cfg(2,3) by fastforce
  show ?thesis
    by (rule exI [of _ ls], rule exI [of _ "authUnaryInterceptors A auth"],
        rule exI [of _ "authStreamInterceptors A auth"], rule exI [of _ "registrations ?S"])
      (use a g cfg(3) in \<open>auto simp: ls i registrations_def\<close>)
qed

section \<open>A server for the witnesses\<close>

definition demo_url :: URL where
  "demo_url = \<lparr>url_Scheme = ''badger'', url_Host = '''', url_User = None, url_EscapedPath = ''/data'', url_Query = []\<rparr>"

definition demo_env :: "(mem_db, mem_cursor list, unit, unit, unit) command_env" where
  "demo_env =
     \<lparr>env_expand = Inr, env_url_parse = (\<lambda>_. Inr demo_url), env_option_order = (\<lambda>ks. ks),
      env_mkdir = (\<lambda>_. Inr ()), env_open_db = (\<lambda>_. Inr []), env_read_file = (\<lambda>_. Inl (Err ''no file'')),
      env_getwd = Inr ''/'', env_join = (\<lambda>a b. a @ b), env_files = [], env_new_sink = (\<lambda>_ _. Inr ()),
      env_module_hash = (\<lambda>_. ''h''), env_network = (\<lambda>_. ''n''), env_dial = (\<lambda>_. Inr ()),
      env_ping = (\<lambda>_ _. Inr None), env_dauth_new = (\<lambda>_. Inr ())\<rparr>"

definition demo_flags :: flags where
  "demo_flags = with_defaults server_flag_defaults [''dsn'' \<mapsto> Flag_String ''badger:///data'',
     ''type-url'' \<mapsto> Flag_String ''t.E'', ''manifest-path'' \<mapsto> Flag_String ''m.spkg'',
     ''common-auth-plugin'' \<mapsto> Flag_String ''secret://'', ''organization-id'' \<mapsto> Flag_String ''acme'']"

definition demo_dsn :: DSN where
  "demo_dsn = \<lparr>dsn_driver = ''badger'', dsn_original = ''badger:///data'', dsn_Host = '''', dsn_Port = 5432,
     dsn_Username = '''', dsn_Password = '''', dsn_Database = ''/data'', dsn_schema = ''public'', dsn_Options = []\<rparr>"

definition demo_tt_store :: "mem_db tt_store" where
  "demo_tt_store = \<lparr>tt_db = [], tt_typeUrl = ''type.googleapis.com/t.E'', tt_numWorkers = 10\<rparr>"

type_synonym demo_process =
  "((mem_db, row list, string) base_store fork_store, mem_cursor, mem_cursor list) process"

definition demo_sinker :: "((mem_db, row list, string) base_store fork_store, mem_cursor, mem_cursor list) sinker" where
  "demo_sinker = \<lparr>sk_store = fork_NewStore (Base_BadgerTT demo_tt_store), sk_cursorFilePath = ''state.cursor'',
     sk_cursorHistory = [], sk_headBlock = 0, sk_files = []\<rparr>"

abbreviation demo_base_ops :: "(mem_db, row list, string) base_store store_ops" where
  "demo_base_ops \<equiv> base_ops mem_badger (\<lambda>n. [0..<n]) mem_sql"

text \<open>A server is its interceptors and its services.\<close>

type_synonym demo_listener =
  "(string, demo_process) unary_interceptor list \<times> (string, demo_process) ServiceDesc list"

definition demo_factory :: "(string, demo_process) unary_interceptor list \<Rightarrow> (string, demo_process) stream_interceptor list \<Rightarrow>
    (string, demo_process) ServiceDesc list \<Rightarrow> demo_listener" where
  "demo_factory ui si sds = (ui, sds)"

lemma demo_flags_simps [simp]:
  "GetString demo_flags ''dsn'' = ''badger:///data''" "GetString demo_flags ''type-url'' = ''t.E''"
  "GetString demo_flags ''manifest-path'' = ''m.spkg''" "GetString demo_flags ''common-auth-plugin'' = ''secret://''"
  "GetString demo_flags ''organization-id'' = ''acme''" "GetString demo_flags ''addr'' = '':50051''"
  "GetString demo_flags ''internal-addr'' = ''''" "GetString demo_flags ''store-manager-address'' = ''''"
  "GetString demo_flags ''cursor-file-path'' = ''state.cursor''" "\<not> GetBool demo_flags ''no-time-traversal''"
  "GetInt demo_flags ''workers'' = 10" "GetDuration demo_flags ''startup-delay'' = 0"
  by (simp_all add: demo_flags_def with_defaults_def server_flag_defaults_def auth_flag_defaults_def
    GetString_def GetInt_def GetBool_def GetDuration_def)

lemma demo_parse: "ParseDSN (env_expand demo_env) (env_url_parse demo_env) (env_option_order demo_env) ''badger:///data'' =
    Inr demo_dsn"
  by (simp add: demo_env_def ParseDSN_def demo_url_def driverMap_def Let_def demo_dsn_def url_Hostname_def
    splitHostPort_def split_last_colon_def strip_brackets_def url_Username_def url_Password_def)

lemma demo_TrimSpace [simp]:
  "TrimSpace ''secret://'' = ''secret://''" "TrimSpace ''acme'' = ''acme''" "TrimSpace '''' = ''''"
  by (simp_all add: TrimSpace_def is_space_def)

lemma demo_started:
  "\<exists>acts S. serverCmdE mem_cursors mem_badger (\<lambda>n. [0..<n]) mem_sql rev demo_auth demo_factory demo_env demo_flags =
     (acts, Inr (Process_Sinker demo_sinker, S))"
proof -
  have c: "command_dsn demo_env demo_flags = Inr (demo_dsn, ''type.googleapis.com/t.E'')"
    by (simp add: command_dsn_Inr demo_parse with_type_prefix_def has_prefix_def)
  have o: "open_base_store mem_badger mem_sql (env_mkdir demo_env) (env_open_db demo_env) demo_dsn
      ''type.googleapis.com/t.E'' 10 False = Inr (Base_BadgerTT demo_tt_store)"
    by (simp add: open_base_store_def DSN_Driver_def demo_dsn_def tt_NewStore_def demo_env_def demo_tt_store_def)
  have r: "LoadCursorFromFile mem_cursors (env_read_file demo_env) (env_getwd demo_env) (env_join demo_env) ''state.cursor'' = None"
    by (simp add: LoadCursorFromFile_def demo_env_def)
  have k: "server_sink mem_cursors demo_env demo_flags (fork_NewStore (Base_BadgerTT demo_tt_store)) None =
      Inr (Process_Sinker demo_sinker, (\<lambda>_. []), [Sink_Started () None])"
    by (simp add: server_sink_def server_pings_def NewSinker_def demo_sinker_def demo_env_def)
  obtain S ls where l: "command_listen demo_auth demo_factory (env_dauth_new demo_env) demo_flags
      (NewStoreServer (process_ops (fork_ops demo_base_ops rev)) process_headBlock) = Inr (S, ls)"
    by atomize_elim (simp add: command_listen_def loadAuthConfig_def loadInternalAuthConfig_def demo_env_def split: prod.split)
  show ?thesis by (simp add: serverCmdE_def c o r k l Let_def)
qed


theorem started_server_is_guarded_witness:
  "\<exists>acts S ls. serverCmdE mem_cursors mem_badger (\<lambda>n. [0..<n]) mem_sql rev demo_auth demo_factory demo_env demo_flags =
      (acts, Inr (Process_Sinker demo_sinker, S)) \<and>
    Listeners_Started ls \<in> set acts \<and> set (map fst ls) = {'':50051''}"
proof -
  obtain acts S where S: "serverCmdE mem_cursors mem_badger (\<lambda>n. [0..<n]) mem_sql rev demo_auth demo_factory demo_env demo_flags =
      (acts, Inr (Process_Sinker demo_sinker, S))"
    using demo_started by blast
  have c: "checker_ok (unary_checker demo_auth a) demo_login" for a
    using demo_checker_ok by (cases a) simp
  show ?thesis
    using started_server_is_guarded [OF S _ c demo_chains] S by auto
qed

end
