(* ===== verification/Program.thy ===== *)
theory Program
  imports Command_Properties
begin

text \<open>
  The program (\<open>cmd/foundational-store/main.go\<close> and the \<open>init\<close> functions of the package):
  the commands with the flags they declare, the initialisation of viper, and \<open>main\<close>.
  Cobra, pflag and viper are other packages: what the \<open>init\<close> functions declare is data
  (\<open>cobra_command\<close>), viper is a record of operations on its own state, and \<open>Execute\<close> of
  cobra is an argument of which \<open>cobra_ok\<close> says what cobra documents.
\<close>

section \<open>The commands\<close>

text \<open>
  What is declared of a command: its flags with their defaults, the flags marked as
  required, and the keys of viper that are bound to its flags.
\<close>

record cobra_command =
  cmd_Use :: string
  cmd_Flags :: "(string \<times> flag_value) list"
  cmd_Required :: "string list"
  cmd_Bindings :: "(string \<times> string) list"

definition GetCmd :: cobra_command where
  "GetCmd = \<lparr>cmd_Use = ''get'', cmd_Flags = get_flag_defaults, cmd_Required = [''key''],
     cmd_Bindings =
       [(''get.server'', ''server''), (''get.key'', ''key''), (''get.block_number'', ''block-number''),
        (''get.block_hash'', ''block-hash''), (''get.encoding'', ''encoding'')]\<rparr>"

definition RemoteFeedCmd :: cobra_command where
  "RemoteFeedCmd = \<lparr>cmd_Use = ''remote-feed'', cmd_Flags = remote_feed_flag_defaults,
     cmd_Required = [''dsn'', ''type-url''],
     cmd_Bindings =
       [(''remote_feed.addr'', ''addr''), (''remote_feed.dsn'', ''dsn''), (''remote_feed.type_url'', ''type-url''),
        (''remote_feed.workers'', ''workers'')]\<rparr>"

text \<open>\<open>sink_flags\<close> are the flags that \<open>AddFlagsToSet\<close> of the Substreams sink declares.\<close>

definition ServerCmd :: "(string \<times> flag_value) list \<Rightarrow> cobra_command" where
  "ServerCmd sink_flags = \<lparr>cmd_Use = ''server'', cmd_Flags = sink_flags @ server_flag_defaults,
     cmd_Required = [''dsn'', ''type-url''],
     cmd_Bindings =
       [(''server.addr'', ''addr''), (''server.dsn'', ''dsn''), (''server.type_url'', ''type-url''),
        (''server.workers'', ''workers''), (''substreams.manifest_path'', ''manifest-path''),
        (''substreams.output_module_name'', ''output-module-name''),
        (''server.cursor_file_path'', ''cursor-file-path''), (''endpoint'', ''endpoint''),
        (''start-block'', ''start-block''), (''stop-block'', ''stop-block''),
        (''development-mode'', ''development-mode''), (''plaintext'', ''plaintext'')]\<rparr>"

record root_command =
  root_Use :: string
  root_PersistentFlags :: "(string \<times> flag_value) list"
  root_Commands :: "cobra_command list"

definition rootCmd :: "(string \<times> flag_value) list \<Rightarrow> root_command" where
  "rootCmd sink_flags = \<lparr>root_Use = ''foundational-foundational-store'',
     root_PersistentFlags = [(''config'', Flag_String '''')],
     root_Commands = [GetCmd, ServerCmd sink_flags, RemoteFeedCmd]\<rparr>"

text \<open>\<open>Flags().Lookup\<close>: the flag of the command with this name, \<open>None\<close> (nil) when it has none.\<close>

definition Lookup_flag :: "cobra_command \<Rightarrow> string \<Rightarrow> (string \<times> string) option" where
  "Lookup_flag c name = (if name \<in> fst ` set (cmd_Flags c) then Some (cmd_Use c, name) else None)"

section \<open>Viper\<close>

text \<open>
  The calls of viper, on its state \<open>'v\<close>.  The errors of \<open>BindPFlag\<close>, which is given a
  flag or nil, are dropped by the code.
\<close>

record 'v viper_api =
  vi_BindPFlag :: "string \<Rightarrow> (string \<times> string) option \<Rightarrow> 'v \<Rightarrow> 'v"
  vi_SetConfigFile :: "string \<Rightarrow> 'v \<Rightarrow> 'v"
  vi_AddConfigPath :: "string \<Rightarrow> 'v \<Rightarrow> 'v"
  vi_SetConfigName :: "string \<Rightarrow> 'v \<Rightarrow> 'v"
  vi_SetEnvPrefix :: "string \<Rightarrow> 'v \<Rightarrow> 'v"
  vi_SetEnvKeyReplacer :: "(string \<times> string) list \<Rightarrow> 'v \<Rightarrow> 'v"
  vi_AutomaticEnv :: "'v \<Rightarrow> 'v"
  vi_ReadInConfig :: "'v \<Rightarrow> 'v \<times> error option"
  vi_ConfigFileUsed :: "'v \<Rightarrow> string"

definition bind_flags :: "'v viper_api \<Rightarrow> cobra_command \<Rightarrow> 'v \<Rightarrow> 'v" where
  "bind_flags V c = fold (\<lambda>(key, name). vi_BindPFlag V key (Lookup_flag c name)) (cmd_Bindings c)"

text \<open>The \<open>init\<close> functions run in the order of the files.\<close>

definition package_init :: "'v viper_api \<Rightarrow> (string \<times> flag_value) list \<Rightarrow> 'v \<Rightarrow> 'v" where
  "package_init V sink_flags v =
     bind_flags V (ServerCmd sink_flags) (bind_flags V RemoteFeedCmd (bind_flags V GetCmd v))"

text \<open>What the program prints and starts.\<close>

datatype ('sa, 'ra) main_event =
    Ev_Error error
  | Ev_Config_File string
  | Ev_Get get_output
  | Ev_Server 'sa
  | Ev_Remote_Feed 'ra

definition read_config :: "'v viper_api \<Rightarrow> 'v \<times> ('sa, 'ra) main_event list \<Rightarrow> 'v \<times> ('sa, 'ra) main_event list" where
  "read_config V st =
     (let (v, evs) = st;
          v1 = vi_AutomaticEnv V (vi_SetEnvKeyReplacer V [(''.'', ''_'')] (vi_SetEnvPrefix V ''FOUNDATIONAL_STORE'' v))
      in case vi_ReadInConfig V v1 of
           (v2, None) \<Rightarrow> (v2, evs @ [Ev_Config_File (vi_ConfigFileUsed V v2)])
         | (v2, Some err) \<Rightarrow> (v2, evs))"

text \<open>\<open>home\<close> is what \<open>os.UserHomeDir\<close> returns; the second component is the status of an \<open>os.Exit\<close>.\<close>

definition initConfig :: "'v viper_api \<Rightarrow> (error + string) \<Rightarrow> string \<Rightarrow> 'v \<times> ('sa, 'ra) main_event list \<Rightarrow>
    ('v \<times> ('sa, 'ra) main_event list) \<times> nat option" where
  "initConfig V home cfgFile st =
     (let (v, evs) = st in
      if cfgFile \<noteq> '''' then (read_config V (vi_SetConfigFile V cfgFile v, evs), None)
      else case home of
             Inl err \<Rightarrow> ((v, evs @ [Ev_Error err]), Some 1)
           | Inr dir \<Rightarrow>
               (read_config V (vi_SetConfigName V ''.foundational-foundational-store'' (vi_AddConfigPath V dir v), evs), None))"

section \<open>Running a command\<close>

text \<open>
  \<open>RunE\<close> of the commands, by name: what each prints or starts, and how it ends
  (\<open>app_err\<close> is what \<open>WaitForTermination\<close> returns).
\<close>

definition program_run :: "(flags \<Rightarrow> get_output list \<times> unit res) \<Rightarrow> (flags \<Rightarrow> 'sa list \<times> 'sr res) \<Rightarrow>
    (flags \<Rightarrow> 'ra list \<times> 'rr res) \<Rightarrow> error option \<Rightarrow> cobra_command \<Rightarrow> flags \<Rightarrow>
    'v \<times> ('sa, 'ra) main_event list \<Rightarrow> ('v \<times> ('sa, 'ra) main_event list) \<times> command_end" where
  "program_run get server remote_feed app_err c fl st =
     (let (v, evs) = st in
      if cmd_Use c = ''get''
      then (case get fl of (out, r) \<Rightarrow> ((v, evs @ map Ev_Get out), Command_Returned r))
      else if cmd_Use c = ''server''
      then (case server fl of (acts, r) \<Rightarrow> ((v, evs @ map Ev_Server acts), command_finish app_err r))
      else (case remote_feed fl of (acts, r) \<Rightarrow> ((v, evs @ map Ev_Remote_Feed acts), command_finish app_err r)))"

text \<open>
  \<open>main\<close>: \<open>Execute\<close> gets the commands, the function registered with \<open>OnInitialize\<close> (it
  reads \<open>cfgFile\<close>, where the flag \<open>config\<close> is parsed to), \<open>RunE\<close> and the arguments.
\<close>

type_synonym ('st, 'e) cobra_execute =
  "root_command \<Rightarrow> (string \<Rightarrow> 'st \<Rightarrow> 'st \<times> nat option) \<Rightarrow> (cobra_command \<Rightarrow> flags \<Rightarrow> 'st \<Rightarrow> 'st \<times> 'e) \<Rightarrow>
   string list \<Rightarrow> 'st \<Rightarrow> 'st \<times> 'e"

definition program_main :: "('v \<times> ('sa, 'ra) main_event list, command_end) cobra_execute \<Rightarrow> 'v viper_api \<Rightarrow>
    (error + string) \<Rightarrow> (string \<times> flag_value) list \<Rightarrow>
    (cobra_command \<Rightarrow> flags \<Rightarrow> 'v \<times> ('sa, 'ra) main_event list \<Rightarrow> ('v \<times> ('sa, 'ra) main_event list) \<times> command_end) \<Rightarrow>
    string list \<Rightarrow> 'v \<Rightarrow> ('sa, 'ra) main_event list \<times> nat option" where
  "program_main Execute V home sink_flags run args v =
     (case Execute (rootCmd sink_flags) (initConfig V home) run args (package_init V sink_flags v, []) of
        ((_, evs), r) \<Rightarrow>
          (evs @ (case r of Command_Returned (Inl (Error err)) \<Rightarrow> [Ev_Error err] | _ \<Rightarrow> []), command_main r))"

text \<open>
  What cobra documents of \<open>Execute\<close>, for a parser of the arguments.  Arguments that do not
  parse are an error before anything of the program runs.  For a command of the program,
  with the value of \<open>config\<close> and the flags that are given, the initialiser runs, then the
  required flags are checked, then the command runs on the given flags and the defaults of
  the others.  Nothing is said of the commands that cobra adds (help, completion).
\<close>

datatype cobra_parse =
    Parse_Error error
  | Parse_Command cobra_command string flags
  | Parse_Help

definition missing_flags :: "cobra_command \<Rightarrow> flags \<Rightarrow> string list" where
  "missing_flags c given = filter (\<lambda>name. given name = None) (cmd_Required c)"

definition cobra_ok :: "('st, command_end) cobra_execute \<Rightarrow> (root_command \<Rightarrow> string list \<Rightarrow> cobra_parse) \<Rightarrow> bool" where
  "cobra_ok Execute parse \<longleftrightarrow>
     (\<forall>root init run args st.
        case parse root args of
          Parse_Error err \<Rightarrow> Execute root init run args st = (st, Command_Returned (Inl (Error err)))
        | Parse_Command c cfg given \<Rightarrow> c \<in> set (root_Commands root) \<and>
            (case init cfg st of
               (st1, Some n) \<Rightarrow> Execute root init run args st = (st1, Process_Exit n)
             | (st1, None) \<Rightarrow>
                 if missing_flags c given \<noteq> []
                 then \<exists>err. Execute root init run args st = (st1, Command_Returned (Inl (Error err)))
                 else Execute root init run args st = run c (with_defaults (cmd_Flags c) given) st1)
        | Parse_Help \<Rightarrow> True)"

section \<open>The flags that are read\<close>

text \<open>
  The flags that a command reads, with the type of the getter.  pflag returns the zero
  value and an error, which the commands drop, for a flag that is not declared with this
  type.
\<close>

datatype flag_type = Type_string | Type_int | Type_uint64 | Type_bool | Type_duration

fun type_of_flag :: "flag_value \<Rightarrow> flag_type" where
  "type_of_flag (Flag_String s) = Type_string"
| "type_of_flag (Flag_Int i) = Type_int"
| "type_of_flag (Flag_Uint64 n) = Type_uint64"
| "type_of_flag (Flag_Bool b) = Type_bool"
| "type_of_flag (Flag_Duration d) = Type_duration"

definition get_reads :: "(string \<times> flag_type) list" where
  "get_reads = [(''key'', Type_string), (''server'', Type_string), (''block-number'', Type_uint64),
     (''encoding'', Type_string), (''block-hash'', Type_string)]"

definition auth_reads :: "(string \<times> flag_type) list" where
  "auth_reads = [(''common-auth-plugin'', Type_string), (''organization-id'', Type_string),
     (''internal-addr'', Type_string), (''internal-auth-plugin'', Type_string)]"

definition remote_feed_reads :: "(string \<times> flag_type) list" where
  "remote_feed_reads = [(''dsn'', Type_string), (''type-url'', Type_string), (''addr'', Type_string),
     (''workers'', Type_int), (''startup-delay'', Type_duration)] @ auth_reads"

definition server_reads :: "(string \<times> flag_type) list" where
  "server_reads = [(''dsn'', Type_string), (''type-url'', Type_string), (''addr'', Type_string),
     (''workers'', Type_int), (''manifest-path'', Type_string), (''output-module-name'', Type_string),
     (''cursor-file-path'', Type_string), (''no-time-traversal'', Type_bool),
     (''store-manager-address'', Type_string), (''startup-delay'', Type_duration)] @ auth_reads"

text \<open>What pflag accepts: values for declared flags only, parsed to the declared type.\<close>

definition parsed_for :: "(string \<times> flag_value) list \<Rightarrow> flags \<Rightarrow> bool" where
  "parsed_for defs given \<longleftrightarrow>
     (\<forall>name v. given name = Some v \<longrightarrow>
        (\<exists>d. map_of defs name = Some d \<and> type_of_flag v = type_of_flag d))"

definition agree_on :: "(string \<times> flag_type) list \<Rightarrow> flags \<Rightarrow> flags \<Rightarrow> bool" where
  "agree_on reads fl fl' \<longleftrightarrow> (\<forall>(name, ty)\<in>set reads. fl name = fl' name)"

lemma agree_on_append [simp]: "agree_on (xs @ ys) fl fl' \<longleftrightarrow> agree_on xs fl fl' \<and> agree_on ys fl fl'"
  by (auto simp: agree_on_def)

lemma agree_on_Cons [simp]: "agree_on ((name, ty) # xs) fl fl' \<longleftrightarrow> fl name = fl' name \<and> agree_on xs fl fl'"
  by (simp add: agree_on_def)

lemma agree_on_Nil [simp]: "agree_on [] fl fl'"
  by (simp add: agree_on_def)

lemmas flag_getters = GetString_def GetInt_def GetUint64_def GetBool_def GetDuration_def

section \<open>The plugins of the authentication\<close>

text \<open>
  \<open>RegisterAuthPlugins\<close> with its \<open>sync.Once\<close>: \<open>registers\<close> are the four \<open>Register\<close>
  functions, on the registry of \<open>dauth\<close>.
\<close>

definition RegisterAuthPlugins :: "('r \<Rightarrow> 'r) list \<Rightarrow> bool \<times> 'r \<Rightarrow> bool \<times> 'r" where
  "RegisterAuthPlugins registers st =
     (case st of (registered, r) \<Rightarrow> if registered then (registered, r) else (True, fold (\<lambda>f. f) registers r))"

text \<open>
  The two loaders on the registry: \<open>dauth_new\<close> looks a plugin up in it.  (In \<open>Commands\<close>,
  \<open>dauth.New\<close> is a function of the plugin alone.)
\<close>

definition load_auth_in :: "('r \<Rightarrow> 'r) list \<Rightarrow> ('r \<Rightarrow> string \<Rightarrow> error + 'a) \<Rightarrow> flags \<Rightarrow> bool \<times> 'r \<Rightarrow>
    (bool \<times> 'r) \<times> 'a AuthConfig res" where
  "load_auth_in registers dauth_new fl st =
     (let plugin = TrimSpace (GetString fl ''common-auth-plugin'');
          orgID = TrimSpace (GetString fl ''organization-id'');
          st1 = (if plugin = '''' \<or> orgID = '''' then st else RegisterAuthPlugins registers st)
      in (st1, loadAuthConfig (dauth_new (snd st1)) fl))"

definition load_internal_auth_in :: "('r \<Rightarrow> 'r) list \<Rightarrow> ('r \<Rightarrow> string \<Rightarrow> error + 'a) \<Rightarrow> flags \<Rightarrow> bool \<times> 'r \<Rightarrow>
    (bool \<times> 'r) \<times> ('a AuthConfig \<times> string) res" where
  "load_internal_auth_in registers dauth_new fl st =
     (let addr = TrimSpace (GetString fl ''internal-addr'');
          plugin = TrimSpace (GetString fl ''internal-auth-plugin'');
          st1 = (if addr = '''' \<or> plugin = '''' then st else RegisterAuthPlugins registers st)
      in (st1, loadInternalAuthConfig (dauth_new (snd st1)) fl))"

lemma RegisterAuthPlugins_once:
  "RegisterAuthPlugins registers (RegisterAuthPlugins registers st) = RegisterAuthPlugins registers st"
  by (simp add: RegisterAuthPlugins_def split: prod.split)

text \<open>
  The two loaders, one after the other in a fresh process, look plugins up in the registry
  with every plugin registered, and register each once.
\<close>

lemma loaders_registered:
  assumes "load_auth_in registers dauth_new fl (False, r) = (st1, a1)"
    and "load_internal_auth_in registers dauth_new fl st1 = (st2, a2)"
  shows "a1 = loadAuthConfig (dauth_new (fold (\<lambda>f. f) registers r)) fl"
    and "a2 = loadInternalAuthConfig (dauth_new (fold (\<lambda>f. f) registers r)) fl"
    and "st2 \<in> {(False, r), (True, fold (\<lambda>f. f) registers r)}"
  using assms
  by (auto simp: load_auth_in_def load_internal_auth_in_def RegisterAuthPlugins_def loadAuthConfig_def
      loadInternalAuthConfig_def Let_def split: if_splits)

end
