(* ===== verification/Program_Properties.thy ===== *)
theory Program_Properties
  imports Program
begin

text \<open>
  Properties of the program as a whole: the commands read the flags that they declare, with
  their types, and nothing else of the command line; \<open>main\<close> runs the command that is named,
  with its exit status; and viper (the configuration file, the environment, the bound
  flags) changes nothing of what a command does.
\<close>

section \<open>Flags\<close>

definition command_reads :: "(string \<times> flag_value) list \<Rightarrow> (cobra_command \<times> (string \<times> flag_type) list) list" where
  "command_reads sink_flags =
     [(GetCmd, get_reads), (ServerCmd sink_flags, server_reads), (RemoteFeedCmd, remote_feed_reads)]"

lemmas flag_tables = GetCmd_def ServerCmd_def RemoteFeedCmd_def get_reads_def server_reads_def remote_feed_reads_def
  auth_reads_def get_flag_defaults_def server_flag_defaults_def remote_feed_flag_defaults_def auth_flag_defaults_def

definition declared_as :: "(string \<times> flag_value) list \<Rightarrow> string \<times> flag_type \<Rightarrow> bool" where
  "declared_as defs f = (case map_of defs (fst f) of None \<Rightarrow> False | Some d \<Rightarrow> type_of_flag d = snd f)"

lemma reads_declared_as:
  "list_all (declared_as get_flag_defaults) get_reads"
  "list_all (declared_as server_flag_defaults) server_reads"
  "list_all (declared_as remote_feed_flag_defaults) remote_feed_reads"
  by (simp_all add: declared_as_def flag_tables)

lemma declared_as_set: "declared_as defs (name, ty) \<Longrightarrow> \<exists>d. (name, d) \<in> set defs \<and> type_of_flag d = ty"
  by (auto simp: declared_as_def split: option.splits dest: map_of_SomeD)

lemma reads_declared:
  assumes "(c, reads) \<in> set (command_reads sink_flags)" and "(name, ty) \<in> set reads"
  shows "\<exists>d. (name, d) \<in> set (cmd_Flags c) \<and> type_of_flag d = ty"
proof -
  consider "c = GetCmd" "reads = get_reads" | "c = ServerCmd sink_flags" "reads = server_reads"
    | "c = RemoteFeedCmd" "reads = remote_feed_reads"
    using assms(1) by (auto simp: command_reads_def)
  then show ?thesis
    using assms(2) reads_declared_as declared_as_set [of _ name ty]
    by cases (fastforce simp: list_all_iff GetCmd_def ServerCmd_def RemoteFeedCmd_def)+
qed

text \<open>C10: every flag that a command reads is declared with the type of the getter, so that
  the error that the commands drop never occurs: on parsed arguments the value is the given
  one, or the default, and has that type.  The flags that are marked as required are
  declared as well, so that the mark has an effect.\<close>

theorem command_flags_typed:
  assumes "(c, reads) \<in> set (command_reads sink_flags)" and "distinct (map fst (cmd_Flags c))"
    and "parsed_for (cmd_Flags c) given" and "(name, ty) \<in> set reads"
  shows "(\<exists>v. with_defaults (cmd_Flags c) given name = Some v \<and> type_of_flag v = ty \<and>
            (given name = Some v \<or> given name = None \<and> (name, v) \<in> set (cmd_Flags c))) \<and>
         set (cmd_Required c) \<subseteq> set (map fst reads)"
proof
  obtain d where d: "(name, d) \<in> set (cmd_Flags c)" "type_of_flag d = ty"
    using reads_declared [OF assms(1,4)] by blast
  have m: "map_of (cmd_Flags c) name = Some d" using map_of_is_SomeI [OF assms(2) d(1)] .
  show "\<exists>v. with_defaults (cmd_Flags c) given name = Some v \<and> type_of_flag v = ty \<and>
      (given name = Some v \<or> given name = None \<and> (name, v) \<in> set (cmd_Flags c))"
  proof (cases "given name")
    case None
    then show ?thesis using d m by (simp add: with_defaults_def)
  next
    case (Some v)
    then show ?thesis using assms(3) d(2) m by (fastforce simp: with_defaults_def parsed_for_def)
  qed
  show "set (cmd_Required c) \<subseteq> set (map fst reads)"
    using assms(1) unfolding command_reads_def by (auto simp: flag_tables)
qed

text \<open>The readings of two command lines that agree.\<close>

lemma same_readings:
  assumes "fl name = fl' name"
  shows "GetString fl name = GetString fl' name" "GetInt fl name = GetInt fl' name"
    "GetUint64 fl name = GetUint64 fl' name" "GetBool fl name = GetBool fl' name"
    "GetDuration fl name = GetDuration fl' name"
  using assms by (simp_all add: flag_getters)

lemma get_reads_only:
  assumes "agree_on get_reads fl fl'"
  shows "GetCmd_RunE base58 dial protoscope fl = GetCmd_RunE base58 dial protoscope fl'"
proof -
  have "fl ''key'' = fl' ''key''" "fl ''server'' = fl' ''server''" "fl ''block-number'' = fl' ''block-number''"
    "fl ''encoding'' = fl' ''encoding''" "fl ''block-hash'' = fl' ''block-hash''"
    using assms by (simp_all add: get_reads_def)
  note r = this [THEN same_readings(1) [where fl = fl and fl' = fl']] this [THEN same_readings(3) [where fl = fl and fl' = fl']]
  show ?thesis unfolding GetCmd_RunE_def get_request_def r ..
qed

lemma listen_reads_only:
  assumes "agree_on auth_reads fl fl'" and "fl ''addr'' = fl' ''addr''"
  shows "command_listen A factory dauth_new fl srv = command_listen A factory dauth_new fl' srv"
proof -
  have "fl ''common-auth-plugin'' = fl' ''common-auth-plugin''" "fl ''organization-id'' = fl' ''organization-id''"
    "fl ''internal-addr'' = fl' ''internal-addr''" "fl ''internal-auth-plugin'' = fl' ''internal-auth-plugin''"
    using assms(1) by (simp_all add: auth_reads_def)
  note r = this [THEN same_readings(1) [where fl = fl and fl' = fl']] assms(2) [THEN same_readings(1) [where fl = fl and fl' = fl']]
  show ?thesis unfolding command_listen_def loadAuthConfig_def loadInternalAuthConfig_def r ..
qed

lemma startup_reads_only:
  assumes "fl ''dsn'' = fl' ''dsn''" and "fl ''type-url'' = fl' ''type-url''" and "fl ''startup-delay'' = fl' ''startup-delay''"
  shows "command_dsn E fl = command_dsn E fl'" and "startup_delay fl = startup_delay fl'"
  unfolding command_dsn_def startup_delay_def assms(1,2) [THEN same_readings(1) [where fl = fl and fl' = fl']] assms(3) [THEN same_readings(5) [where fl = fl and fl' = fl']] by (rule refl)+

lemma server_reads_only:
  assumes "agree_on server_reads fl fl'"
  shows "serverCmdE C B sched P cord A factory E fl = serverCmdE C B sched P cord A factory E fl'"
proof -
  have f: "agree_on auth_reads fl fl'" "fl ''addr'' = fl' ''addr''" "fl ''dsn'' = fl' ''dsn''" "fl ''type-url'' = fl' ''type-url''"
    "fl ''startup-delay'' = fl' ''startup-delay''"
    "fl ''workers'' = fl' ''workers''" "fl ''no-time-traversal'' = fl' ''no-time-traversal''"
    using assms by (simp_all add: server_reads_def)
  have "fl ''manifest-path'' = fl' ''manifest-path''" "fl ''output-module-name'' = fl' ''output-module-name''"
    "fl ''cursor-file-path'' = fl' ''cursor-file-path''" "fl ''store-manager-address'' = fl' ''store-manager-address''"
    using assms by (simp_all add: server_reads_def)
  note r = this [THEN same_readings(1) [where fl = fl and fl' = fl']] f(6) [THEN same_readings(2) [where fl = fl and fl' = fl']] f(7) [THEN same_readings(4) [where fl = fl and fl' = fl']]
    startup_reads_only [OF f(3-5)] listen_reads_only [OF f(1,2)]
  show ?thesis unfolding serverCmdE_def server_sink_def server_pings_def r ..
qed

lemma remote_feed_reads_only:
  assumes "agree_on remote_feed_reads fl fl'"
  shows "remoteFeedCmdE B sched A factory E fl = remoteFeedCmdE B sched A factory E fl'"
proof -
  have f: "agree_on auth_reads fl fl'" "fl ''addr'' = fl' ''addr''" "fl ''dsn'' = fl' ''dsn''" "fl ''type-url'' = fl' ''type-url''"
    "fl ''startup-delay'' = fl' ''startup-delay''" "fl ''workers'' = fl' ''workers''"
    using assms by (simp_all add: remote_feed_reads_def)
  note r = f(6) [THEN same_readings(2) [where fl = fl and fl' = fl']] startup_reads_only [OF f(3-5)] listen_reads_only [OF f(1,2)]
  show ?thesis unfolding remoteFeedCmdE_def r ..
qed

text \<open>A command depends on no other flags: two command lines that agree on the flags
  that the table of reads lists give the same run of \<open>get\<close>, of \<open>server\<close> and of
  \<open>remote-feed\<close>.  In particular the batching flags of \<open>server\<close> (\<open>batch-size\<close>,
  \<open>max-batch-time\<close>, \<open>flush-queue-size\<close>), which are declared and documented, have no
  effect.\<close>

theorem unread_flags_change_nothing:
  shows "(agree_on get_reads fl fl' \<longrightarrow> GetCmd_RunE base58 dial protoscope fl = GetCmd_RunE base58 dial protoscope fl') \<and>
     (agree_on server_reads fl fl' \<longrightarrow>
        serverCmdE C B sched P cord A factory E fl = serverCmdE C B sched P cord A factory E fl') \<and>
     (agree_on remote_feed_reads fl fl' \<longrightarrow>
        remoteFeedCmdE B' sched' A' factory' E' fl = remoteFeedCmdE B' sched' A' factory' E' fl') \<and>
     agree_on server_reads fl (fl(''batch-size'' := x, ''max-batch-time'' := y, ''flush-queue-size'' := z))"
  by (intro conjI impI)
    (erule get_reads_only server_reads_only remote_feed_reads_only | simp add: server_reads_def auth_reads_def)+

section \<open>main\<close>

text \<open>
  What a command does, on its own: what it prints and starts, the error that \<open>main\<close> prints,
  and the exit status (none if it never returns).
\<close>

definition command_outcome :: "('x \<Rightarrow> ('sa, 'ra) main_event) \<Rightarrow> error option \<Rightarrow> 'x list \<times> 'r res \<Rightarrow>
    ('sa, 'ra) main_event list \<times> nat option" where
  "command_outcome ev app_err run =
     (case run of
        (xs, Inr _) \<Rightarrow> (map ev xs, Some (if app_err = None then 0 else 1))
      | (xs, Inl (Error err)) \<Rightarrow> (map ev xs @ [Ev_Error err], Some 1)
      | (xs, Inl (Panic _)) \<Rightarrow> (map ev xs, Some 2)
      | (xs, Inl Blocked) \<Rightarrow> (map ev xs, None))"

definition named_outcome :: "(flags \<Rightarrow> get_output list \<times> unit res) \<Rightarrow> (flags \<Rightarrow> 'sa list \<times> 'sr res) \<Rightarrow>
    (flags \<Rightarrow> 'ra list \<times> 'rr res) \<Rightarrow> error option \<Rightarrow> string \<Rightarrow> flags \<Rightarrow> ('sa, 'ra) main_event list \<times> nat option" where
  "named_outcome get server remote_feed app_err name fl =
     (if name = ''get'' then command_outcome Ev_Get None (get fl)
      else if name = ''server'' then command_outcome Ev_Server app_err (server fl)
      else command_outcome Ev_Remote_Feed app_err (remote_feed fl))"

text \<open>The end of a run, as \<open>main\<close> shows it.\<close>

definition main_end :: "('v \<times> ('sa, 'ra) main_event list) \<times> command_end \<Rightarrow> ('sa, 'ra) main_event list \<times> nat option" where
  "main_end x =
     (case x of ((_, evs), r) \<Rightarrow>
        (evs @ (case r of Command_Returned (Inl (Error err)) \<Rightarrow> [Ev_Error err] | _ \<Rightarrow> []), command_main r))"

lemma main_end_run:
  "main_end (program_run get server feed app_err c fl (v, evs)) =
     map_prod (append evs) id (named_outcome get server feed app_err (cmd_Use c) fl)"
  by (auto simp: main_end_def program_run_def named_outcome_def command_outcome_def command_finish_def
      command_main_def split: prod.splits sum.splits fail.splits option.splits)

lemma read_config_events:
  "\<exists>v' conf. read_config V (v, evs) = (v', evs @ conf) \<and> set conf \<subseteq> range Ev_Config_File"
  by (auto simp: read_config_def Let_def split: prod.split option.split)

lemma initConfig_events:
  assumes "cfg \<noteq> '''' \<or> (\<exists>dir. home = Inr dir)"
  shows "\<exists>v' conf. initConfig V home cfg (v, []) = ((v', conf), None) \<and> set conf \<subseteq> range Ev_Config_File"
  using assms read_config_events [of V _ "[]"] by (fastforce simp: initConfig_def split: sum.split)

text \<open>What cobra's contract says of \<open>main\<close>: the initialiser, the required flags, the command.\<close>

lemma main_executes:
  fixes V :: "'v viper_api" and run :: "cobra_command \<Rightarrow> flags \<Rightarrow> 'v \<times> ('sa, 'ra) main_event list \<Rightarrow> _"
  assumes "cobra_ok Execute parse" and "parse (rootCmd sink_flags) args = Parse_Command c cfg given"
  shows "\<exists>x. program_main Execute V home sink_flags run args v = main_end x \<and>
    (case initConfig V home cfg (package_init V sink_flags v, []) of
       (st1, Some n) \<Rightarrow> x = (st1, Process_Exit n)
     | (st1, None) \<Rightarrow>
         if missing_flags c given \<noteq> [] then \<exists>err. x = (st1, Command_Returned (Inl (Error err)))
         else x = run c (with_defaults (cmd_Flags c) given) st1)"
proof (intro exI conjI)
  show "program_main Execute V home sink_flags run args v =
      main_end (Execute (rootCmd sink_flags) (initConfig V home) run args (package_init V sink_flags v, []))"
    by (simp add: program_main_def main_end_def)
qed (use assms(1) [unfolded cobra_ok_def, rule_format, of "rootCmd sink_flags" "initConfig V home" run args
      "(package_init V sink_flags v, [])"] assms(2) in simp)

lemma main_end_exit: "main_end ((v, evs), Process_Exit n) = (evs, Some n)"
  by (simp add: main_end_def command_main_def)

lemma main_end_error: "main_end ((v, evs), Command_Returned (Inl (Error err))) = (evs @ [Ev_Error err], Some 1)"
  by (simp add: main_end_def command_main_def)

lemma main_runs:
  fixes evs :: "('sa, 'ra) main_event list"
  assumes "cobra_ok Execute parse" and "parse (rootCmd sink_flags) args = Parse_Command c cfg given"
    and "program_main Execute V home sink_flags (program_run get server feed app_err) args v = (evs, status)"
  shows "if cfg = '''' \<and> (\<exists>err. home = Inl err)
    then (\<exists>err. home = Inl err \<and> (evs, status) = ([Ev_Error err], Some 1))
    else \<exists>conf. set conf \<subseteq> range Ev_Config_File \<and>
      (if missing_flags c given \<noteq> [] then \<exists>err. (evs, status) = (conf @ [Ev_Error err], Some 1)
       else (evs, status) = map_prod (append conf) id
              (named_outcome get server feed app_err (cmd_Use c) (with_defaults (cmd_Flags c) given)))"
proof -
  let ?st = "(package_init V sink_flags v, [] :: ('sa, 'ra) main_event list)"
  obtain x where m: "(evs, status) = main_end x" and
    x: "case initConfig V home cfg ?st of
       (st1, Some n) \<Rightarrow> x = (st1, Process_Exit n)
     | (st1, None) \<Rightarrow>
         if missing_flags c given \<noteq> [] then \<exists>err. x = (st1, Command_Returned (Inl (Error err)))
         else x = program_run get server feed app_err c (with_defaults (cmd_Flags c) given) st1"
    using main_executes [OF assms(1,2), of V home "program_run get server feed app_err" v, unfolded assms(3)]
    by (elim exE conjE) (rule that)
  show ?thesis
  proof (cases "cfg = '''' \<and> (\<exists>err. home = Inl err)")
    case True
    then obtain err where h: "home = Inl err" "cfg = ''''" by blast
    then have "initConfig V home cfg ?st = ((package_init V sink_flags v, [Ev_Error err]), Some 1)"
      by (simp add: initConfig_def)
    then show ?thesis using x m h by (simp add: main_end_exit)
  next
    case False
    then have h: "cfg \<noteq> '''' \<or> (\<exists>dir. home = Inr dir)" by (cases home) auto
    obtain v' conf where i: "initConfig V home cfg ?st = ((v', conf), None)" and c: "set conf \<subseteq> range Ev_Config_File"
      using initConfig_events [OF h, of V "package_init V sink_flags v"] by blast
    have "if missing_flags c given \<noteq> [] then \<exists>err. (evs, status) = (conf @ [Ev_Error err], Some 1)
        else (evs, status) = map_prod (append conf) id
          (named_outcome get server feed app_err (cmd_Use c) (with_defaults (cmd_Flags c) given))"
      using x m unfolding i by (auto simp: main_end_run main_end_error split: if_splits)
    then show ?thesis unfolding if_not_P [OF False] using c by blast
  qed
qed

text \<open>C9: \<open>main\<close> runs the command that is named, once, on the given flags and the defaults
  of the others, after the configuration is read: it prints and starts what the command
  does, prints its error, and exits with 0, with 1 for an error of the command or of the
  application, with 2 for a panic.  It exits with 1 and runs no command when a required
  flag is missing, and when neither \<open>config\<close> is given nor a home directory is known.\<close>

theorem main_runs_command:
  assumes "cobra_ok Execute parse" and "parse (rootCmd sink_flags) args = Parse_Command c cfg given"
    and "program_main Execute V home sink_flags (program_run get server feed app_err) args v = (evs, status)"
  shows "if cfg = '''' \<and> (\<exists>err. home = Inl err)
    then (\<exists>err. home = Inl err \<and> (evs, status) = ([Ev_Error err], Some 1))
    else \<exists>conf. set conf \<subseteq> range Ev_Config_File \<and>
      (if missing_flags c given \<noteq> [] then \<exists>err. (evs, status) = (conf @ [Ev_Error err], Some 1)
       else (evs, status) = map_prod (append conf) id
              (named_outcome get server feed app_err (cmd_Use c) (with_defaults (cmd_Flags c) given)))"
  by (rule main_runs [OF assms])


section \<open>Instances\<close>

text \<open>Arguments as pairs of a flag and a string; \<open>config\<close> is the flag of the root.\<close>

fun arg_pairs :: "string list \<Rightarrow> (string \<times> string) list" where
  "arg_pairs (name # val # rest) = (name, val) # arg_pairs rest"
| "arg_pairs _ = []"

definition plain_parse :: "root_command \<Rightarrow> string list \<Rightarrow> cobra_parse" where
  "plain_parse root args =
     (case args of
        [] \<Rightarrow> Parse_Help
      | name # rest \<Rightarrow>
          (case find (\<lambda>c. cmd_Use c = name) (root_Commands root) of
             None \<Rightarrow> Parse_Error (Err ''unknown command'')
           | Some c \<Rightarrow> Parse_Command c (case map_of (arg_pairs rest) ''config'' of None \<Rightarrow> '''' | Some cfg \<Rightarrow> cfg)
               (\<lambda>name. map_option Flag_String (map_of (arg_pairs rest) name))))"

definition plain_Execute :: "('st, command_end) cobra_execute" where
  "plain_Execute root init run args st =
     (case plain_parse root args of
        Parse_Error err \<Rightarrow> (st, Command_Returned (Inl (Error err)))
      | Parse_Help \<Rightarrow> (st, Command_Returned (Inr ()))
      | Parse_Command c cfg given \<Rightarrow>
          (case init cfg st of
             (st1, Some n) \<Rightarrow> (st1, Process_Exit n)
           | (st1, None) \<Rightarrow>
               if missing_flags c given \<noteq> [] then (st1, Command_Returned (Inl (Error (Err ''required flag(s) not set''))))
               else run c (with_defaults (cmd_Flags c) given) st1))"

lemma plain_cobra_ok: "cobra_ok plain_Execute plain_parse"
proof -
  have c: "c \<in> set (root_Commands root)" if "plain_parse root args = Parse_Command c cfg given" for root args c cfg given
    using that by (auto simp: plain_parse_def find_Some_iff split: list.splits option.splits)
  show ?thesis
    unfolding cobra_ok_def
  proof (intro allI)
    fix root args and init :: "string \<Rightarrow> 'a \<Rightarrow> 'a \<times> nat option" and run and st :: 'a
    show "case plain_parse root args of
        Parse_Error err \<Rightarrow> plain_Execute root init run args st = (st, Command_Returned (Inl (Error err)))
      | Parse_Command c cfg given \<Rightarrow> c \<in> set (root_Commands root) \<and>
          (case init cfg st of
             (st1, Some n) \<Rightarrow> plain_Execute root init run args st = (st1, Process_Exit n)
           | (st1, None) \<Rightarrow>
               if missing_flags c given \<noteq> []
               then \<exists>err. plain_Execute root init run args st = (st1, Command_Returned (Inl (Error err)))
               else plain_Execute root init run args st = run c (with_defaults (cmd_Flags c) given) st1)
      | Parse_Help \<Rightarrow> True"
    proof (cases "plain_parse root args")
      case (Parse_Command c' cfg given)
      then show ?thesis
        using c [OF Parse_Command] by (cases "init cfg st"; cases "snd (init cfg st)") (simp_all add: plain_Execute_def)
    qed (simp_all add: plain_Execute_def)
  qed
qed

text \<open>A viper that keeps the path of its configuration file; \<open>exists_file\<close> says which files exist.\<close>

definition plain_viper :: "(string \<Rightarrow> bool) \<Rightarrow> string viper_api" where
  "plain_viper exists_file =
     \<lparr>vi_BindPFlag = (\<lambda>key flag v. v), vi_SetConfigFile = (\<lambda>file v. file), vi_AddConfigPath = (\<lambda>dir v. dir),
      vi_SetConfigName = (\<lambda>name v. v @ ''/'' @ name), vi_SetEnvPrefix = (\<lambda>p v. v), vi_SetEnvKeyReplacer = (\<lambda>r v. v),
      vi_AutomaticEnv = (\<lambda>v. v), vi_ReadInConfig = (\<lambda>v. (v, if exists_file v then None else Some (Err ''not found''))),
      vi_ConfigFileUsed = (\<lambda>v. v)\<rparr>"

lemma plain_viper_init: "package_init (plain_viper exists_file) sink_flags v = v"
  by (simp add: package_init_def bind_flags_def GetCmd_def ServerCmd_def RemoteFeedCmd_def plain_viper_def)

definition refused_get :: "flags \<Rightarrow> get_output list \<times> unit res" where
  "refused_get = GetCmd_RunE (\<lambda>s. Inl (Err ''base58'')) (\<lambda>addr. Inl (Err ''refused'')) (\<lambda>v. '''')"

definition sample_main :: "(string \<Rightarrow> bool) \<Rightarrow> (error + string) \<Rightarrow> string list \<Rightarrow> (unit, unit) main_event list \<times> nat option" where
  "sample_main exists_file home args =
     program_main plain_Execute (plain_viper exists_file) home [(''endpoint'', Flag_String '''')]
       (program_run refused_get (\<lambda>fl. ([], Inr ())) (\<lambda>fl. ([], Inr ())) None) args ''''"

definition sample_args :: "string list" where
  "sample_args = [''get'', ''key'', ''0x01'']"

lemma sample_main_eval:
  "sample_main (\<lambda>file. False) (Inr ''/root'') sample_args =
     ([Ev_Get (Out_Connecting ''localhost:50051''), Ev_Error (Wrap ''failed to connect to server'' (Err ''refused''))], Some 1)"
  "sample_main (\<lambda>file. True) (Inr ''/root'') sample_args =
     ([Ev_Config_File ''/root/.foundational-foundational-store'', Ev_Get (Out_Connecting ''localhost:50051''),
       Ev_Error (Wrap ''failed to connect to server'' (Err ''refused''))], Some 1)"
  "sample_main (\<lambda>file. True) (Inl (Err ''$HOME is not defined'')) sample_args =
     ([Ev_Error (Err ''$HOME is not defined'')], Some 1)"
  by code_simp+

definition sample_given :: flags where
  "sample_given name = (if name = ''key'' then Some (Flag_String ''0x01'') else None)"

lemma sample_parse:
  "plain_parse (rootCmd [(''endpoint'', Flag_String '''')]) sample_args =
     Parse_Command GetCmd '''' sample_given"
  by (simp add: plain_parse_def rootCmd_def sample_args_def GetCmd_def sample_given_def fun_eq_iff)

lemma sample_missing: "missing_flags GetCmd sample_given = []"
  by (simp add: missing_flags_def GetCmd_def sample_given_def)

lemma GetCmd_simps [simp]: "cmd_Use GetCmd = ''get''" "cmd_Flags GetCmd = get_flag_defaults"
  by (simp_all add: GetCmd_def)

theorem main_runs_command_witness:
  "\<exists>conf. set conf \<subseteq> range Ev_Config_File \<and> sample_main (\<lambda>file. True) (Inr ''/root'') sample_args =
     map_prod (append conf) id (named_outcome refused_get (\<lambda>fl. ([], Inr ())) (\<lambda>fl. ([], Inr ())) None ''get''
       (with_defaults get_flag_defaults sample_given))"
  using main_runs_command [OF plain_cobra_ok sample_parse, of "plain_viper (\<lambda>file. True)" "Inr ''/root''"
      refused_get "\<lambda>fl. ([], Inr ())" "\<lambda>fl. ([], Inr ())" None "''''"
      "fst (sample_main (\<lambda>file. True) (Inr ''/root'') sample_args)"
      "snd (sample_main (\<lambda>file. True) (Inr ''/root'') sample_args)"]
  by (simp add: sample_missing sample_main_def)


theorem command_flags_typed_witness:
  "\<exists>v. with_defaults (cmd_Flags (ServerCmd [(''endpoint'', Flag_String '''')])) [''workers'' \<mapsto> Flag_Int 4] ''workers'' =
     Some v \<and> type_of_flag v = Type_int"
  using command_flags_typed [of "ServerCmd [(''endpoint'', Flag_String '''')]" server_reads
      "[(''endpoint'', Flag_String '''')]" "[''workers'' \<mapsto> Flag_Int 4]" "''workers''" Type_int]
  by (simp add: command_reads_def parsed_for_def flag_tables)

theorem unread_flags_change_nothing_witness:
  "refused_get (with_defaults get_flag_defaults [''key'' \<mapsto> Flag_String ''01'']) =
   refused_get (with_defaults get_flag_defaults [''key'' \<mapsto> Flag_String ''01'', ''batch-size'' \<mapsto> Flag_Int 100])"
  unfolding refused_get_def
  by (rule unread_flags_change_nothing [THEN conjunct1, THEN mp]) (simp add: get_reads_def with_defaults_def)

end
