(* ===== verification/Fork_Concurrent.thy ===== *)
theory Fork_Concurrent
  imports Fork_Properties
begin

text \<open>
  The fork-aware store under concurrent calls (\<open>sync.RWMutex\<close> in \<open>store/ForkAware/store.go\<close>):
  the sink writes while every gRPC handler reads.  A call is a thread that takes the mutex,
  executes the body of its method in steps (one loop iteration or one call of the wrapped
  store at a time), and releases the mutex with its deferred unlock; the threads interleave
  in every way that the mutex admits.  The runs are shown to be those of the methods as
  single steps, in the order of the unlocks.
\<close>

section \<open>Calls\<close>

datatype fork_call =
    Call_SetAll "Entry option list" bool u64
  | Call_Get GetRequest
  | Call_GetFirst GetRequest
  | Call_FlushUpToBlock u64 bool
  | Call_EvictUpToBlock u64

datatype fork_ret = Ret_Error "unit res" | Ret_Response "GetResponse res"

text \<open>The methods that take the read lock.\<close>

fun reading :: "fork_call \<Rightarrow> bool" where
  "reading (Call_Get req) = True"
| "reading (Call_GetFirst req) = True"
| "reading _ = False"

text \<open>A call as one step.\<close>

fun call_run :: "('w, 'x) store_ops_scheme \<Rightarrow> ((bytes \<times> cachedEntry) list \<Rightarrow> (bytes \<times> cachedEntry) list) \<Rightarrow>
    'w fork_store \<Rightarrow> fork_call \<Rightarrow> 'w fork_store \<times> fork_ret" where
  "call_run W ord s (Call_SetAll es ine b) = map_prod id Ret_Error (fork_SetAll W s es ine b)"
| "call_run W ord s (Call_Get req) = (s, Ret_Response (fork_Get W s req))"
| "call_run W ord s (Call_GetFirst req) = (s, Ret_Response (fork_GetFirst W s req))"
| "call_run W ord s (Call_FlushUpToBlock n ine) = map_prod id Ret_Error (fork_FlushUpToBlock W ord s n ine)"
| "call_run W ord s (Call_EvictUpToBlock n) = map_prod id Ret_Error (fork_EvictUpToBlock s n)"

fun serial_run :: "('w, 'x) store_ops_scheme \<Rightarrow> ((bytes \<times> cachedEntry) list \<Rightarrow> (bytes \<times> cachedEntry) list) \<Rightarrow>
    'w fork_store \<Rightarrow> fork_call list \<Rightarrow> 'w fork_store \<times> fork_ret list" where
  "serial_run W ord s [] = (s, [])"
| "serial_run W ord s (call # calls) =
     (case call_run W ord s call of (s1, r) \<Rightarrow> map_prod id (Cons r) (serial_run W ord s1 calls))"

lemma serial_run_append:
  "serial_run W ord s (xs @ ys) =
     (let (s1, rs) = serial_run W ord s xs in map_prod id (append rs) (serial_run W ord s1 ys))"
  by (induction xs arbitrary: s)
    (auto simp: Let_def map_prod_def split: prod.splits)

lemma length_serial_run: "length (snd (serial_run W ord s xs)) = length xs"
  by (induction xs arbitrary: s) (auto split: prod.splits)

section \<open>The bodies, step by step\<close>

text \<open>
  Where the body of a method is: at its beginning, in a loop with what is left of the
  range, or before its \<open>return\<close>.
\<close>

datatype frame =
    At_Begin fork_call
  | SetAll_Candidates "Entry option list" bool u64
  | SetAll_Caching "Entry option list" "Entry option list" bool u64
  | SetAll_Writing "Entry option list" bool u64
  | Read_Overlay GetResponse u64 nat "Key option list"
  | Flush_Collecting u64 bool
  | Flush_Writing "Entry option list" u64 bool
  | Cache_Deleting "bytes list"
  | Returning fork_ret

fun body_step :: "('w, 'x) store_ops_scheme \<Rightarrow> ((bytes \<times> cachedEntry) list \<Rightarrow> (bytes \<times> cachedEntry) list) \<Rightarrow>
    frame \<Rightarrow> 'w fork_store \<Rightarrow> 'w fork_store \<times> frame" where
  "body_step W ord (At_Begin (Call_SetAll entries ifNotExist blockNumber)) s =
     (s, case fork_candidates (fs_cache s) ifNotExist entries of
           Inl f \<Rightarrow> Returning (Ret_Error (Inl f))
         | Inr toSet \<Rightarrow> SetAll_Candidates toSet ifNotExist blockNumber)"
| "body_step W ord (SetAll_Candidates candidates ifNotExist blockNumber) s =
     (s, case (if ifNotExist \<and> candidates \<noteq> [] then fork_existing W (fs_wrapped s) blockNumber candidates
               else Inr candidates) of
           Inl f \<Rightarrow> Returning (Ret_Error (Inl f))
         | Inr toSet \<Rightarrow> SetAll_Caching toSet toSet ifNotExist blockNumber)"
| "body_step W ord (SetAll_Caching (entry # rest) toSet ifNotExist blockNumber) s =
     (s\<lparr>fs_cache := AList.update (fst (entry_kv entry)) \<lparr>ce_entry = entry, ce_blockNumber = blockNumber\<rparr> (fs_cache s)\<rparr>,
      SetAll_Caching rest toSet ifNotExist blockNumber)"
| "body_step W ord (SetAll_Caching [] toSet ifNotExist blockNumber) s =
     (s, SetAll_Writing (filter (\<lambda>entry. blockNumber \<le> fs_flushUpToBlock s) toSet) ifNotExist blockNumber)"
| "body_step W ord (SetAll_Writing toFlush ifNotExist blockNumber) s =
     (if toFlush = [] then (s, Returning (Ret_Error (Inr ())))
      else case op_SetAll W (fs_wrapped s) toFlush ifNotExist blockNumber of
             (w, r) \<Rightarrow> (s\<lparr>fs_wrapped := w\<rparr>,
               Returning (Ret_Error (wrap_res ''failed to set entries in wrapped foundational-store'' r))))"
| "body_step W ord (At_Begin (Call_Get request)) s =
     (s, case op_Get W (fs_wrapped s) request of
           Inl f \<Rightarrow> Returning (Ret_Response (Inl f))
         | Inr resp \<Rightarrow> Read_Overlay resp (GetRequest_BlockNumber request) 0 (GetRequest_Keys request))"
| "body_step W ord (At_Begin (Call_GetFirst request)) s =
     (s, case op_GetFirst W (fs_wrapped s) request of
           Inl f \<Rightarrow> Returning (Ret_Response (Inl f))
         | Inr resp \<Rightarrow> Read_Overlay resp (GetRequest_BlockNumber request) 0 (GetRequest_Keys request))"
| "body_step W ord (Read_Overlay resp blockNumber i (key # keys)) s =
     (s, case fork_overlay (fs_cache s) blockNumber i [key] (GetResponse_Entries resp) of
           Inl f \<Rightarrow> Returning (Ret_Response (Inl f))
         | Inr entries \<Rightarrow> Read_Overlay (resp\<lparr>GetResponse_Entries := entries\<rparr>) blockNumber (i + 1) keys)"
| "body_step W ord (Read_Overlay resp blockNumber i []) s = (s, Returning (Ret_Response (Inr resp)))"
| "body_step W ord (At_Begin (Call_FlushUpToBlock blockNum ifNotExist)) s =
     (s\<lparr>fs_flushUpToBlock := blockNum\<rparr>, Flush_Collecting blockNum ifNotExist)"
| "body_step W ord (Flush_Collecting blockNum ifNotExist) s =
     (s, Flush_Writing (map (\<lambda>(_, cached). ce_entry cached)
           (filter (\<lambda>(_, cached). ce_blockNumber cached \<le> blockNum) (ord (fs_cache s)))) blockNum ifNotExist)"
| "body_step W ord (Flush_Writing toFlush blockNum ifNotExist) s =
     (if toFlush = [] then (s, Returning (Ret_Error (Inr ())))
      else case op_SetAll W (fs_wrapped s) toFlush ifNotExist blockNum of
             (w, Inl f) \<Rightarrow> (s\<lparr>fs_wrapped := w\<rparr>,
               Returning (Ret_Error (wrap_res ''failed to flush entries to wrapped foundational-store'' (Inl f))))
           | (w, Inr _) \<Rightarrow> (s\<lparr>fs_wrapped := w\<rparr>, Cache_Deleting (map (\<lambda>entry. fst (entry_kv entry)) toFlush)))"
| "body_step W ord (At_Begin (Call_EvictUpToBlock upToBlockNumber)) s =
     (s, Cache_Deleting (map fst (filter (\<lambda>(_, cached). upToBlockNumber \<le> ce_blockNumber cached) (fs_cache s))))"
| "body_step W ord (Cache_Deleting (key # keys)) s =
     (s\<lparr>fs_cache := AList.delete key (fs_cache s)\<rparr>, Cache_Deleting keys)"
| "body_step W ord (Cache_Deleting []) s = (s, Returning (Ret_Error (Inr ())))"
| "body_step W ord (Returning r) s = (s, Returning r)"

text \<open>What is left of a body, as one step.\<close>

definition set_all_rest :: "('w, 'x) store_ops_scheme \<Rightarrow> Entry option list \<Rightarrow> bool \<Rightarrow> u64 \<Rightarrow> 'w fork_store \<Rightarrow>
    'w fork_store \<times> fork_ret" where
  "set_all_rest W toFlush ine b s =
     (if toFlush = [] then (s, Ret_Error (Inr ()))
      else case op_SetAll W (fs_wrapped s) toFlush ine b of
             (w, r) \<Rightarrow> (s\<lparr>fs_wrapped := w\<rparr>, Ret_Error (wrap_res ''failed to set entries in wrapped foundational-store'' r)))"

definition cache_rest :: "u64 \<Rightarrow> Entry option list \<Rightarrow> 'w fork_store \<Rightarrow> 'w fork_store" where
  "cache_rest b toSet s = s\<lparr>fs_cache := fork_cache_all b toSet (fs_cache s)\<rparr>"

definition flush_rest :: "('w, 'x) store_ops_scheme \<Rightarrow> Entry option list \<Rightarrow> u64 \<Rightarrow> bool \<Rightarrow> 'w fork_store \<Rightarrow>
    'w fork_store \<times> fork_ret" where
  "flush_rest W toFlush n ine s =
     (if toFlush = [] then (s, Ret_Error (Inr ()))
      else case op_SetAll W (fs_wrapped s) toFlush ine n of
             (w, Inl f) \<Rightarrow> (s\<lparr>fs_wrapped := w\<rparr>,
               Ret_Error (wrap_res ''failed to flush entries to wrapped foundational-store'' (Inl f)))
           | (w, Inr _) \<Rightarrow> (s\<lparr>fs_wrapped := w,
                fs_cache := fold (\<lambda>entry. AList.delete (fst (entry_kv entry))) toFlush (fs_cache s)\<rparr>, Ret_Error (Inr ())))"

definition to_collect :: "((bytes \<times> cachedEntry) list \<Rightarrow> (bytes \<times> cachedEntry) list) \<Rightarrow> u64 \<Rightarrow>
    (bytes \<times> cachedEntry) list \<Rightarrow> Entry option list" where
  "to_collect ord n cache = map (\<lambda>(_, cached). ce_entry cached) (filter (\<lambda>(_, cached). ce_blockNumber cached \<le> n) (ord cache))"

fun body_result :: "('w, 'x) store_ops_scheme \<Rightarrow> ((bytes \<times> cachedEntry) list \<Rightarrow> (bytes \<times> cachedEntry) list) \<Rightarrow>
    frame \<Rightarrow> 'w fork_store \<Rightarrow> 'w fork_store \<times> fork_ret" where
  "body_result W ord (At_Begin call) s = call_run W ord s call"
| "body_result W ord (SetAll_Candidates candidates ine b) s =
     (case (if ine \<and> candidates \<noteq> [] then fork_existing W (fs_wrapped s) b candidates else Inr candidates) of
        Inl f \<Rightarrow> (s, Ret_Error (Inl f))
      | Inr toSet \<Rightarrow> set_all_rest W (filter (\<lambda>entry. b \<le> fs_flushUpToBlock s) toSet) ine b (cache_rest b toSet s))"
| "body_result W ord (SetAll_Caching rest toSet ine b) s =
     set_all_rest W (filter (\<lambda>entry. b \<le> fs_flushUpToBlock s) toSet) ine b (cache_rest b rest s)"
| "body_result W ord (SetAll_Writing toFlush ine b) s = set_all_rest W toFlush ine b s"
| "body_result W ord (Read_Overlay resp b i keys) s =
     (s, Ret_Response (bind_res (fork_overlay (fs_cache s) b i keys (GetResponse_Entries resp))
       (\<lambda>entries. Inr (resp\<lparr>GetResponse_Entries := entries\<rparr>))))"
| "body_result W ord (Flush_Collecting n ine) s = flush_rest W (to_collect ord n (fs_cache s)) n ine s"
| "body_result W ord (Flush_Writing toFlush n ine) s = flush_rest W toFlush n ine s"
| "body_result W ord (Cache_Deleting keys) s = (s\<lparr>fs_cache := fold AList.delete keys (fs_cache s)\<rparr>, Ret_Error (Inr ()))"
| "body_result W ord (Returning r) s = (s, r)"

fun returning :: "frame \<Rightarrow> bool" where
  "returning (Returning r) = True"
| "returning _ = False"

text \<open>The frames of the two readers: they do not write.\<close>

fun frame_reads :: "frame \<Rightarrow> bool" where
  "frame_reads (At_Begin call) = reading call"
| "frame_reads (Read_Overlay resp b i keys) = True"
| "frame_reads (Returning (Ret_Response r)) = True"
| "frame_reads _ = False"

lemma fork_overlay_Cons:
  "fork_overlay cache b i (k # ks) es =
     bind_res (fork_overlay cache b i [k] es) (fork_overlay cache b (i + 1) ks)"
  by (cases "key_bytes k") (auto simp: nil_deref_def index_panic_def split: option.splits)

lemma fork_SetAll_frames:
  "call_run W ord s (Call_SetAll es ine b) =
     (case fork_candidates (fs_cache s) ine es of
        Inl f \<Rightarrow> (s, Ret_Error (Inl f))
      | Inr toSet \<Rightarrow> body_result W ord (SetAll_Candidates toSet ine b) s)"
  by (auto simp: fork_SetAll_def set_all_rest_def cache_rest_def Let_def split: sum.splits prod.splits)

lemma fork_Flush_frames:
  "call_run W ord s (Call_FlushUpToBlock n ine) =
     flush_rest W (to_collect ord n (fs_cache s)) n ine (s\<lparr>fs_flushUpToBlock := n\<rparr>)"
  by (auto simp: fork_FlushUpToBlock_def flush_rest_def to_collect_def Let_def split: sum.splits prod.splits)

lemma body_step_result:
  assumes "\<not> returning fr" and "body_step W ord fr s = (s', fr')"
  shows "body_result W ord fr' s' = body_result W ord fr s"
proof -
  have "body_result W ord (snd (body_step W ord fr s)) (fst (body_step W ord fr s)) = body_result W ord fr s"
    using assms(1)
  proof (induction W ord fr s rule: body_step.induct)
    case (1 W ord es ine b s)
    show ?case unfolding body_result.simps fork_SetAll_frames by (auto split: sum.split)
  next
    case (8 W ord resp b i k ks s)
    show ?case
      unfolding body_result.simps fork_overlay_Cons [of "fs_cache s" b i k ks]
      by (auto split: sum.split simp del: fork_overlay.simps)
  next
    case (10 W ord n ine s)
    show ?case unfolding body_result.simps fork_Flush_frames by simp
  qed (auto simp: set_all_rest_def cache_rest_def flush_rest_def to_collect_def fork_cache_all_def fork_Get_def
      fork_GetFirst_def fork_EvictUpToBlock_def Let_def fold_map comp_def split: sum.splits prod.splits)
  then show ?thesis by (simp add: assms(2))
qed

lemma body_step_reads:
  assumes "frame_reads fr" and "body_step W ord fr s = (s', fr')"
  shows "s' = s" and "frame_reads fr'"
  using assms by (induction W ord fr s rule: body_step.induct) (auto split: sum.splits)

lemma body_step_writes:
  assumes "\<not> frame_reads fr" and "body_step W ord fr s = (s', fr')"
  shows "\<not> frame_reads fr'"
  using assms by (induction W ord fr s rule: body_step.induct) (auto split: sum.splits prod.splits if_splits)

section \<open>The mutex and the threads\<close>

text \<open>
  \<open>sync.RWMutex\<close>: one writer or any number of readers.  A call of the mutex that has to
  wait is \<open>None\<close>.  (The order in which Go lets the waiting calls in is not fixed here: every
  order that the mutex admits is a run.)
\<close>

record RWMutex =
  mu_writer :: bool
  mu_readers :: nat

definition mu_Lock :: "RWMutex \<Rightarrow> RWMutex option" where
  "mu_Lock mu = (if mu_writer mu \<or> 0 < mu_readers mu then None else Some (mu\<lparr>mu_writer := True\<rparr>))"

definition mu_RLock :: "RWMutex \<Rightarrow> RWMutex option" where
  "mu_RLock mu = (if mu_writer mu then None else Some (mu\<lparr>mu_readers := mu_readers mu + 1\<rparr>))"

definition mu_Unlock :: "RWMutex \<Rightarrow> RWMutex" where
  "mu_Unlock mu = mu\<lparr>mu_writer := False\<rparr>"

definition mu_RUnlock :: "RWMutex \<Rightarrow> RWMutex" where
  "mu_RUnlock mu = mu\<lparr>mu_readers := mu_readers mu - 1\<rparr>"

datatype thread =
    Waiting_For fork_call
  | Holding_Lock fork_call frame
  | Finished fork_call fork_ret

text \<open>\<open>cc_log\<close> has the calls that have returned, in the order of their unlocks.\<close>

record 'w conc =
  cc_mu :: RWMutex
  cc_store :: "'w fork_store"
  cc_threads :: "thread list"
  cc_log :: "(nat \<times> fork_call \<times> fork_ret) list"

definition conc_start :: "'w fork_store \<Rightarrow> 'w conc" where
  "conc_start s = \<lparr>cc_mu = \<lparr>mu_writer = False, mu_readers = 0\<rparr>, cc_store = s, cc_threads = [], cc_log = []\<rparr>"

text \<open>A call whose backend never answers does not return, and never unlocks.\<close>

fun ret_blocked :: "fork_ret \<Rightarrow> bool" where
  "ret_blocked (Ret_Error r) \<longleftrightarrow> r = Inl Blocked"
| "ret_blocked (Ret_Response r) \<longleftrightarrow> r = Inl Blocked"

text \<open>The next step of a thread, if it can take one.\<close>

definition conc_next :: "('w, 'x) store_ops_scheme \<Rightarrow> ((bytes \<times> cachedEntry) list \<Rightarrow> (bytes \<times> cachedEntry) list) \<Rightarrow>
    nat \<Rightarrow> 'w conc \<Rightarrow> 'w conc option" where
  "conc_next W ord i c =
     (case cc_threads c ! i of
        Waiting_For call \<Rightarrow>
          map_option (\<lambda>mu. c\<lparr>cc_mu := mu, cc_threads := (cc_threads c)[i := Holding_Lock call (At_Begin call)]\<rparr>)
            (if reading call then mu_RLock (cc_mu c) else mu_Lock (cc_mu c))
      | Holding_Lock call (Returning r) \<Rightarrow>
          if ret_blocked r then None
          else Some (c\<lparr>cc_mu := (if reading call then mu_RUnlock (cc_mu c) else mu_Unlock (cc_mu c)),
                       cc_threads := (cc_threads c)[i := Finished call r], cc_log := cc_log c @ [(i, call, r)]\<rparr>)
      | Holding_Lock call fr \<Rightarrow>
          (case body_step W ord fr (cc_store c) of
             (s, fr') \<Rightarrow> Some (c\<lparr>cc_store := s, cc_threads := (cc_threads c)[i := Holding_Lock call fr']\<rparr>))
      | Finished call r \<Rightarrow> None)"

inductive conc_step :: "('w, 'x) store_ops_scheme \<Rightarrow> ((bytes \<times> cachedEntry) list \<Rightarrow> (bytes \<times> cachedEntry) list) \<Rightarrow>
    'w conc \<Rightarrow> 'w conc \<Rightarrow> bool" for W ord where
  thread_steps: "i < length (cc_threads c) \<Longrightarrow> conc_next W ord i c = Some c' \<Longrightarrow> conc_step W ord c c'"

text \<open>Any run: threads step, and new calls arrive.\<close>

inductive conc_run :: "('w, 'x) store_ops_scheme \<Rightarrow> ((bytes \<times> cachedEntry) list \<Rightarrow> (bytes \<times> cachedEntry) list) \<Rightarrow>
    'w conc \<Rightarrow> 'w conc \<Rightarrow> bool" for W ord c where
  run_start: "conc_run W ord c c"
| run_call: "conc_run W ord c c1 \<Longrightarrow> conc_run W ord c (c1\<lparr>cc_threads := cc_threads c1 @ [Waiting_For call]\<rparr>)"
| run_step: "conc_run W ord c c1 \<Longrightarrow> conc_step W ord c1 c2 \<Longrightarrow> conc_run W ord c c2"

lemma conc_next_cases [consumes 1, case_names lock unlock body]:
  assumes "conc_next W ord i c = Some c'"
  obtains call mu where "cc_threads c ! i = Waiting_For call"
      "(if reading call then mu_RLock (cc_mu c) else mu_Lock (cc_mu c)) = Some mu"
      "c' = c\<lparr>cc_mu := mu, cc_threads := (cc_threads c)[i := Holding_Lock call (At_Begin call)]\<rparr>"
  | call r where "cc_threads c ! i = Holding_Lock call (Returning r)" "\<not> ret_blocked r"
      "c' = c\<lparr>cc_mu := (if reading call then mu_RUnlock (cc_mu c) else mu_Unlock (cc_mu c)),
              cc_threads := (cc_threads c)[i := Finished call r], cc_log := cc_log c @ [(i, call, r)]\<rparr>"
  | call fr s fr' where "cc_threads c ! i = Holding_Lock call fr" "\<not> returning fr"
      "body_step W ord fr (cc_store c) = (s, fr')"
      "c' = c\<lparr>cc_store := s, cc_threads := (cc_threads c)[i := Holding_Lock call fr']\<rparr>"
proof (cases "cc_threads c ! i")
  case (Waiting_For call)
  then show thesis using assms that(1) [of call] by (auto simp: conc_next_def)
next
  case (Holding_Lock call fr)
  show thesis
  proof (cases "returning fr")
    case True
    then obtain r where "fr = Returning r" by (cases fr) auto
    then show thesis using assms Holding_Lock that(2) [of call r] by (auto simp: conc_next_def split: if_splits)
  next
    case False
    obtain s fr' where "body_step W ord fr (cc_store c) = (s, fr')" by fastforce
    with False show thesis using assms Holding_Lock that(3) [of call fr s fr']
      by (cases fr) (auto simp: conc_next_def)
  qed
next
  case (Finished call r)
  then show thesis using assms by (simp add: conc_next_def)
qed

section \<open>Linearizability\<close>

text \<open>The threads that hold the mutex for reading and for writing.\<close>

fun holds :: "bool \<Rightarrow> thread \<Rightarrow> bool" where
  "holds rd (Holding_Lock call fr) \<longleftrightarrow> reading call = rd"
| "holds rd _ \<longleftrightarrow> False"

definition holders :: "bool \<Rightarrow> 'w conc \<Rightarrow> nat set" where
  "holders rd c = {i. i < length (cc_threads c) \<and> holds rd (cc_threads c ! i)}"

lemma finite_holders [simp]: "finite (holders rd c)"
  by (simp add: holders_def)

lemma holders_update:
  assumes "i < length (cc_threads c)" and "cc_threads c' = (cc_threads c)[i := t]"
  shows "holders rd c' = (if holds rd t then insert i (holders rd c) else holders rd c - {i})"
  using assms by (auto simp: holders_def nth_list_update split: if_splits)

lemma holders_call:
  "cc_threads c' = cc_threads c @ [Waiting_For call] \<Longrightarrow> holders rd c' = holders rd c"
  by (auto simp: holders_def nth_append less_Suc_eq)

definition mutex_inv :: "'w conc \<Rightarrow> bool" where
  "mutex_inv c \<longleftrightarrow> mu_readers (cc_mu c) = card (holders True c) \<and>
     (if mu_writer (cc_mu c) then holders True c = {} \<and> (\<exists>i. holders False c = {i}) else holders False c = {})"

definition log_calls :: "'w conc \<Rightarrow> fork_call list" where
  "log_calls c = map (\<lambda>(i, call, r). call) (cc_log c)"

definition log_rets :: "'w conc \<Rightarrow> fork_ret list" where
  "log_rets c = map (\<lambda>(i, call, r). r) (cc_log c)"

definition conc_inv :: "('w, 'x) store_ops_scheme \<Rightarrow> ((bytes \<times> cachedEntry) list \<Rightarrow> (bytes \<times> cachedEntry) list) \<Rightarrow>
    'w fork_store \<Rightarrow> 'w conc \<Rightarrow> bool" where
  "conc_inv W ord s0 c \<longleftrightarrow> mutex_inv c \<and>
     (let (s, rs) = serial_run W ord s0 (log_calls c) in
        rs = log_rets c \<and> (\<not> mu_writer (cc_mu c) \<longrightarrow> cc_store c = s) \<and>
        (\<forall>i call fr. i < length (cc_threads c) \<longrightarrow> cc_threads c ! i = Holding_Lock call fr \<longrightarrow>
           frame_reads fr = reading call \<and> body_result W ord fr (cc_store c) = call_run W ord s call)) \<and>
     distinct (map fst (cc_log c)) \<and>
     set (cc_log c) = {(i, call, r). i < length (cc_threads c) \<and> cc_threads c ! i = Finished call r}"

text \<open>Mutual exclusion.\<close>

lemma holders_thread: "cc_threads c ! i = t \<Longrightarrow> \<not> holds rd t \<Longrightarrow> i \<notin> holders rd c"
  by (auto simp: holders_def)

lemma holder_in: "i < length (cc_threads c) \<Longrightarrow> cc_threads c ! i = Holding_Lock call fr \<Longrightarrow> i \<in> holders (reading call) c"
  by (simp add: holders_def)

lemma mutex_next:
  assumes "mutex_inv c" and i: "i < length (cc_threads c)" and "conc_next W ord i c = Some c'"
  shows "mutex_inv c'"
  using assms(3)
proof (cases rule: conc_next_cases)
  case (lock call mu)
  have n: "i \<notin> holders rd c" for rd using lock(1) by (simp add: holders_def)
  have h: "holders rd c' = (if reading call = rd then insert i (holders rd c) else holders rd c - {i})" for rd
    using holders_update [OF i, of c' "Holding_Lock call (At_Begin call)"] lock(3) by simp
  show ?thesis
    using assms(1) lock(2,3) n h
    by (cases "reading call") (auto simp: mutex_inv_def mu_Lock_def mu_RLock_def split: if_splits)
next
  case (unlock call r)
  have m: "i \<in> holders (reading call) c" by (rule holder_in [OF i unlock(1)])
  have h: "holders rd c' = holders rd c - {i}" for rd
    using holders_update [OF i, of c' "Finished call r"] unlock(3) by simp
  have n: "i \<notin> holders (\<not> reading call) c" using unlock(1) by (simp add: holders_def)
  show ?thesis
    using assms(1) unlock(3) m n h
    by (cases "reading call") (auto simp: mutex_inv_def mu_Unlock_def mu_RUnlock_def split: if_splits)
next
  case (body call fr s fr')
  have "holders rd c' = holders rd c" for rd
    using holders_update [OF i, of c' "Holding_Lock call fr'"] body(1,4) holder_in [OF i body(1)]
      holders_thread [of c i _ rd] by (cases "reading call = rd") auto
  then show ?thesis using assms(1) body(4) by (simp add: mutex_inv_def)
qed

lemma mutex_excludes:
  assumes "mutex_inv c" and "i < length (cc_threads c)" and "j < length (cc_threads c)"
    and "cc_threads c ! i = Holding_Lock call fr" and "cc_threads c ! j = Holding_Lock call' fr'"
    and "\<not> reading call"
  shows "j = i" and "mu_writer (cc_mu c)"
proof -
  have i: "i \<in> holders False c" using holder_in [OF assms(2,4)] assms(6) by simp
  have j: "j \<in> holders True c \<or> j \<in> holders False c" using holder_in [OF assms(3,5)] by (cases "reading call'") auto
  show "mu_writer (cc_mu c)" using assms(1) i by (auto simp: mutex_inv_def split: if_splits)
  then show "j = i" using assms(1) i j by (auto simp: mutex_inv_def)
qed

lemma mutex_reader:
  assumes "mutex_inv c" and "i < length (cc_threads c)" and "cc_threads c ! i = Holding_Lock call fr" and "reading call"
  shows "\<not> mu_writer (cc_mu c)"
  using assms(1) holder_in [OF assms(2,3)] assms(4) by (auto simp: mutex_inv_def)

text \<open>The parts of the invariant.\<close>

lemma conc_invD:
  assumes "conc_inv W ord s0 c" and "serial_run W ord s0 (log_calls c) = (s, rs)"
  shows "mutex_inv c" and "rs = log_rets c" and "\<not> mu_writer (cc_mu c) \<Longrightarrow> cc_store c = s"
    and "i < length (cc_threads c) \<Longrightarrow> cc_threads c ! i = Holding_Lock call fr \<Longrightarrow>
      frame_reads fr = reading call \<and> body_result W ord fr (cc_store c) = call_run W ord s call"
    and "distinct (map fst (cc_log c))"
    and "set (cc_log c) = {(i, call, r). i < length (cc_threads c) \<and> cc_threads c ! i = Finished call r}"
  using assms by (auto simp: conc_inv_def)

lemma conc_start_inv: "conc_inv W ord s0 (conc_start s0)"
  by (auto simp: conc_inv_def conc_start_def mutex_inv_def holders_def log_calls_def log_rets_def)

lemma conc_call_inv:
  assumes "conc_inv W ord s0 c"
  shows "conc_inv W ord s0 (c\<lparr>cc_threads := cc_threads c @ [Waiting_For call]\<rparr>)"
proof -
  have h: "holders rd (c\<lparr>cc_threads := cc_threads c @ [Waiting_For call]\<rparr>) = holders rd c" for rd
    by (rule holders_call) simp
  have "conc_inv W ord s0 c \<longleftrightarrow> conc_inv W ord s0 (c\<lparr>cc_threads := cc_threads c @ [Waiting_For call]\<rparr>)"
    by (auto simp: conc_inv_def mutex_inv_def log_calls_def log_rets_def h nth_append less_Suc_eq split: if_splits)
  with assms show ?thesis by simp
qed

lemma finished_update:
  "i < length ts \<Longrightarrow> ts ! i = t0 \<Longrightarrow> \<forall>call r. t0 \<noteq> Finished call r \<Longrightarrow>
   {(j, call, r). j < length (ts[i := t]) \<and> ts[i := t] ! j = Finished call r} =
     {(j, call, r). j < length ts \<and> ts ! j = Finished call r} \<union> {(j, call, r). j = i \<and> t = Finished call r}"
  by (auto simp: nth_list_update split: if_splits)

lemma conc_next_inv:
  assumes inv: "conc_inv W ord s0 c" and i: "i < length (cc_threads c)" and next_: "conc_next W ord i c = Some c'"
  shows "conc_inv W ord s0 c'"
proof -
  obtain s rs where run: "serial_run W ord s0 (log_calls c) = (s, rs)" by fastforce
  note D = conc_invD [OF inv run]
  have m: "mutex_inv c'" by (rule mutex_next [OF D(1) i next_])
  from next_ show ?thesis
  proof (cases rule: conc_next_cases)
    case (lock call mu)
    have s: "cc_store c = s"
      using lock(2) D(3) by (auto simp: mu_Lock_def mu_RLock_def split: if_splits)
    have l: "cc_log c' = cc_log c" "cc_store c' = cc_store c"
      and t: "cc_threads c' = (cc_threads c)[i := Holding_Lock call (At_Begin call)]" using lock(3) by simp_all
    show ?thesis
      using i m run D(2,4,5) s D(6) finished_update [OF i lock(1)]
      unfolding conc_inv_def log_calls_def log_rets_def l t by (auto simp: nth_list_update)
  next
    case (unlock call r)
    have b: "(cc_store c, r) = call_run W ord s call" using D(4) [OF i unlock(1)] by simp
    have o: "\<not> mu_writer (cc_mu c)" if "reading call" by (rule mutex_reader [OF D(1) i unlock(1) that])
    have s1: "call_run W ord s call = (s, r)" if "reading call"
      using b D(3) [OF o [OF that]] by simp
    have others: "reading call" if "j < length (cc_threads c)" "cc_threads c ! j = Holding_Lock call' fr'" "j \<noteq> i" for j call' fr'
      using mutex_excludes(1) [OF D(1) i that(1) unlock(1) that(2)] that(3) by blast
    have l: "cc_log c' = cc_log c @ [(i, call, r)]" "cc_store c' = cc_store c"
      and t: "cc_threads c' = (cc_threads c)[i := Finished call r]" using unlock(3) by simp_all
    have run': "serial_run W ord s0 (log_calls c @ [call]) = (cc_store c, rs @ [r])"
      by (simp add: serial_run_append run b [symmetric])
    have fresh: "i \<notin> fst ` set (cc_log c)" using D(6) unlock(1) by auto
    have H: "frame_reads fr' = reading call' \<and> body_result W ord fr' (cc_store c) = call_run W ord (cc_store c) call'"
      if "j < length (cc_threads c)" "cc_threads c ! j = Holding_Lock call' fr'" "j \<noteq> i" for j call' fr'
      using D(4) [OF that(1,2)] D(3) [OF o [OF others [OF that]]] by simp
    show ?thesis
      using i m run' D(2,5) fresh D(6) finished_update [OF i unlock(1), of "Finished call r"] H
      unfolding conc_inv_def log_calls_def log_rets_def l t by (auto simp: nth_list_update)
  next
    case (body call fr s1 fr')
    have f: "frame_reads fr = reading call" and b: "body_result W ord fr (cc_store c) = call_run W ord s call"
      using D(4) [OF i body(1)] by simp_all
    have b': "frame_reads fr' = reading call \<and> body_result W ord fr' s1 = call_run W ord s call"
      using body_step_result [OF body(2,3)] b f body_step_reads(2) [OF _ body(3)] body_step_writes [OF _ body(3)]
      by (cases "reading call") auto
    have st: "s1 = cc_store c" if "reading call" using body_step_reads(1) [OF _ body(3)] f that by simp
    have l: "cc_log c' = cc_log c" "cc_store c' = s1" "cc_mu c' = cc_mu c"
      and t: "cc_threads c' = (cc_threads c)[i := Holding_Lock call fr']" using body(4) by simp_all
    have H: "frame_reads fr2 = reading call2 \<and> body_result W ord fr2 s1 = call_run W ord s call2"
      if "j < length (cc_threads c)" "cc_threads c ! j = Holding_Lock call2 fr2" "j \<noteq> i" for j call2 fr2
      using D(4) [OF that(1,2)] st mutex_excludes(1) [OF D(1) i that(1) body(1) that(2)] that(3) by (cases "reading call") auto
    have s: "s1 = s" if "\<not> mu_writer (cc_mu c)"
      using st D(3) [OF that] mutex_excludes(2) [OF D(1) i i body(1,1)] that by auto
    show ?thesis
      using i m run D(2,5) D(6) finished_update [OF i body(1)] H b' s
      unfolding conc_inv_def log_calls_def log_rets_def l t by (auto simp: nth_list_update)
  qed
qed

lemma conc_run_inv:
  "conc_run W ord (conc_start s0) c \<Longrightarrow> conc_inv W ord s0 c"
  by (induction rule: conc_run.induct)
    (auto intro: conc_start_inv conc_call_inv conc_next_inv elim!: conc_step.cases)

text \<open>The log only grows, and a call that has not arrived yet is not in it.\<close>

lemma conc_next_log:
  "conc_next W ord i c = Some c' \<Longrightarrow>
   (\<exists>zs. cc_log c' = cc_log c @ zs) \<and> length (cc_threads c') = length (cc_threads c)"
  by (elim conc_next_cases) auto

lemma conc_run_log:
  "conc_run W ord c c' \<Longrightarrow> (\<exists>zs. cc_log c' = cc_log c @ zs) \<and> length (cc_threads c) \<le> length (cc_threads c')"
proof (induction rule: conc_run.induct)
  case (run_step c1 c2)
  then obtain i where "conc_next W ord i c1 = Some c2" by (auto elim: conc_step.cases)
  from conc_next_log [OF this] run_step.IH show ?case by auto
qed auto

lemma conc_run_trans: "conc_run W ord a b \<Longrightarrow> conc_run W ord b c \<Longrightarrow> conc_run W ord a c"
proof (rotate_tac 1, induction rule: conc_run.induct)
  case (run_step c1 c2)
  then show ?case by (blast intro: conc_run.run_step)
qed (auto intro: conc_run.intros)

section \<open>Progress\<close>

text \<open>A run of the threads ends: fewer threads are waiting or holding, or a body is nearer its end.\<close>

fun frame_work :: "((bytes \<times> cachedEntry) list \<Rightarrow> (bytes \<times> cachedEntry) list) \<Rightarrow> 'w fork_store \<Rightarrow> frame \<Rightarrow> nat" where
  "frame_work ord s (At_Begin (Call_SetAll es ine b)) = length es + 5"
| "frame_work ord s (At_Begin (Call_Get req)) = length (GetRequest_Keys req) + 2"
| "frame_work ord s (At_Begin (Call_GetFirst req)) = length (GetRequest_Keys req) + 2"
| "frame_work ord s (At_Begin (Call_FlushUpToBlock n ine)) = length (ord (fs_cache s)) + 4"
| "frame_work ord s (At_Begin (Call_EvictUpToBlock n)) = length (fs_cache s) + 2"
| "frame_work ord s (SetAll_Candidates es ine b) = length es + 4"
| "frame_work ord s (SetAll_Caching rest es ine b) = length rest + 3"
| "frame_work ord s (SetAll_Writing es ine b) = 2"
| "frame_work ord s (Read_Overlay resp b i keys) = length keys + 1"
| "frame_work ord s (Flush_Collecting n ine) = length (ord (fs_cache s)) + 3"
| "frame_work ord s (Flush_Writing es n ine) = length es + 2"
| "frame_work ord s (Cache_Deleting keys) = length keys + 1"
| "frame_work ord s (Returning r) = 0"

lemma fork_candidates_length: "fork_candidates cache ine es = Inr r \<Longrightarrow> length r \<le> length es"
proof (induction es arbitrary: r)
  case (Cons e es)
  then show ?case by (cases ine) (force simp: res_simps le_Suc_eq split: if_splits)+
qed simp

lemma fork_filter_found_length: "fork_filter_found qs es = Inr r \<Longrightarrow> length r \<le> length es"
proof (induction qs es arbitrary: r rule: fork_filter_found.induct)
  case (3 q qs es)
  show ?case
  proof (cases "QueriedEntry_Code q \<noteq> RESPONSE_CODE_FOUND")
    case True
    then show ?thesis using "3.prems" by (cases es) (auto simp: res_simps dest!: "3.IH"(1) [OF True])
  next
    case False
    then have "length r \<le> length (tl es)" using "3.IH"(2) "3.prems" by simp
    then show ?thesis by simp
  qed
qed auto

lemma fork_existing_length: "fork_existing W w b es = Inr r \<Longrightarrow> length r \<le> length es"
  by (auto simp: fork_existing_def Let_def split: sum.splits option.splits dest: fork_filter_found_length)

lemma body_step_work:
  "\<not> returning fr \<Longrightarrow> body_step W ord fr s = (s', fr') \<Longrightarrow> frame_work ord s' fr' < frame_work ord s fr"
  by (induction W ord fr s rule: body_step.induct)
    (auto split: sum.splits prod.splits if_splits dest!: fork_candidates_length fork_existing_length
      simp: le_imp_less_Suc less_Suc_eq_le)

fun thread_rank :: "thread \<Rightarrow> nat" where
  "thread_rank (Waiting_For call) = 2"
| "thread_rank (Holding_Lock call fr) = 1"
| "thread_rank (Finished call r) = 0"

fun thread_work :: "((bytes \<times> cachedEntry) list \<Rightarrow> (bytes \<times> cachedEntry) list) \<Rightarrow> 'w fork_store \<Rightarrow> thread \<Rightarrow> nat" where
  "thread_work ord s (Holding_Lock call fr) = frame_work ord s fr"
| "thread_work ord s _ = 0"

definition conc_rank :: "'w conc \<Rightarrow> nat" where
  "conc_rank c = (\<Sum>i<length (cc_threads c). thread_rank (cc_threads c ! i))"

definition conc_work :: "((bytes \<times> cachedEntry) list \<Rightarrow> (bytes \<times> cachedEntry) list) \<Rightarrow> 'w conc \<Rightarrow> nat" where
  "conc_work ord c = (\<Sum>i<length (cc_threads c). thread_work ord (cc_store c) (cc_threads c ! i))"

lemma sum_update_less:
  fixes f g :: "thread \<Rightarrow> nat"
  assumes "i < length ts" and "f t < g (ts ! i)" and "\<And>j. j < length ts \<Longrightarrow> j \<noteq> i \<Longrightarrow> f (ts ! j) \<le> g (ts ! j)"
  shows "(\<Sum>j<length ts. f (ts[i := t] ! j)) < (\<Sum>j<length ts. g (ts ! j))"
  using assms by (intro sum_strict_mono_ex1) (auto simp: nth_list_update)

lemma conc_step_work:
  assumes "mutex_inv c" and "conc_inv W ord s0 c" and "conc_step W ord c c'"
  shows "conc_rank c' < conc_rank c \<or> conc_rank c' = conc_rank c \<and> conc_work ord c' < conc_work ord c"
proof -
  obtain i where i: "i < length (cc_threads c)" and n: "conc_next W ord i c = Some c'"
    using assms(3) by (auto elim: conc_step.cases)
  from n show ?thesis
  proof (cases rule: conc_next_cases)
    case (lock call mu)
    then show ?thesis using sum_update_less [OF i, of thread_rank _ thread_rank] by (simp add: conc_rank_def)
  next
    case (unlock call r)
    then show ?thesis using sum_update_less [OF i, of thread_rank _ thread_rank] by (simp add: conc_rank_def)
  next
    case (body call fr s fr')
    obtain s1 rs where run: "serial_run W ord s0 (log_calls c) = (s1, rs)" by fastforce
    have f: "frame_reads fr = reading call" using conc_invD(4) [OF assms(2) run i body(1)] by simp
    have "thread_work ord s (cc_threads c ! j) \<le> thread_work ord (cc_store c) (cc_threads c ! j)"
      if j: "j < length (cc_threads c)" "j \<noteq> i" for j
    proof (cases "cc_threads c ! j")
      case (Holding_Lock call' fr2)
      then have "reading call" using mutex_excludes(1) [OF assms(1) i j(1) body(1)] j(2) by blast
      then show ?thesis using body_step_reads(1) [OF _ body(3)] f by simp
    qed simp_all
    then have "conc_work ord c' < conc_work ord c"
      using sum_update_less [OF i, of "thread_work ord s" "Holding_Lock call fr'" "thread_work ord (cc_store c)"]
        body(1,4) body_step_work [OF body(2,3)] by (simp add: conc_work_def)
    moreover have "conc_rank c' = conc_rank c"
      using body(1,4) by (auto simp: conc_rank_def nth_list_update i intro!: sum.cong)
    ultimately show ?thesis by simp
  qed
qed

lemma conc_steps_wf: "wf {(c2, c1). conc_run W ord (conc_start s0) c1 \<and> conc_step W ord c1 c2}"
proof (rule wf_subset)
  show "wf (measures [conc_rank, conc_work ord])" by simp
  show "{(c2, c1). conc_run W ord (conc_start s0) c1 \<and> conc_step W ord c1 c2} \<subseteq> measures [conc_rank, conc_work ord]"
  proof (clarify)
    fix c1 c2 assume "conc_run W ord (conc_start s0) c1" and step: "conc_step W ord c1 c2"
    then have inv: "conc_inv W ord s0 c1" by (intro conc_run_inv)
    then have "mutex_inv c1" by (simp add: conc_inv_def)
    from conc_step_work [OF this inv step] show "(c2, c1) \<in> measures [conc_rank, conc_work ord]" by auto
  qed
qed

text \<open>A state in which no thread can step: every call has returned, or one hangs in the backend.\<close>

lemma conc_stuck:
  assumes "mutex_inv c" and "\<nexists>c'. conc_step W ord c c'" and i: "i < length (cc_threads c)"
    and "\<And>call r. cc_threads c ! i \<noteq> Finished call r"
  shows "\<exists>j call r. j < length (cc_threads c) \<and> cc_threads c ! j = Holding_Lock call (Returning r) \<and> ret_blocked r"
proof -
  have none: "conc_next W ord j c = None" if "j < length (cc_threads c)" for j
    using assms(2) conc_step.intros [OF that] by (cases "conc_next W ord j c") auto
  have hung: "\<exists>r. fr = Returning r \<and> ret_blocked r"
    if "j < length (cc_threads c)" "cc_threads c ! j = Holding_Lock call fr" for j call fr
    using none [OF that(1)] that(2) by (cases fr) (auto simp: conc_next_def split: prod.splits if_splits)
  show ?thesis
  proof (cases "\<exists>j call fr. j < length (cc_threads c) \<and> cc_threads c ! j = Holding_Lock call fr")
    case True
    then show ?thesis using hung by blast
  next
    case False
    have "\<not> holds rd (cc_threads c ! j)" if "j < length (cc_threads c)" for rd j
      using False that by (cases "cc_threads c ! j") auto
    then have h: "holders rd c = {}" for rd by (auto simp: holders_def)
    then have free: "\<not> mu_writer (cc_mu c)" "mu_readers (cc_mu c) = 0"
      using assms(1) by (auto simp: mutex_inv_def split: if_splits)
    obtain call where "cc_threads c ! i = Waiting_For call"
      using assms(4) False i by (cases "cc_threads c ! i") auto
    then show ?thesis using none [OF i] free by (auto simp: conc_next_def mu_Lock_def mu_RLock_def split: if_splits)
  qed
qed

text \<open>A call that hangs keeps the mutex, so that no writer takes it again.\<close>

lemma conc_step_hung:
  assumes inv: "mutex_inv c" and step: "conc_step W ord c c'"
    and i: "i < length (cc_threads c)" "cc_threads c ! i = Holding_Lock call (Returning r)" "ret_blocked r"
    and j: "j < length (cc_threads c)" "cc_threads c ! j = Waiting_For call'" "\<not> reading call'"
  shows "cc_threads c' ! i = Holding_Lock call (Returning r) \<and> cc_threads c' ! j = Waiting_For call' \<and>
    length (cc_threads c') = length (cc_threads c) \<and> mutex_inv c'"
proof -
  obtain k where k: "k < length (cc_threads c)" and n: "conc_next W ord k c = Some c'"
    using step by (auto elim: conc_step.cases)
  have m: "mutex_inv c'" by (rule mutex_next [OF inv k n])
  have "mu_Lock (cc_mu c) = None"
  proof (cases "reading call")
    case True
    then have "card (holders True c) \<noteq> 0" using holder_in [OF i(1,2)] by auto
    then show ?thesis using inv by (simp add: mutex_inv_def mu_Lock_def)
  next
    case False
    then show ?thesis using mutex_excludes(2) [OF inv i(1,1) i(2,2)] by (simp add: mu_Lock_def)
  qed
  then have "k \<noteq> j" "k \<noteq> i" using n i j by (auto simp: conc_next_def)
  with n show ?thesis by (cases rule: conc_next_cases) (use m i j in simp_all)
qed

end
