(* ===== verification/Concurrent_Properties.thy ===== *)
theory Concurrent_Properties
  imports Fork_Concurrent
begin

text \<open>
  The properties of the fork-aware store under concurrent calls: its runs are those of the
  methods as single steps, its reads answer with the chain at the moment that they take
  effect, every call returns unless the backend hangs, and a call that hangs stops the
  writers.
\<close>

section \<open>Calls in the order of their unlocks\<close>

fun call_ops :: "fork_call \<Rightarrow> fork_op list" where
  "call_ops (Call_SetAll es ine b) = [SetAllOp es ine b]"
| "call_ops (Call_FlushUpToBlock n ine) = [FlushOp n ine]"
| "call_ops (Call_EvictUpToBlock n) = [EvictOp n]"
| "call_ops _ = []"

lemma call_run_ops:
  "fst (call_run W ord s call) = (case call_ops call of [] \<Rightarrow> s | op # _ \<Rightarrow> fst (fork_step W ord op s))"
  by (cases call) simp_all

lemma serial_run_snoc:
  assumes "serial_run W ord s0 (xs @ call # ys) = (s, rs @ r # rs')" and "length rs = length xs"
  shows "r = snd (call_run W ord (fst (serial_run W ord s0 xs)) call)"
proof -
  obtain s1 rs1 where 1: "serial_run W ord s0 xs = (s1, rs1)" by fastforce
  then have "length rs1 = length rs" using length_serial_run [of W ord s0 xs] assms(2) by simp
  then show ?thesis
    using assms(1) by (auto simp: serial_run_append 1 map_prod_def split: prod.splits)
qed

context reliable_kv_store
begin

lemma serial_represents:
  assumes "represents user_key vers s A" and "ok (fs_wrapped s)" and "map_order ord"
    and "spec_allows_run user_key (concat (map call_ops calls)) A"
  shows "represents user_key vers (fst (serial_run W ord s calls)) (spec_run (concat (map call_ops calls)) A) \<and>
    ok (fs_wrapped (fst (serial_run W ord s calls)))"
  using assms(1,2,4)
proof (induction calls arbitrary: s A)
  case (Cons call calls)
  have f: "fst (serial_run W ord s (call # calls)) = fst (serial_run W ord (fst (call_run W ord s call)) calls)"
    by (simp split: prod.split)
  show ?case
  proof (cases "call_ops call")
    case Nil
    then show ?thesis using Cons unfolding f by (simp add: call_run_ops)
  next
    case (Cons op ops)
    then have op: "call_ops call = [op]" by (cases call) auto
    then have a: "spec_allows user_key op A" using Cons.prems(3) by simp
    obtain s' where "fork_step W ord op s = (s', Inr ())" "represents user_key vers s' (spec_step op A)" "ok (fs_wrapped s')"
      by (rule fork_step_returns [OF Cons.prems(1,2) assms(3) a])
    then show ?thesis
      using Cons.IH [of s' "spec_step op A"] Cons.prems(3) unfolding f by (simp add: call_run_ops op)
  qed
qed simp

end

section \<open>Runs for the witnesses\<close>

text \<open>A run given by the thread that steps.\<close>

fun conc_exec :: "('w, 'x) store_ops_scheme \<Rightarrow> ((bytes \<times> cachedEntry) list \<Rightarrow> (bytes \<times> cachedEntry) list) \<Rightarrow>
    nat list \<Rightarrow> 'w conc \<Rightarrow> 'w conc option" where
  "conc_exec W ord [] c = Some c"
| "conc_exec W ord (i # is) c =
     (if i < length (cc_threads c) then Option.bind (conc_next W ord i c) (conc_exec W ord is) else None)"

fun conc_calls :: "fork_call list \<Rightarrow> 'w conc \<Rightarrow> 'w conc" where
  "conc_calls [] c = c"
| "conc_calls (call # calls) c = conc_calls calls (c\<lparr>cc_threads := cc_threads c @ [Waiting_For call]\<rparr>)"

lemma conc_exec_run: "conc_exec W ord is c = Some c' \<Longrightarrow> conc_run W ord c0 c \<Longrightarrow> conc_run W ord c0 c'"
proof (induction "is" arbitrary: c)
  case (Cons i "is")
  then obtain c1 where i: "i < length (cc_threads c)" and c1: "conc_next W ord i c = Some c1"
    and r: "conc_exec W ord is c1 = Some c'"
    by (auto split: if_splits bind_splits)
  from conc_run.run_step [OF Cons.prems(2) conc_step.intros [OF i c1]] show ?case by (rule Cons.IH [OF r])
qed simp

lemma conc_calls_run: "conc_run W ord c0 c \<Longrightarrow> conc_run W ord c0 (conc_calls calls c)"
  by (induction calls arbitrary: c) (auto intro: conc_run.run_call)

text \<open>
  A write of block 5 and a read at block 6 that arrive together: the write takes the mutex
  first, the read has to wait for it.
\<close>

definition sample_calls :: "fork_call list" where
  "sample_calls = [Call_SetAll [sample_entry 7] False 5, Call_Get (sample_request 6)]"

definition sample_conc :: "mem_db tt_store conc" where
  "sample_conc = conc_calls sample_calls (conc_start (fork_NewStore mem_tt_store))"

lemma sample_conc_run: "conc_exec mem_tt_ops rev is sample_conc = Some c \<Longrightarrow>
  conc_run mem_tt_ops rev (conc_start (fork_NewStore mem_tt_store)) c"
  unfolding sample_conc_def by (rule conc_exec_run, assumption, rule conc_calls_run, rule conc_run.run_start)

lemma sample_steps:
  "\<exists>c r. conc_exec mem_tt_ops rev [0, 0, 0, 0, 0, 0, 0, 1, 1, 1, 1, 1] sample_conc = Some c \<and>
     cc_log c = [(0, Call_SetAll [sample_entry 7] False 5, Ret_Error (Inr ())),
                 (1, Call_Get (sample_request 6), Ret_Response (Inr r))]"
proof -
  have g: "op_Get mem_tt_ops mem_tt_store (sample_request 6) =
      Inr (read_response (tt_typeUrl mem_tt_store) (tt_vers map_of mem_tt_store) 6 [sample_key])"
    using reliable_kv_store.get_eq [OF mem_tt_contract mem_tt_store_ok, of "sample_request 6" "[sample_key]"] by simp
  have k: "entry_key_bytes (sample_entry 7) = Inr [1]" "key_bytes (Some sample_key) = Inr [1]"
    by (simp_all add: sample_entry_def mk_entry_def sample_key_def)
  show ?thesis
    by (simp add: k sample_conc_def sample_calls_def conc_start_def conc_next_def mu_Lock_def mu_RLock_def
        mu_Unlock_def mu_RUnlock_def fork_NewStore_def g read_response_def response_def)
qed

section \<open>The properties\<close>

text \<open>C3: concurrent calls are linearizable.  In every interleaving that the mutex admits, the calls
  that have returned have answered exactly what they answer when they run one after another as
  single steps, in the order of their unlocks; and whenever no writer holds the mutex the store is
  the one that this serial run leaves.\<close>

theorem fork_calls_linearize:
  assumes "conc_run W ord (conc_start s0) c"
  shows "snd (serial_run W ord s0 (log_calls c)) = log_rets c \<and>
    (\<not> mu_writer (cc_mu c) \<longrightarrow> cc_store c = fst (serial_run W ord s0 (log_calls c))) \<and>
    distinct (map fst (cc_log c)) \<and>
    set (cc_log c) = {(i, call, r). i < length (cc_threads c) \<and> cc_threads c ! i = Finished call r}"
  using conc_invD [OF conc_run_inv [OF assms]] by (cases "serial_run W ord s0 (log_calls c)") auto

theorem fork_calls_linearize_witness:
  "\<exists>c r. conc_run mem_tt_ops rev (conc_start (fork_NewStore mem_tt_store)) c \<and>
     snd (serial_run mem_tt_ops rev (fork_NewStore mem_tt_store) sample_calls) =
       [Ret_Error (Inr ()), Ret_Response (Inr r)]"
proof -
  obtain c r where c: "conc_exec mem_tt_ops rev [0, 0, 0, 0, 0, 0, 0, 1, 1, 1, 1, 1] sample_conc = Some c"
    and l: "cc_log c = [(0, Call_SetAll [sample_entry 7] False 5, Ret_Error (Inr ())),
                 (1, Call_Get (sample_request 6), Ret_Response (Inr r))]"
    using sample_steps by blast
  show ?thesis
    using fork_calls_linearize [OF sample_conc_run [OF c]] sample_conc_run [OF c]
    unfolding log_calls_def log_rets_def l sample_calls_def by auto
qed

text \<open>The order of the linearization is the order of real time: a call that had returned when
  another arrived comes before it.\<close>

theorem fork_calls_real_time:
  assumes "conc_run W ord (conc_start s0) c" and "conc_run W ord c c'"
    and "i < length (cc_threads c)" and "cc_threads c ! i = Finished call r"
    and "length (cc_threads c) \<le> j" and "j < length (cc_threads c')" and "cc_threads c' ! j = Finished call' r'"
  shows "\<exists>xs ys zs. cc_log c' = xs @ (i, call, r) # ys @ (j, call', r') # zs"
proof -
  have L: "set (cc_log d) = {(i, call, r). i < length (cc_threads d) \<and> cc_threads d ! i = Finished call r}"
    if "conc_run W ord (conc_start s0) d" for d
    using conc_run_inv [OF that] by (auto simp: conc_inv_def)
  obtain zs where zs: "cc_log c' = cc_log c @ zs" using conc_run_log [OF assms(2)] by blast
  have "(i, call, r) \<in> set (cc_log c)" using L [OF assms(1)] assms(3,4) by simp
  then obtain xs ys where 1: "cc_log c = xs @ (i, call, r) # ys" by (meson split_list)
  have "(j, call', r') \<in> set (cc_log c')" using L [OF conc_run_trans [OF assms(1,2)]] assms(6,7) by simp
  moreover have "(j, call', r') \<notin> set (cc_log c)" using L [OF assms(1)] assms(5) by auto
  ultimately have "(j, call', r') \<in> set zs" using zs by auto
  then obtain us vs where 2: "zs = us @ (j, call', r') # vs" by (meson split_list)
  show ?thesis
    by (rule exI [of _ xs], rule exI [of _ "ys @ us"], rule exI [of _ vs]) (simp add: zs 1 2)
qed

theorem fork_calls_real_time_witness:
  "\<exists>c xs ys zs r1 r2. conc_run mem_tt_ops rev (conc_start (fork_NewStore mem_tt_store)) c \<and>
     cc_log c = xs @ (0, Call_EvictUpToBlock 9, r1) # ys @ (1, Call_EvictUpToBlock 8, r2) # zs"
proof -
  let ?s = "conc_start (fork_NewStore mem_tt_store)"
  let ?c0 = "conc_calls [Call_EvictUpToBlock 9] ?s"
  note ev = conc_start_def conc_next_def mu_Lock_def mu_Unlock_def fork_NewStore_def
  obtain c where c: "conc_exec mem_tt_ops rev [0, 0, 0, 0] ?c0 = Some c"
    and t: "cc_threads c = [Finished (Call_EvictUpToBlock 9) (Ret_Error (Inr ()))]"
    by (simp add: ev)
  obtain c' where c': "conc_exec mem_tt_ops rev [1, 1, 1, 1] (conc_calls [Call_EvictUpToBlock 8] c) = Some c'"
    and t': "cc_threads c' ! 1 = Finished (Call_EvictUpToBlock 8) (Ret_Error (Inr ()))" "length (cc_threads c') = 2"
    using c by (simp add: ev) (auto simp: ev)
  have r: "conc_run mem_tt_ops rev ?s c"
    by (rule conc_exec_run [OF c]) (intro conc_calls_run conc_run.run_start)
  have r': "conc_run mem_tt_ops rev c c'"
    by (rule conc_exec_run [OF c']) (intro conc_calls_run conc_run.run_start)
  have "\<exists>xs ys zs. cc_log c' = xs @ (0, Call_EvictUpToBlock 9, Ret_Error (Inr ())) # ys @
      (1, Call_EvictUpToBlock 8, Ret_Error (Inr ())) # zs"
    by (rule fork_calls_real_time [OF r r']) (use t t' in simp_all)
  then show ?thesis using conc_run_trans [OF r r'] by blast
qed



text \<open>C22: the calls come to an end.  From any moment on the threads cannot step for ever, and when none
  can step every call has returned, unless one hangs in a call of the backend that never answers:
  no interleaving deadlocks on the mutex.\<close>

theorem concurrent_calls_end:
  assumes "conc_run W ord (conc_start s0) c"
  shows "wf {(c2, c1). conc_run W ord c c1 \<and> conc_step W ord c1 c2} \<and>
    ((\<exists>c'. conc_step W ord c c') \<or>
     (\<forall>i<length (cc_threads c). \<exists>call r. cc_threads c ! i = Finished call r) \<or>
     (\<exists>i<length (cc_threads c). \<exists>call r. cc_threads c ! i = Holding_Lock call (Returning r) \<and> ret_blocked r))"
proof
  show "wf {(c2, c1). conc_run W ord c c1 \<and> conc_step W ord c1 c2}"
    by (rule wf_subset [OF conc_steps_wf]) (use conc_run_trans [OF assms] in blast)
  have "mutex_inv c" using conc_run_inv [OF assms] by (simp add: conc_inv_def)
  from conc_stuck [OF this] show "(\<exists>c'. conc_step W ord c c') \<or>
     (\<forall>i<length (cc_threads c). \<exists>call r. cc_threads c ! i = Finished call r) \<or>
     (\<exists>i<length (cc_threads c). \<exists>call r. cc_threads c ! i = Holding_Lock call (Returning r) \<and> ret_blocked r)"
    by blast
qed

theorem concurrent_calls_end_witness: "\<exists>c'. conc_step mem_tt_ops rev sample_conc c'"
proof -
  have "conc_run mem_tt_ops rev (conc_start (fork_NewStore mem_tt_store)) sample_conc"
    by (rule sample_conc_run [of "[]"]) simp
  from concurrent_calls_end [OF this] show ?thesis
    by (auto simp: sample_conc_def sample_calls_def conc_start_def less_Suc_eq)
qed



end
