(* ===== verification/Service_Concurrent.thy ===== *)
theory Service_Concurrent
  imports Grpc_Properties Concurrent_Properties
begin

text \<open>
  A read request while the sink processes signals.  The handler of \<open>grpc/server.go\<close> asks for
  the readiness, for the head block, and then the store, and the goroutine of the sink runs
  in between: the three questions are asked in three states of the process.
\<close>

definition grpc_Get_from :: "('w, 'd) GrpcServer \<Rightarrow> 'w \<Rightarrow> 'w \<Rightarrow> 'w \<Rightarrow> GetRequest \<Rightarrow> GetResponse res" where
  "grpc_Get_from S w_ready w_head w_store req =
     bind_res (grpc_checkReady S w_ready) (\<lambda>ready.
       if \<not> ready then Inr not_reached
       else if gs_headBlockFetcher S w_head < GetRequest_BlockNumber req then Inr not_reached
       else bind_res (wrap_res ''getting keys from store'' (op_Get (gs_store S) w_store req)) (\<lambda>r.
         case GetResponse_Entries r of
           None \<Rightarrow> nil_deref
         | Some entries \<Rightarrow>
             bind_res (found_keys (QueriedEntries_Entries entries)) (\<lambda>foundKeyCount.
               Inr (r\<lparr>GetResponse_BlockReached := True\<rparr>))))"

lemma grpc_Get_from_same: "grpc_Get_from S w w w req = grpc_Get S w req"
  by (simp only: grpc_Get_from_def grpc_Get_def)

text \<open>The answer when the head block and the store are asked in two states.\<close>

lemma read_from_two_states:
  fixes s1 s2 :: "('w fork_store, 'c, 'fs) sinker"
  assumes "reliable_kv_store W vers turl ok U put" and "fork_inv U (sk_store s2)" and "ok (fs_wrapped (sk_store s2))"
    and "GetRequest_Keys req = map Some ks" and "\<forall>k\<in>set ks. U (Key_Bytes k)"
    and "GetRequest_BlockNumber req \<le> HeadBlock s1"
  shows "grpc_Get_from (sink_server (fork_ops W cord) :: (_, 'd) GrpcServer) s1 s1 s2 req =
    Inr (response (map (\<lambda>k. Some (fork_answer turl vers (sk_store s2) (GetRequest_BlockNumber req) k)) ks))"
proof -
  let ?S = "sink_server (fork_ops W cord) :: (_, 'd) GrpcServer" and ?s = "s2\<lparr>sk_headBlock := sk_headBlock s1\<rparr>"
  have i: "fork_inv U (sk_store ?s)" "ok (fs_wrapped (sk_store ?s))" using assms(2,3) by simp_all
  have "grpc_Get_from ?S s1 s1 s2 req = grpc_Get ?S ?s req"
    by (simp add: grpc_Get_from_def grpc_Get_def sink_server_def sink_store_ops_def NewStoreServer_def
        grpc_checkReady_def HeadBlock_def)
  also have "\<dots> = Inr (response (map (\<lambda>k. Some (fork_answer turl vers (sk_store s2) (GetRequest_BlockNumber req) k)) ks))"
    using reliable_kv_store.sink_server_response [OF assms(1) i assms(4,5), of cord] assms(6)
    by (simp add: HeadBlock_def leD)
  finally show ?thesis .
qed

section \<open>Blocks in between\<close>

text \<open>The operations of blocks above \<open>n\<close>, at any point of their processing: no undo.\<close>

fun op_above :: "u64 \<Rightarrow> fork_op \<Rightarrow> bool" where
  "op_above n (SetAllOp es ine b) \<longleftrightarrow> n < b"
| "op_above n (FlushOp m ine) \<longleftrightarrow> True"
| "op_above n (EvictOp m) \<longleftrightarrow> False"

lemma spec_run_above:
  "\<forall>op\<in>set ops. op_above n op \<Longrightarrow>
   latest_at (sp_versions (spec_run ops A) k) n = latest_at (sp_versions A k) n"
proof (induction ops arbitrary: A)
  case (Cons op ops)
  have "latest_at (sp_versions (spec_step op A) k) n = latest_at (sp_versions A k) n"
    using Cons.prems by (cases op) (auto intro!: latest_at_cong)
  then show ?case using Cons.IH [of "spec_step op A"] Cons.prems by simp
qed simp



section \<open>An undo in between\<close>

text \<open>C25: a read that overlaps an undo.  The head block is asked before the undo signal, the store after
  it: the block of the request is reported as reached, with the answer of the chain without it.
  Before the undo the read finds the value, and after it the block is not reached.\<close>

theorem read_races_undo:
  fixes s1 s2 :: "('w fork_store, 'c, 'fs) sinker"
  assumes "reliable_kv_store W vers turl ok U put" and "fork_inv U (sk_store s1)" and "ok (fs_wrapped (sk_store s1))"
    and "BlockUndoSignal_LastValidBlock sig = Some b" and "BlockRef_Number b < GetRequest_BlockNumber req"
    and "HandleBlockUndoSignal C (fork_ops W cord) s1 sig cursor = (s2, Inr ())"
    and "GetRequest_BlockNumber req \<le> HeadBlock s1"
    and "GetRequest_Keys req = [Some k]" and "U (Key_Bytes k)"
    and "cached_at (sk_store s1) (Key_Bytes k) = Some (GetRequest_BlockNumber req, v)"
    and "S = (sink_server (fork_ops W cord) :: (_, 'd) GrpcServer)"
  shows "\<exists>r1 r. grpc_Get S s1 req = Inr r1 \<and> map answer_value (QueriedEntries_GetEntries (GetResponse_Entries r1)) = [Some v] \<and>
    grpc_Get S s2 req = Inr not_reached \<and>
    grpc_Get_from S s1 s1 s2 req = Inr r \<and> GetResponse_BlockReached r \<and>
    map answer_value (QueriedEntries_GetEntries (GetResponse_Entries r)) =
      [latest_at (vers (fs_wrapped (sk_store s1)) (Key_Bytes k)) (GetRequest_BlockNumber req)]"
proof -
  let ?n = "GetRequest_BlockNumber req" and ?a = "\<lambda>s. fork_answer turl vers (sk_store s) (GetRequest_BlockNumber req) k"
  from assms(6) have e: "fork_EvictUpToBlock (sk_store s1) (BlockRef_Number b) = (sk_store s2, Inr ())"
    and h: "HeadBlock s2 = BlockRef_Number b"
    by (rule HandleBlockUndoSignal_fork, use assms(4) in \<open>simp_all add: HeadBlock_def\<close>)+
  note F = fork_EvictUpToBlock_frame [OF e]
  have i2: "fork_inv U (sk_store s2)" by (rule fork_EvictUpToBlock_inv [OF assms(2) e])
  have w2: "ok (fs_wrapped (sk_store s2))" using assms(3) by (simp add: F(1))
  have c2: "cached_at (sk_store s2) (Key_Bytes k) = None"
    using fork_EvictUpToBlock_cached_at [OF assms(2) e, of "Key_Bytes k"] assms(5,10) by simp
  have ks: "GetRequest_Keys req = map Some [k]" "\<forall>k\<in>set [k]. U (Key_Bytes k)" using assms(8,9) by simp_all
  have v: "answer_value (Some (?a s1)) = Some v"
    "answer_value (Some (?a s2)) = latest_at (vers (fs_wrapped (sk_store s1)) (Key_Bytes k)) ?n"
    using answer_value_fork_answer [OF assms(2)] answer_value_fork_answer [OF i2] assms(10) c2 F(1)
    by (simp_all add: fork_view_def)
  have "grpc_Get S s1 req = Inr (response [Some (?a s1)])"
    using reliable_kv_store.sink_server_response [OF assms(1-3) ks, of cord] assms(7) by (simp add: assms(11) leD)
  moreover have "grpc_Get S s2 req = Inr not_reached"
    using reliable_kv_store.sink_server_response [OF assms(1) i2 w2 ks, of cord] assms(5) by (simp add: assms(11) h)
  moreover have "grpc_Get_from S s1 s1 s2 req = Inr (response [Some (?a s2)])"
    using read_from_two_states [OF assms(1) i2 w2 ks assms(7)] by (simp add: assms(11))
  ultimately show ?thesis using v by simp
qed

theorem read_races_undo_witness:
  "\<exists>s2 r. HandleBlockUndoSignal mem_cursors mem_fork_ops ((mem_sink sample_fork [])\<lparr>sk_headBlock := 5\<rparr>)
      \<lparr>BlockUndoSignal_LastValidBlock = Some \<lparr>BlockRef_Id = ''b4'', BlockRef_Number = 4\<rparr>\<rparr> (2, ''b2'', 4, ''b4'') = (s2, Inr ()) \<and>
     grpc_Get_from (sink_server mem_fork_ops :: (_, unit) GrpcServer) ((mem_sink sample_fork [])\<lparr>sk_headBlock := 5\<rparr>)
       ((mem_sink sample_fork [])\<lparr>sk_headBlock := 5\<rparr>) s2 (sample_request 5) = Inr r \<and>
     GetResponse_BlockReached r \<and> map answer_value (QueriedEntries_GetEntries (GetResponse_Entries r)) = [None]"
proof -
  let ?s1 = "(mem_sink sample_fork [])\<lparr>sk_headBlock := 5\<rparr>"
  let ?sig = "\<lparr>BlockUndoSignal_LastValidBlock = Some \<lparr>BlockRef_Id = ''b4'', BlockRef_Number = 4\<rparr>\<rparr>"
  obtain s2 where s2: "HandleBlockUndoSignal mem_cursors mem_fork_ops ?s1 ?sig (2, ''b2'', 4, ''b4'') = (s2, Inr ())"
    by (simp add: HandleBlockUndoSignal_def fork_ops_def fork_EvictUpToBlock_def SaveCursorToFile_def Let_def)
  show ?thesis
    using read_races_undo [OF mem_tt_contract, of ?s1 ?sig "\<lparr>BlockRef_Id = ''b4'', BlockRef_Number = 4\<rparr>"
        "sample_request 5", OF _ _ _ _ s2 _ _ _ _ refl, of sample_key "[7]"]
      s2 sample_fork_inv mem_tt_store_ok by (simp add: HeadBlock_def) blast
qed

end
