(* ===== verification/Sinker_Restart.thy ===== *)
theory Sinker_Restart
  imports Sinker_Properties
begin

text \<open>
  A crash of the process and the restart from the saved cursor (\<open>sink/sinker.go\<close>,
  \<open>sink/cursor.go\<close>, \<open>store/ForkAware/store.go\<close>): the wrapped store and the file of the cursor
  survive, the cache is lost, and the blocks above the cursor are sent again.
\<close>

section \<open>Operations above and below the saved block\<close>

text \<open>What the blocks above \<open>L\<close> do when blocks up to \<open>L\<close> at most are final: they overwrite keys
  and flush up to \<open>L\<close>.\<close>

fun resend_op :: "u64 \<Rightarrow> (bytes \<Rightarrow> bool) \<Rightarrow> fork_op \<Rightarrow> bool" where
  "resend_op L U (SetAllOp es ine b) \<longleftrightarrow> L < b \<and> \<not> ine \<and> entries_for U es"
| "resend_op L U (FlushOp n ine) \<longleftrightarrow> n \<le> L"
| "resend_op L U (EvictOp n) \<longleftrightarrow> False"

fun below_op :: "u64 \<Rightarrow> (bytes \<Rightarrow> bool) \<Rightarrow> fork_op \<Rightarrow> bool" where
  "below_op L U (SetAllOp es ine b) \<longleftrightarrow> b \<le> L \<and> entries_for U es"
| "below_op L U (FlushOp n ine) \<longleftrightarrow> n \<le> L"
| "below_op L U (EvictOp n) \<longleftrightarrow> False"

text \<open>What an operation writes to the cache for a key, and the cached entries above \<open>L\<close>.\<close>

fun op_cached :: "bytes \<Rightarrow> fork_op \<Rightarrow> (u64 \<times> bytes) option \<Rightarrow> (u64 \<times> bytes) option" where
  "op_cached k (SetAllOp es ine b) m = (case last_write es k of None \<Rightarrow> m | Some v \<Rightarrow> Some (b, v))"
| "op_cached k _ m = m"

definition above_part :: "u64 \<Rightarrow> (u64 \<times> bytes) option \<Rightarrow> (u64 \<times> bytes) option" where
  "above_part L m = (case m of None \<Rightarrow> None | Some (b, v) \<Rightarrow> if L < b then Some (b, v) else None)"

definition cached_above :: "u64 \<Rightarrow> 'w fork_store \<Rightarrow> bool" where
  "cached_above L s \<longleftrightarrow> (\<forall>k b v. cached_at s k = Some (b, v) \<longrightarrow> L < b)"

definition cached_below :: "u64 \<Rightarrow> 'w fork_store \<Rightarrow> bool" where
  "cached_below L s \<longleftrightarrow> (\<forall>k b v. cached_at s k = Some (b, v) \<longrightarrow> b \<le> L)"

lemma above_cached: "cached_above L s \<Longrightarrow> above_part L (cached_at s k) = cached_at s k"
  unfolding above_part_def cached_above_def by (cases "cached_at s k") fastforce+

lemma above_below: "cached_below L s \<Longrightarrow> above_part L (cached_at s k) = None"
  unfolding above_part_def cached_below_def by (cases "cached_at s k") (fastforce simp: not_less)+

lemma cached_NewStore [simp]: "cached_above L (fork_NewStore w)" "cached_below L (fork_NewStore w)"
  by (simp_all add: cached_above_def cached_below_def)

text \<open>A store that is well formed and has nothing above \<open>L\<close> marked as final.\<close>

definition restartable :: "(bytes \<Rightarrow> bool) \<Rightarrow> ('w \<Rightarrow> bool) \<Rightarrow> u64 \<Rightarrow> 'w fork_store \<Rightarrow> bool" where
  "restartable U ok L s \<longleftrightarrow> fork_inv U s \<and> ok (fs_wrapped s) \<and> fs_flushUpToBlock s \<le> L"

lemma restartable_NewStore: "ok w \<Longrightarrow> restartable U ok L (fork_NewStore w)"
  by (simp add: restartable_def fork_NewStore_inv) (simp add: fork_NewStore_def)

lemma flush_nothing:
  assumes "fork_inv U s" and "map_order ord" and "cached_above L s" and "n \<le> L"
  shows "to_flush ord (fs_cache s) n = []"
proof -
  have "entry_keys (to_flush ord (fs_cache s) n) = {}"
    using entry_keys_to_flush [OF assms(1,2), of _ n] assms(3,4) unfolding cached_above_def by fastforce
  then show ?thesis by (simp add: entry_keys_def)
qed

context kv_store
begin

lemma set_all_cached:
  assumes "ok (fs_wrapped s)" and "entries_for user_key es" and "fork_SetAll W s es False b = (s', Inr ())"
  shows "cached_at s' k = op_cached k (SetAllOp es False b) (cached_at s k)"
  using assms
proof (cases rule: fork_SetAll_cases)
  case (written w x)
  have "cached_at s' k = cached_at (s\<lparr>fs_cache := fork_cache_all b es (fs_cache s)\<rparr>) k"
    by (simp add: written(1) cached_at_def)
  then show ?thesis by (simp add: cached_at_fork_cache_all)
qed (simp_all add: cached_at_fork_cache_all)

lemma set_all_lib:
  assumes "ok (fs_wrapped s)" and "entries_for user_key es" and "fork_SetAll W s es ine b = (s', r)"
  shows "fs_flushUpToBlock s' = fs_flushUpToBlock s"
  using assms by (cases rule: fork_SetAll_cases) simp_all

lemma set_all_above:
  assumes "ok (fs_wrapped s)" and "entries_for user_key es" and "fork_SetAll W s es ine b = (s', r)"
    and "fs_flushUpToBlock s < b"
  shows "fs_wrapped s' = fs_wrapped s"
  using assms(1-3) by (cases rule: fork_SetAll_cases) (use assms(4) in auto)

text \<open>One operation of a block above \<open>L\<close>.\<close>

lemma resend_step:
  assumes "restartable user_key ok L s" and "map_order ord" and "resend_op L user_key op"
    and "fork_step W ord op s = (s', Inr ())"
  shows "restartable user_key ok L s'" and "above_part L (cached_at s' k) = op_cached k op (above_part L (cached_at s k))"
    and "cached_above L s \<Longrightarrow> cached_above L s' \<and> fs_wrapped s' = fs_wrapped s"
proof -
  have i: "fork_inv user_key s" "ok (fs_wrapped s)" "fs_flushUpToBlock s \<le> L"
    using assms(1) by (simp_all add: restartable_def)
  have "restartable user_key ok L s' \<and> (\<forall>k. above_part L (cached_at s' k) = op_cached k op (above_part L (cached_at s k))) \<and>
    (cached_above L s \<longrightarrow> cached_above L s' \<and> fs_wrapped s' = fs_wrapped s)"
  proof (cases op)
    case (SetAllOp es ine b)
    then have p: "L < b" "\<not> ine" "entries_for user_key es" using assms(3) by simp_all
    then have s': "fork_SetAll W s es False b = (s', Inr ())" using assms(4) SetAllOp by simp
    note c = set_all_cached [OF i(2) p(3) s']
    have "above_part L (cached_at s' k) = op_cached k op (above_part L (cached_at s k))" for k
      using p by (simp add: c SetAllOp above_part_def split: option.split)
    moreover have "cached_above L s'" if "cached_above L s"
      using that p by (auto simp: c cached_above_def split: option.splits)
    moreover have "fs_wrapped s' = fs_wrapped s"
      using set_all_above [OF i(2) p(3) s'] p(1) i(3) by simp
    ultimately show ?thesis
      using fork_SetAll_inv [OF i(2) p(3) i(1) s'] set_all_lib [OF i(2) p(3) s'] i(3) by (simp add: restartable_def)
  next
    case (FlushOp n ine)
    then have n: "n \<le> L" and s': "fork_FlushUpToBlock W ord s n ine = (s', Inr ())" using assms(3,4) by simp_all
    note c = fork_FlushUpToBlock_cached_at [OF i(1) assms(2) s']
    have "above_part L (cached_at s' k) = op_cached k op (above_part L (cached_at s k))" for k
      using n by (auto simp: c FlushOp above_part_def split: option.split)
    moreover have "cached_above L s'" if "cached_above L s"
      using that by (auto simp: c cached_above_def split: option.splits if_splits)
    moreover have "fs_wrapped s' = fs_wrapped s" if "cached_above L s"
      using s' flush_nothing [OF i(1) assms(2) that n] by (auto simp: fork_FlushUpToBlock_alt)
    ultimately show ?thesis
      using fork_FlushUpToBlock_inv [OF i(1) s'] flush_keeps_ok [OF i(1) assms(2) i(2) s'] n
        fork_FlushUpToBlock_lib [OF s'] by (simp add: restartable_def)
  qed (use assms(3) in simp)
  then show "restartable user_key ok L s'" and "above_part L (cached_at s' k) = op_cached k op (above_part L (cached_at s k))"
    and "cached_above L s \<Longrightarrow> cached_above L s' \<and> fs_wrapped s' = fs_wrapped s" by blast+
qed

lemma resend_run:
  assumes "restartable user_key ok L s" and "map_order ord" and "\<forall>op\<in>set ops. resend_op L user_key op"
    and "fork_run W ord ops s = (s', Inr ())"
  shows "restartable user_key ok L s'" and "above_part L (cached_at s' k) = fold (op_cached k) ops (above_part L (cached_at s k))"
    and "cached_above L s \<Longrightarrow> cached_above L s' \<and> fs_wrapped s' = fs_wrapped s"
  using assms(1,3,4)
proof (induction ops arbitrary: s)
  case (Cons op ops)
  note step = resend_step [OF _ assms(2)]
  {
    case 1
    then obtain s1 where s1: "fork_step W ord op s = (s1, Inr ())" and r: "fork_run W ord ops s1 = (s', Inr ())"
      by (auto split: prod.splits sum.splits)
    show ?case by (rule Cons.IH(1) [OF step(1) [OF 1(1) _ s1] _ r]) (use 1 in simp_all)
  next
    case 2
    then obtain s1 where s1: "fork_step W ord op s = (s1, Inr ())" and r: "fork_run W ord ops s1 = (s', Inr ())"
      by (auto split: prod.splits sum.splits)
    have "above_part L (cached_at s' k) = fold (op_cached k) ops (above_part L (cached_at s1 k))"
      by (rule Cons.IH(2) [OF step(1) [OF 2(1) _ s1] _ r]) (use 2 in simp_all)
    then show ?case using step(2) [OF 2(1) _ s1, of k] 2(2) by simp
  next
    case 3
    then obtain s1 where s1: "fork_step W ord op s = (s1, Inr ())" and r: "fork_run W ord ops s1 = (s', Inr ())"
      by (auto split: prod.splits sum.splits)
    have o: "resend_op L user_key op" using 3(3) by simp
    note a = step(3) [OF 3(2) o s1 3(1)]
    have "cached_above L s' \<and> fs_wrapped s' = fs_wrapped s1"
      by (rule Cons.IH(3) [OF conjunct1 [OF a] step(1) [OF 3(2) o s1] _ r]) (use 3 in simp)
    then show ?case using a by simp
  }
qed simp_all

text \<open>Blocks up to \<open>L\<close> leave entries up to \<open>L\<close> in the cache.\<close>

lemma below_step:
  assumes "restartable user_key ok L s" and "cached_below L s" and "map_order ord" and "below_op L user_key op"
    and "fork_step W ord op s = (s', Inr ())"
  shows "restartable user_key ok L s' \<and> cached_below L s'"
proof -
  have i: "fork_inv user_key s" "ok (fs_wrapped s)" "fs_flushUpToBlock s \<le> L"
    using assms(1) by (simp_all add: restartable_def)
  show ?thesis
  proof (cases op)
    case (SetAllOp es ine b)
    then have p: "b \<le> L" "entries_for user_key es" and s': "fork_SetAll W s es ine b = (s', Inr ())"
      using assms(4,5) by simp_all
    have "cached_at s' k = cached_at s k \<or> (\<exists>v. cached_at s' k = Some (b, v))" for k
      using i(2) p(2) s'
    proof (cases rule: fork_SetAll_cases)
      case (written w x)
      have "cached_at s' k = cached_at (s\<lparr>fs_cache := fork_cache_all b (chosen vers s ine b es) (fs_cache s)\<rparr>) k"
        by (simp add: written(1) cached_at_def)
      then show ?thesis by (simp add: cached_at_fork_cache_all split: option.split)
    qed (simp_all add: cached_at_fork_cache_all split: option.split)
    then have "cached_below L s'" using assms(2) p(1) unfolding cached_below_def by (metis fst_conv option.inject)
    then show ?thesis
      using fork_SetAll_inv [OF i(2) p(2) i(1) s'] set_all_lib [OF i(2) p(2) s'] i(3) by (simp add: restartable_def)
  next
    case (FlushOp n ine)
    then have n: "n \<le> L" and s': "fork_FlushUpToBlock W ord s n ine = (s', Inr ())" using assms(4,5) by simp_all
    have "cached_below L s'"
      using assms(2) fork_FlushUpToBlock_cached_at [OF i(1) assms(3) s']
      by (auto simp: cached_below_def split: option.splits if_splits)
    then show ?thesis
      using fork_FlushUpToBlock_inv [OF i(1) s'] flush_keeps_ok [OF i(1) assms(3) i(2) s'] n
        fork_FlushUpToBlock_lib [OF s'] by (simp add: restartable_def)
  qed (use assms(4) in simp)
qed

lemma below_run:
  assumes "restartable user_key ok L s" and "cached_below L s" and "map_order ord"
    and "\<forall>op\<in>set ops. below_op L user_key op" and "fork_run W ord ops s = (s', Inr ())"
  shows "restartable user_key ok L s' \<and> cached_below L s'"
  using assms(1,2,4,5)
proof (induction ops arbitrary: s)
  case (Cons op ops)
  then obtain s1 where s1: "fork_step W ord op s = (s1, Inr ())" and r: "fork_run W ord ops s1 = (s', Inr ())"
    by (auto split: prod.splits sum.splits)
  have "below_op L user_key op" using Cons.prems(3) by simp
  note b = below_step [OF Cons.prems(1,2) assms(3) this s1]
  show ?case by (rule Cons.IH [OF conjunct1 [OF b] conjunct2 [OF b] _ r]) (use Cons.prems(3) in simp)
qed simp

end

context kv_store
begin

lemma flush_leaves_above:
  assumes "fork_inv U s" and "map_order ord" and "fork_FlushUpToBlock W ord s n ine = (s', Inr ())"
  shows "cached_above n s'"
  using fork_FlushUpToBlock_cached_at [OF assms] unfolding cached_above_def
  by (auto split: option.splits if_splits)

text \<open>The blocks above \<open>L\<close>, run to a flush up to \<open>L\<close>, and once more on an empty cache: the
  same cache, and nothing more in the wrapped store.\<close>

lemma replay_same:
  assumes "restartable user_key ok L s" and "cached_below L s" and "map_order ord" and "map_order ord'"
    and "\<forall>op\<in>set ops. resend_op L user_key op"
    and "fork_run W ord (ops @ [FlushOp L ine]) s = (s1, Inr ())"
    and "fork_run W ord' (ops @ [FlushOp L ine]) (fork_NewStore (fs_wrapped s1)) = (s2, Inr ())"
  shows "cached_at s2 k = cached_at s1 k" and "fs_wrapped s2 = fs_wrapped s1"
proof -
  let ?ops = "ops @ [FlushOp L ine]"
  have o: "\<forall>op\<in>set ?ops. resend_op L user_key op" using assms(5) by simp
  note first = resend_run [OF assms(1,3) o assms(6)]
  obtain s0 where s0: "fork_run W ord ops s = (s0, Inr ())" and f: "fork_FlushUpToBlock W ord s0 L ine = (s1, Inr ())"
    using assms(6) by (auto simp: fork_run_append split: prod.splits sum.splits)
  have "fork_inv user_key s0" using resend_run(1) [OF assms(1,3,5) s0] by (simp add: restartable_def)
  then have "cached_above L s1" using flush_leaves_above [OF _ assms(3) f] by blast
  then have c1: "cached_at s1 k = fold (op_cached k) ?ops None"
    using first(2) [of k] above_below [OF assms(2)] by (simp add: above_cached)
  have "restartable user_key ok L (fork_NewStore (fs_wrapped s1))"
    using first(1) by (intro restartable_NewStore) (simp add: restartable_def)
  note second = resend_run [OF this assms(4) o assms(7)]
  have a: "cached_above L s2 \<and> fs_wrapped s2 = fs_wrapped (fork_NewStore (fs_wrapped s1))"
    by (rule second(3)) simp
  then show "fs_wrapped s2 = fs_wrapped s1" by (simp add: fork_NewStore_def)
  have "cached_at s2 k = fold (op_cached k) ?ops None"
    using second(2) [of k] a by (simp add: above_cached) (simp add: above_part_def)
  then show "cached_at s2 k = cached_at s1 k" using c1 by simp
qed

end

section \<open>The stream of blocks\<close>

text \<open>A block of the stream: its output decodes to well-formed entries, its final block is not
  above \<open>L\<close>, and above \<open>L\<close> the entries overwrite.\<close>

fun stream_block :: "('c, 'fs) cursor_api \<Rightarrow> decoder \<Rightarrow> (bytes \<Rightarrow> bool) \<Rightarrow> u64 \<Rightarrow> 'c signal \<Rightarrow> bool" where
  "stream_block C D U L (BlockSignal data cursor) \<longleftrightarrow>
     cur_lib_num C cursor \<le> L \<and>
     (case BlockScopedData_Clock data of
        None \<Rightarrow> False
      | Some clock \<Rightarrow>
          (case map_output data of
             None \<Rightarrow> True
           | Some out \<Rightarrow>
               (case block_entries D out of
                  Inl f \<Rightarrow> False
                | Inr es \<Rightarrow> entries_for U (SinkEntries_Entries es) \<and>
                            (SinkEntries_IfNotExist es \<longrightarrow> Clock_Number clock \<le> L))))"
| "stream_block C D U L (UndoSignal sig cursor) \<longleftrightarrow> False"

definition signal_number :: "'c signal \<Rightarrow> u64" where
  "signal_number x = the (signal_block x)"

text \<open>What the stream sends from a cursor on.\<close>

definition sent_after :: "u64 \<Rightarrow> 'c signal list \<Rightarrow> 'c signal list" where
  "sent_after n = filter (\<lambda>x. n < signal_number x)"

lemma stream_ops_above:
  assumes "stream_block C D U L x" and "L < signal_number x" and "op \<in> set (signal_ops C D x)"
  shows "resend_op L U op"
  using assms by (cases x) (auto simp: signal_number_def split: option.splits sum.splits)

lemma stream_ops_below:
  assumes "stream_block C D U L x" and "signal_number x \<le> L" and "op \<in> set (signal_ops C D x)"
  shows "below_op L U op"
  using assms by (cases x) (auto simp: signal_number_def split: option.splits sum.splits)

lemma stream_split:
  "sorted_wrt (\<lambda>x y. signal_number x < signal_number y) xs \<Longrightarrow>
   filter (\<lambda>x. signal_number x \<le> L) xs @ sent_after L xs = xs"
proof (induction xs)
  case (Cons x xs)
  show ?case
  proof (cases "signal_number x \<le> L")
    case True
    then show ?thesis using Cons by (simp add: sent_after_def)
  next
    case False
    then have "\<forall>y\<in>set xs. L < signal_number y" using Cons.prems by fastforce
    then show ?thesis using False by (simp add: sent_after_def not_le filter_empty_conv)
  qed
qed (simp add: sent_after_def)

context reliable_kv_store
begin

text \<open>Blocks return on a store that does not fail, when cursors can be written.\<close>

lemma process_output_returns:
  assumes "fork_inv user_key s" and "ok (fs_wrapped s)" and "map_order cord"
    and "\<And>out. map_output data = Some out \<Longrightarrow>
      \<exists>es. block_entries D out = Inr es \<and> entries_for user_key (SinkEntries_Entries es)"
  shows "\<exists>s'. process_output (fork_ops W cord) D s data n lib = (s', Inr ())"
proof (cases "map_output data")
  case (Some out)
  then obtain es where es: "block_entries D out = Inr es" "entries_for user_key (SinkEntries_Entries es)"
    using assms(4) by blast
  let ?e = "SinkEntries_Entries es" and ?i = "SinkEntries_IfNotExist es"
  obtain s1 where s1: "fork_SetAll W s ?e ?i n = (s1, Inr ())"
    using fork_SetAll_returns [OF assms(2) es(2)] by (metis prod.collapse)
  have i: "fork_inv user_key s1" "ok (fs_wrapped s1)" using fork_SetAll_inv [OF assms(2) es(2) assms(1) s1] by simp_all
  obtain s2 where "fork_FlushUpToBlock W cord s1 lib ?i = (s2, Inr ())"
    using fork_FlushUpToBlock_returns [OF i assms(3)] by (metis prod.collapse)
  then show ?thesis using s1 es Some by (simp add: process_output_def fork_ops_def)
qed (simp add: process_output_def)

lemma resent_returns:
  assumes "restartable user_key ok L (sk_store s)" and "map_order cord"
    and "\<forall>x\<in>set xs. stream_block C D user_key L x \<and> L < signal_number x"
    and "\<And>fs p c. snd (cur_write C fs p c) = Inr ()"
  shows "\<exists>s'. sink_run C (fork_ops W cord) D ord xs s = (s', Inr ())"
  using assms(1,3)
proof (induction xs arbitrary: s)
  case (Cons x xs)
  obtain data cursor where x: "x = BlockSignal data cursor" and b: "stream_block C D user_key L (BlockSignal data cursor)"
    using Cons.prems(2) by (cases x) auto
  then obtain clock where cl: "BlockScopedData_Clock data = Some clock" by (auto split: option.splits)
  have i: "fork_inv user_key (sk_store s)" "ok (fs_wrapped (sk_store s))"
    using Cons.prems(1) by (simp_all add: restartable_def)
  obtain st where "process_output (fork_ops W cord) D (sk_store s) data (Clock_Number clock) (cur_lib_num C cursor) = (st, Inr ())"
    using process_output_returns [OF i assms(2), of data D] b by (fastforce split: option.splits sum.splits)
  moreover obtain fs' where "cur_write C (sk_files s) (sk_cursorFilePath s)
      (case map_of (AList.update (Clock_Id clock) cursor (sk_cursorHistory s)) (cur_lib_id C cursor) of
         None \<Rightarrow> cursor | Some c \<Rightarrow> c) = (fs', Inr ())"
    using assms(4) by (metis prod.collapse)
  ultimately have "\<exists>s1. sink_step C (fork_ops W cord) D ord x s = (s1, Inr ())"
    unfolding x using cl by (simp add: HandleBlockScopedData_def SaveCursorToFile_def Let_def)
  then obtain s1 where s1: "sink_step C (fork_ops W cord) D ord x s = (s1, Inr ())" by blast
  have "restartable user_key ok L (sk_store s1)"
    by (rule resend_run(1) [OF Cons.prems(1) assms(2) _ conjunct1 [OF sink_step_run [OF s1]]])
      (use Cons.prems(2) stream_ops_above in auto)
  then show ?case using Cons.IH [of s1] Cons.prems(2) s1 by simp
qed simp

end

lemma fork_view_cong:
  assumes "fs_wrapped s = fs_wrapped s'" and "cached_at s k = cached_at s' k"
  shows "fork_view V s k n = fork_view V s' k n"
  unfolding fork_view_def assms ..

lemma sink_run_append:
  "sink_run C F D ord (xs @ ys) s =
    (case sink_run C F D ord xs s of (s', Inl f) \<Rightarrow> (s', Inl f) | (s', Inr _) \<Rightarrow> sink_run C F D ord ys s')"
  by (induction xs arbitrary: s) (auto split: prod.split sum.split)

section \<open>Crash and restart\<close>

abbreviation stream_ops :: "('c, 'fs) cursor_api \<Rightarrow> decoder \<Rightarrow> 'c signal list \<Rightarrow> fork_op list" where
  "stream_ops C D xs \<equiv> concat (map (signal_ops C D) xs)"

lemma last_block_ops:
  assumes "stream_block C D U L (BlockSignal data cursor)" and "map_output data \<noteq> None"
  shows "\<exists>es ine b. signal_ops C D (BlockSignal data cursor) = [SetAllOp es ine b, FlushOp (cur_lib_num C cursor) ine]"
  using assms by (auto split: option.splits sum.splits)

lemma head_of_run:
  assumes "sink_run C (fork_ops W cord) D ord xs s = (s', Inr ())" and "xs \<noteq> []"
  shows "HeadBlock s' = signal_number (last xs)"
  using sink_run_fork_run [OF assms(1)] assms(2) by (simp add: HeadBlock_def signal_number_def)

lemma restart_replay:
  assumes R: "reliable_kv_store W vers turl ok U put" and "ok w" and "map_order cord" and "map_order cord'"
    and st: "stream = before @ [x]" and x: "x = BlockSignal data cursor" and L: "L = cur_lib_num C cursor"
    and blocks: "\<forall>y\<in>set stream. stream_block C D U L y"
    and sorted: "sorted_wrt (\<lambda>y z. signal_number y < signal_number z) stream"
    and "map_output data \<noteq> None" and above: "L < signal_number x"
    and run: "sink_run C (fork_ops W cord) D ord stream s = (s1, Inr ())" and s: "sk_store s = fork_NewStore w"
    and writes: "\<And>fs p c. snd (cur_write C fs p c) = Inr ()"
    and s': "sk_store s' = fork_NewStore (fs_wrapped (sk_store s1))"
  shows "\<exists>s2. sink_run C (fork_ops W cord') D ord' (sent_after L stream) s' = (s2, Inr ()) \<and>
    HeadBlock s2 = HeadBlock s1 \<and> fs_wrapped (sk_store s2) = fs_wrapped (sk_store s1) \<and>
    (\<forall>k. cached_at (sk_store s2) k = cached_at (sk_store s1) k)"
proof -
  note K = reliable_kv_store.axioms(1) [OF R]
  let ?lo = "filter (\<lambda>y. signal_number y \<le> L) stream" and ?hi = "sent_after L stream"
  have hi: "?hi = sent_after L before @ [x]" using above by (simp add: st sent_after_def)
  have h: "\<forall>y\<in>set ?hi. stream_block C D U L y \<and> L < signal_number y" using blocks by (simp add: sent_after_def)
  have "stream_ops C D stream = stream_ops C D ?lo @ stream_ops C D ?hi"
    by (metis concat_append map_append stream_split [OF sorted])
  then have "fork_run W cord (stream_ops C D ?lo @ stream_ops C D ?hi) (fork_NewStore w) = (sk_store s1, Inr ())"
    using sink_run_fork_run [OF run] s by simp
  then obtain m where m: "fork_run W cord (stream_ops C D ?lo) (fork_NewStore w) = (m, Inr ())"
    and r1: "fork_run W cord (stream_ops C D ?hi) m = (sk_store s1, Inr ())"
    by (auto simp: fork_run_append split: prod.splits sum.splits)
  have "\<forall>op\<in>set (stream_ops C D ?lo). below_op L U op" using blocks stream_ops_below by fastforce
  moreover have "restartable U ok L (fork_NewStore w)" using assms(2) by (rule restartable_NewStore)
  ultimately have b: "restartable U ok L m \<and> cached_below L m"
    using kv_store.below_run [OF K _ _ assms(3) _ m] by simp
  obtain es ine n where o: "signal_ops C D x = [SetAllOp es ine n, FlushOp L ine]"
    using last_block_ops [of C D U L data cursor] blocks assms(10) by (auto simp: st x L)
  let ?ops = "stream_ops C D (sent_after L before) @ [SetAllOp es ine n]"
  have ops: "stream_ops C D ?hi = ?ops @ [FlushOp L ine]" by (simp add: hi o)
  have res: "\<forall>op\<in>set (stream_ops C D ?hi). resend_op L U op" using h stream_ops_above by fastforce
  have r: "restartable U ok L (sk_store s1)"
    by (rule kv_store.resend_run(1) [OF K conjunct1 [OF b] assms(3) res r1])
  then have "ok (fs_wrapped (sk_store s1))" by (simp add: restartable_def)
  then have "restartable U ok L (sk_store s')" unfolding s' by (rule restartable_NewStore)
  then obtain s2 where s2: "sink_run C (fork_ops W cord') D ord' ?hi s' = (s2, Inr ())"
    using reliable_kv_store.resent_returns [OF R _ assms(4) h writes] by blast
  have r2: "fork_run W cord' (?ops @ [FlushOp L ine]) (fork_NewStore (fs_wrapped (sk_store s1))) = (sk_store s2, Inr ())"
    using sink_run_fork_run [OF s2] s' by (simp only: ops)
  have "\<forall>op\<in>set ?ops. resend_op L U op" using res unfolding ops by simp
  note same = kv_store.replay_same [OF K conjunct1 [OF b] conjunct2 [OF b] assms(3,4) this r1 [unfolded ops] r2]
  have "HeadBlock s2 = signal_number x" using head_of_run [OF s2] unfolding hi by simp
  moreover have "HeadBlock s1 = signal_number x" using head_of_run [OF run] by (simp add: st)
  ultimately have "HeadBlock s2 = HeadBlock s1" by simp
  then show ?thesis using s2 same by blast
qed

text \<open>C8: a crash loses nothing that a restart does not bring back.  A process that has handled
  the blocks of a stream saves, at its last block, the cursor of the final block; when it
  then dies, with its cache, and a new process on the same database and cursor is sent the
  blocks above the cursor again, the new process handles them without an error, and reads
  of every key as of every block, the head block and the database are what they were.
  Asked of the stream: ascending blocks whose entries above the saved block overwrite, a
  last block with an output, and a history with the cursor of the final block; of the
  backend, that it does not fail.\<close>

theorem restart_restores_the_cache:
  assumes "reliable_kv_store W vers turl ok U put" and "ok w" and "map_order cord" and "map_order cord'"
    and "\<forall>x\<in>set (before @ [BlockSignal data cursor]). stream_block C D U (cur_lib_num C cursor) x"
    and "sorted_wrt (\<lambda>x y. signal_number x < signal_number y) (before @ [BlockSignal data cursor])"
    and "map_output data \<noteq> None" and "BlockScopedData_Clock data = Some clock"
    and "cur_lib_num C cursor < Clock_Number clock" and "cur_lib_id C cursor \<noteq> Clock_Id clock"
    and "sink_run C (fork_ops W cord) D ord before (NewSinker C (fork_NewStore w) path cur files) = (s0, Inr ())"
    and "HandleBlockScopedData C (fork_ops W cord) D ord s0 data cursor = (s1, Inr ())"
    and "map_of (sk_cursorHistory s0) (cur_lib_id C cursor) = Some c" and "cur_block_num C c = cur_lib_num C cursor"
    and "\<And>fs p c. snd (cur_write C fs p c) = Inr ()"
  shows "cur_write C (sk_files s0) (sk_cursorFilePath s0) c = (sk_files s1, Inr ()) \<and>
    (\<exists>s2. sink_run C (fork_ops W cord') D ord' (sent_after (cur_block_num C c) (before @ [BlockSignal data cursor]))
        (NewSinker C (fork_NewStore (fs_wrapped (sk_store s1))) path (Some c) (sk_files s1)) = (s2, Inr ()) \<and>
      HeadBlock s2 = HeadBlock s1 \<and> fs_wrapped (sk_store s2) = fs_wrapped (sk_store s1) \<and>
      (\<forall>k n. fork_view vers (sk_store s2) k n = fork_view vers (sk_store s1) k n))"
proof
  show "cur_write C (sk_files s0) (sk_cursorFilePath s0) c = (sk_files s1, Inr ())"
    using assms(12) by (rule HandleBlockScopedData_ok) (use assms(8,10,13) in auto)
  let ?x = "BlockSignal data cursor"
  have run: "sink_run C (fork_ops W cord) D ord (before @ [?x]) (NewSinker C (fork_NewStore w) path cur files) = (s1, Inr ())"
    using assms(11,12) by (simp add: sink_run_append)
  have above: "cur_lib_num C cursor < signal_number ?x" using assms(8,9) by (simp add: signal_number_def)
  have store: "sk_store (NewSinker C st p q fs) = st" for st p q fs by (simp add: NewSinker_def)
  show "\<exists>s2. sink_run C (fork_ops W cord') D ord' (sent_after (cur_block_num C c) (before @ [?x]))
        (NewSinker C (fork_NewStore (fs_wrapped (sk_store s1))) path (Some c) (sk_files s1)) = (s2, Inr ()) \<and>
      HeadBlock s2 = HeadBlock s1 \<and> fs_wrapped (sk_store s2) = fs_wrapped (sk_store s1) \<and>
      (\<forall>k n. fork_view vers (sk_store s2) k n = fork_view vers (sk_store s1) k n)"
    unfolding assms(14)
    using restart_replay [OF assms(1-4) refl refl refl assms(5-7) above run store assms(15) store [of _ path "Some c" "sk_files s1"],
        of ord'] fork_view_cong by blast
qed

text \<open>Two blocks of the in-memory sink: block 6 makes block 5 final.\<close>

definition crash_first :: "mem_cursor signal" where
  "crash_first = BlockSignal (mem_block ''b5'' 5 [7]) (2, ''b2'', 5, ''b5'')"

definition crash_cursor :: mem_cursor where
  "crash_cursor = (5, ''b5'', 6, ''b6'')"

definition crash_last :: "mem_cursor signal" where
  "crash_last = BlockSignal (mem_block ''b6'' 6 [8]) crash_cursor"

lemma crash_stream:
  "\<forall>x\<in>set [crash_first, crash_last]. stream_block mem_cursors mem_decoder (\<lambda>k. length k = 1) 5 x"
  "stream_block mem_cursors mem_decoder (\<lambda>k. length k = 1) 2 crash_first"
  "signal_number crash_first = 5" "signal_number crash_last = 6"
  "sent_after 5 [crash_first, crash_last] = [crash_last]"
  by (auto simp: crash_first_def crash_last_def crash_cursor_def signal_number_def sent_after_def)

abbreviation crash_start :: "(mem_db tt_store fork_store, mem_cursor, mem_cursor list) sinker" where
  "crash_start \<equiv> NewSinker mem_cursors (fork_NewStore mem_tt_store) ''c'' None []"

lemma crash_before:
  "\<exists>s0. sink_run mem_cursors mem_fork_ops mem_decoder rev [crash_first] crash_start = (s0, Inr ()) \<and>
     restartable (\<lambda>k. length k = 1) mem_tt_ok 5 (sk_store s0) \<and>
     map_of (sk_cursorHistory s0) ''b5'' = Some (2, ''b2'', 5, ''b5'')"
proof -
  have r: "restartable (\<lambda>k. length k = 1) mem_tt_ok 2 (sk_store crash_start)"
    using mem_tt_store_ok by (simp add: NewSinker_def restartable_NewStore)
  have "\<exists>s0. sink_run mem_cursors mem_fork_ops mem_decoder rev [crash_first] crash_start = (s0, Inr ())"
    by (rule reliable_kv_store.resent_returns [OF mem_tt_contract r]) (use crash_stream(2,3) in simp_all)
  then obtain s0 where s0: "sink_run mem_cursors mem_fork_ops mem_decoder rev [crash_first] crash_start = (s0, Inr ())"
    by blast
  have "restartable (\<lambda>k. length k = 1) mem_tt_ok 2 (sk_store s0)"
    by (rule kv_store.resend_run(1) [OF mem_tt_kv r _ _ conjunct1 [OF sink_run_fork_run [OF s0]]])
      (auto simp: crash_first_def)
  then have "restartable (\<lambda>k. length k = 1) mem_tt_ok 5 (sk_store s0)"
    unfolding restartable_def using order_trans [of _ "2 :: u64" 5] by auto
  moreover have "HandleBlockScopedData mem_cursors mem_fork_ops mem_decoder rev crash_start (mem_block ''b5'' 5 [7])
      (2, ''b2'', 5, ''b5'') = (s0, Inr ())"
    using s0 by (auto simp: crash_first_def split: prod.splits sum.splits)
  then have "map_of (sk_cursorHistory s0) ''b5'' = Some (2, ''b2'', 5, ''b5'')"
    by (rule HandleBlockScopedData_ok) (simp add: NewSinker_def prune_history_def)
  ultimately show ?thesis using s0 by blast
qed

theorem restart_restores_the_cache_witness:
  "\<exists>s1 s2. sink_run mem_cursors mem_fork_ops mem_decoder rev [crash_first, crash_last] crash_start = (s1, Inr ()) \<and>
     sink_run mem_cursors mem_fork_ops mem_decoder rev [crash_last]
       (NewSinker mem_cursors (fork_NewStore (fs_wrapped (sk_store s1))) ''c'' (Some (2, ''b2'', 5, ''b5'')) (sk_files s1)) =
         (s2, Inr ()) \<and>
     HeadBlock s2 = HeadBlock s1 \<and> fork_view (tt_vers map_of) (sk_store s1) [1] 6 = Some [8] \<and>
     fork_view (tt_vers map_of) (sk_store s2) [1] 6 = Some [8]"
proof -
  obtain s0 where s0: "sink_run mem_cursors mem_fork_ops mem_decoder rev [crash_first] crash_start = (s0, Inr ())"
    and r: "restartable (\<lambda>k. length k = 1) mem_tt_ok 5 (sk_store s0)"
    and h: "map_of (sk_cursorHistory s0) ''b5'' = Some (2, ''b2'', 5, ''b5'')"
    using crash_before by blast
  obtain s1 where s1: "HandleBlockScopedData mem_cursors mem_fork_ops mem_decoder rev s0 (mem_block ''b6'' 6 [8]) crash_cursor =
      (s1, Inr ())"
    using handle_returns [OF mem_tt_contract, of s0 "''b6''" 6 "[8]" crash_cursor] r unfolding restartable_def by blast
  have step: "sink_step mem_cursors mem_fork_ops mem_decoder rev crash_last s0 = (s1, Inr ())"
    using s1 by (simp add: crash_last_def)
  have run: "sink_run mem_cursors mem_fork_ops mem_decoder rev [crash_first, crash_last] crash_start = (s1, Inr ())"
    using s0 step sink_run_append [of mem_cursors mem_fork_ops mem_decoder rev "[crash_first]" "[crash_last]" crash_start] by simp
  have "above_part 5 (cached_at (sk_store s1) [1]) =
      fold (op_cached [1]) (signal_ops mem_cursors mem_decoder crash_last) (above_part 5 (cached_at (sk_store s0) [1]))"
    by (rule kv_store.resend_run(2) [OF mem_tt_kv r _ _ conjunct1 [OF sink_step_run [OF step]]])
      (auto simp: crash_last_def crash_cursor_def)
  then have v: "fork_view (tt_vers map_of) (sk_store s1) [1] 6 = Some [8]"
    by (auto simp: crash_last_def crash_cursor_def above_part_def fork_view_def split: option.splits if_splits)
  have "\<exists>s2. sink_run mem_cursors mem_fork_ops mem_decoder rev (sent_after 5 [crash_first, crash_last])
        (NewSinker mem_cursors (fork_NewStore (fs_wrapped (sk_store s1))) ''c'' (Some (2, ''b2'', 5, ''b5'')) (sk_files s1)) =
          (s2, Inr ()) \<and>
      HeadBlock s2 = HeadBlock s1 \<and> fs_wrapped (sk_store s2) = fs_wrapped (sk_store s1) \<and>
      (\<forall>k n. fork_view (tt_vers map_of) (sk_store s2) k n = fork_view (tt_vers map_of) (sk_store s1) k n)"
    using restart_restores_the_cache [OF mem_tt_contract mem_tt_store_ok, of rev rev "[crash_first]" "mem_block ''b6'' 6 [8]"
        crash_cursor mem_cursors mem_decoder "\<lparr>Clock_Id = ''b6'', Clock_Number = 6\<rparr>" rev "''c''" None "[]" s0 s1
        "(2, ''b2'', 5, ''b5'')" rev] s0 s1 h crash_stream
    by (simp add: crash_last_def [symmetric]) (simp add: crash_cursor_def mem_cursors_def)
  then show ?thesis using run v unfolding crash_stream(5) by metis
qed

end
