(* ===== verification/Badger_Concurrent.thy ===== *)
theory Badger_Concurrent
  imports Badger_Properties
begin

text \<open>
  The methods of the Badger store (\<open>store/badger\<close>) under concurrent calls.  In the
  remote-feed mode the gRPC handlers call them directly, and the store has no mutex: what
  holds of them is what Badger's transactions and batches give.  A call is a thread; its
  steps are the calls of Badger, the assignment to the flag in memory, and for a read one
  \<open>View\<close> transaction per key, in the order in which the goroutines finish.
\<close>

section \<open>The bodies, one call of Badger at a time\<close>

datatype feed_call =
    Feed_SetAll "Entry option list" bool u64
  | Feed_SetReady bool
  | Feed_Read GetRequest

datatype feed_ret = Feed_Done "unit res" | Feed_Answer "GetResponse res"

text \<open>\<open>Reading\<close> has the keys that are read, with what their goroutines found, in the order in
  which they finished.\<close>

datatype 'wb feed_frame =
    Feed_Begin feed_call
  | Checking "Entry option list" bool u64 'wb
  | Putting "Entry option" "Entry option list" bool u64 'wb
  | Flushing 'wb
  | Canceling 'wb "unit res"
  | Caching_Ready bool
  | Reading GetRequest "(nat \<times> QueriedEntry res) list"
  | Feed_Returning feed_ret

definition read_end :: "int \<Rightarrow> GetRequest \<Rightarrow> (nat \<times> QueriedEntry res) list \<Rightarrow> GetResponse res" where
  "read_end workers request done =
     (case fan_out workers ''failed to get values from Badger'' (map fst done) (length (GetRequest_Keys request))
             (\<lambda>i. the (map_of done i)) of
        Inl f \<Rightarrow> Inl f
      | Inr entries \<Rightarrow> Inr (response entries))"

text \<open>\<open>SetReady\<close>: the write of the flag, and the assignment after it.\<close>

definition set_ready_update :: "('db, 'it, 'txn, 'wb) badger_api \<Rightarrow> bool \<Rightarrow> 'db badger_store \<Rightarrow>
    'db badger_store \<times> 'wb feed_frame" where
  [simp]: "set_ready_update B ready s =
     (case db_update B (st_db s) (\<lambda>txn. txn_set B txn readyKey [if ready then 1 else 0]) of
        (db', Inl e) \<Rightarrow>
          (s\<lparr>st_db := db'\<rparr>, Feed_Returning (Feed_Done (Inl (Error (Wrap ''failed to persist readiness flag'' e)))))
      | (db', Inr _) \<Rightarrow> (s\<lparr>st_db := db'\<rparr>, Caching_Ready ready))"

definition set_ready_store :: "bool \<Rightarrow> 'db badger_store \<Rightarrow> 'db badger_store \<times> 'wb feed_frame" where
  [simp]: "set_ready_store ready s = (s\<lparr>st_ready := ready\<rparr>, Feed_Returning (Feed_Done (Inr ())))"

text \<open>\<open>Get\<close>: goroutine \<open>i\<close> looks up its key, or all have and the read returns.\<close>

definition read_next :: "('db, 'it, 'txn, 'wb) badger_api \<Rightarrow> nat \<Rightarrow> GetRequest \<Rightarrow> (nat \<times> QueriedEntry res) list \<Rightarrow>
    'db badger_store \<Rightarrow> ('db badger_store \<times> 'wb feed_frame) option" where
  [simp]: "read_next B i request done s =
     (if length done = length (GetRequest_Keys request)
      then Some (s, Feed_Returning (Feed_Answer (read_end (st_numWorkers s) request done)))
      else if i < length (GetRequest_Keys request) \<and> i \<notin> fst ` set done \<and> 0 < st_numWorkers s
      then Some (s, Reading request
             (done @ [(i, badger_get_one B s (GetRequest_BlockNumber request) (GetRequest_Keys request ! i))]))
      else None)"

text \<open>One step; \<open>i\<close> is the goroutine of a read that goes next.\<close>

fun feed_body :: "('db, 'it, 'txn, 'wb) badger_api \<Rightarrow> nat \<Rightarrow> 'wb feed_frame \<Rightarrow> 'db badger_store \<Rightarrow>
    ('db badger_store \<times> 'wb feed_frame) option" where
  "feed_body B i (Feed_Begin (Feed_SetAll entries ifNotExist blockNumber)) s =
     Some (s, if entries = [] then Feed_Returning (Feed_Done (Inr ()))
              else Checking entries ifNotExist blockNumber (wb_new B (st_db s)))"
| "feed_body B i (Checking [] ifNotExist blockNumber wb) s = Some (s, Flushing wb)"
| "feed_body B i (Checking (entry # entries) ifNotExist blockNumber wb) s =
     Some (s, case (if ifNotExist then bind_res (entry_key_bytes entry) (badger_exists B (st_db s)) else Inr False) of
       Inl f \<Rightarrow> Canceling wb (Inl f)
     | Inr True \<Rightarrow> Checking entries ifNotExist blockNumber wb
     | Inr False \<Rightarrow> Putting entry entries ifNotExist blockNumber wb)"
| "feed_body B i (Putting entry entries ifNotExist blockNumber wb) s =
     Some (case entry_value_bytes entry of
       Inl f \<Rightarrow> (s, Canceling wb (Inl f))
     | Inr v \<Rightarrow>
         (case entry_key_bytes entry of
            Inl f \<Rightarrow> (s, Canceling wb (Inl f))
          | Inr k \<Rightarrow>
              (case wb_set B (st_db s) wb k (value_with_block blockNumber v) of
                 (db', Inl e) \<Rightarrow> (s\<lparr>st_db := db'\<rparr>, Canceling wb (Inl (Error (Wrap ''failed to add entry to batch'' e))))
               | (db', Inr wb') \<Rightarrow> (s\<lparr>st_db := db'\<rparr>, Checking entries ifNotExist blockNumber wb'))))"
| "feed_body B i (Flushing wb) s =
     Some (case wb_flush B (st_db s) wb of
       (db', Inl e) \<Rightarrow> (s\<lparr>st_db := db'\<rparr>, Canceling wb (Inl (Error (Wrap ''failed to flush batch to Badger'' e))))
     | (db', Inr _) \<Rightarrow> (s\<lparr>st_db := db'\<rparr>, Canceling wb (Inr ())))"
| "feed_body B i (Canceling wb r) s =
     Some (s\<lparr>st_db := wb_cancel B (st_db s) wb\<rparr>, Feed_Returning (Feed_Done r))"
| "feed_body B i (Feed_Begin (Feed_SetReady ready)) s =
     Some (set_ready_update B ready s)"
| "feed_body B i (Caching_Ready ready) s = Some (set_ready_store ready s)"
| "feed_body B i (Feed_Begin (Feed_Read request)) s =
     Some (s, if st_numWorkers s < 0 then Feed_Returning (Feed_Answer (read_end (st_numWorkers s) request []))
              else Reading request [])"
| "feed_body B i (Reading request done) s = read_next B i request done s"
| "feed_body B i (Feed_Returning r) s = None"

section \<open>Without interference\<close>

text \<open>What is left of a write, as one step.\<close>

definition write_rest :: "('db, 'it, 'txn, 'wb) badger_api \<Rightarrow> 'db badger_store \<Rightarrow> 'db \<times> 'wb \<times> unit res \<Rightarrow>
    'db badger_store \<times> unit res" where
  "write_rest B s filled =
     (case filled of
        (db1, wb, Inl f) \<Rightarrow> (s\<lparr>st_db := wb_cancel B db1 wb\<rparr>, Inl f)
      | (db1, wb, Inr _) \<Rightarrow>
          (case wb_flush B db1 wb of
             (db2, Inl e) \<Rightarrow> (s\<lparr>st_db := wb_cancel B db2 wb\<rparr>, Inl (Error (Wrap ''failed to flush batch to Badger'' e)))
           | (db2, Inr _) \<Rightarrow> (s\<lparr>st_db := wb_cancel B db2 wb\<rparr>, Inr ())))"

fun write_result :: "('db, 'it, 'txn, 'wb) badger_api \<Rightarrow> 'wb feed_frame \<Rightarrow> 'db badger_store \<Rightarrow>
    ('db badger_store \<times> unit res) option" where
  "write_result B (Feed_Begin (Feed_SetAll es ine b)) s = Some (badger_SetAll B s es ine b)"
| "write_result B (Feed_Begin (Feed_SetReady r)) s = Some (badger_SetReady B s r)"
| "write_result B (Checking es ine b wb) s = Some (write_rest B s (badger_fill B ine b es (st_db s) wb))"
| "write_result B (Putting e es ine b wb) s = Some (write_rest B s
     (case entry_value_bytes e of
        Inl f \<Rightarrow> (st_db s, wb, Inl f)
      | Inr v \<Rightarrow>
          (case entry_key_bytes e of
             Inl f \<Rightarrow> (st_db s, wb, Inl f)
           | Inr k \<Rightarrow>
               (case wb_set B (st_db s) wb k (value_with_block b v) of
                  (db', Inl x) \<Rightarrow> (db', wb, Inl (Error (Wrap ''failed to add entry to batch'' x)))
                | (db', Inr wb') \<Rightarrow> badger_fill B ine b es db' wb'))))"
| "write_result B (Flushing wb) s = Some (write_rest B s (st_db s, wb, Inr ()))"
| "write_result B (Canceling wb r) s = Some (s\<lparr>st_db := wb_cancel B (st_db s) wb\<rparr>, r)"
| "write_result B (Caching_Ready r) s = Some (s\<lparr>st_ready := r\<rparr>, Inr ())"
| "write_result B (Feed_Returning (Feed_Done r)) s = Some (s, r)"
| "write_result B _ s = None"

text \<open>The steps of a write, taken without interference, are the method.\<close>

lemma feed_body_result:
  assumes "write_result B fr s = Some res" and "feed_body B i fr s = Some (s', fr')"
  shows "write_result B fr' s' = Some res"
  using assms
proof (induction B i fr s rule: feed_body.induct)
  case (3 B i e es ine b wb s)
  obtain g where g: "(if ine then bind_res (entry_key_bytes e) (badger_exists B (st_db s)) else Inr False) = g"
    by blast
  consider (fail) f where "g = Inl f" | (skip) "g = Inr True" | (put) "g = Inr False"
    by (metis (full_types) obj_sumE)
  then show ?case
    using 3 unfolding feed_body.simps write_result.simps badger_fill.simps g
    by cases (auto simp: write_rest_def split: sum.splits prod.splits)
qed (auto simp: badger_SetAll_def badger_SetReady_def write_rest_def Let_def
    split: sum.splits prod.splits if_splits option.splits)

text \<open>A read whose keys are all read in one state is the method.\<close>

lemma run_jobs_cong: "\<forall>i\<in>set sched. f i = g i \<Longrightarrow> run_jobs f sched st = run_jobs g sched st"
  by (induction sched arbitrary: st) (auto split: sum.splits fail.splits)

lemma read_end_alone:
  assumes "schedule (length (GetRequest_Keys req)) (map fst done)"
    and "\<forall>(i, q)\<in>set done. q = badger_get_one B s (GetRequest_BlockNumber req) (GetRequest_Keys req ! i)"
  shows "read_end (st_numWorkers s) req done = badger_Get B (map fst done) s req"
proof -
  let ?f = "\<lambda>i. badger_get_one B s (GetRequest_BlockNumber req) (GetRequest_Keys req ! i)"
  have "the (map_of done i) = ?f i" if i: "i \<in> set (map fst done)" for i
  proof -
    obtain q where q: "(i, q) \<in> set done" using i by (metis (no_types, lifting) imageE list.set_map prod.collapse)
    then have "map_of done i = Some q" using assms(1) by (simp add: schedule_def)
    then show ?thesis using assms(2) q by auto
  qed
  then have "run_jobs (\<lambda>i. the (map_of done i)) (map fst done) st = run_jobs ?f (map fst done) st" for st
    by (intro run_jobs_cong) blast
  then show ?thesis by (simp add: read_end_def badger_Get_def fan_out_def Let_def)
qed

section \<open>The calls in parallel\<close>

text \<open>
  The store and the calls on it; a call has the number of states that the store had had
  when it arrived.  \<open>fc_past\<close> has these states, the first one first.
\<close>

datatype 'wb feed_thread = Feed_Thread feed_call nat "'wb feed_frame"

fun ft_call :: "'wb feed_thread \<Rightarrow> feed_call" where
  "ft_call (Feed_Thread call n fr) = call"

fun ft_since :: "'wb feed_thread \<Rightarrow> nat" where
  "ft_since (Feed_Thread call n fr) = n"

fun ft_frame :: "'wb feed_thread \<Rightarrow> 'wb feed_frame" where
  "ft_frame (Feed_Thread call n fr) = fr"

record ('db, 'wb) feed_conc =
  fc_store :: "'db badger_store"
  fc_threads :: "'wb feed_thread list"
  fc_past :: "'db badger_store list"

definition feed_start :: "'db badger_store \<Rightarrow> ('db, 'wb) feed_conc" where
  "feed_start s = \<lparr>fc_store = s, fc_threads = [], fc_past = [s]\<rparr>"

definition feed_arrive :: "feed_call \<Rightarrow> ('db, 'wb) feed_conc \<Rightarrow> ('db, 'wb) feed_conc" where
  "feed_arrive call c =
     c\<lparr>fc_threads := fc_threads c @ [Feed_Thread call (length (fc_past c) - 1) (Feed_Begin call)]\<rparr>"

text \<open>Thread \<open>t\<close> goes next, with goroutine \<open>i\<close> if it reads.\<close>

definition feed_next :: "('db, 'it, 'txn, 'wb) badger_api \<Rightarrow> nat \<Rightarrow> nat \<Rightarrow> ('db, 'wb) feed_conc \<Rightarrow>
    ('db, 'wb) feed_conc option" where
  "feed_next B t i c =
     (case fc_threads c ! t of
        Feed_Thread call n fr \<Rightarrow>
          map_option (\<lambda>(s, fr'). c\<lparr>fc_store := s, fc_threads := (fc_threads c)[t := Feed_Thread call n fr'],
              fc_past := fc_past c @ [s]\<rparr>)
            (feed_body B i fr (fc_store c)))"

text \<open>Runs in which the calls that arrive satisfy \<open>G\<close>, which may depend on those before.\<close>

inductive feed_steps :: "('db, 'it, 'txn, 'wb) badger_api \<Rightarrow> (('db, 'wb) feed_conc \<Rightarrow> feed_call \<Rightarrow> bool) \<Rightarrow>
    ('db, 'wb) feed_conc \<Rightarrow> ('db, 'wb) feed_conc \<Rightarrow> bool" for B G c where
  feed_none: "feed_steps B G c c"
| feed_call: "feed_steps B G c c1 \<Longrightarrow> G c1 call \<Longrightarrow> feed_steps B G c (feed_arrive call c1)"
| feed_step: "feed_steps B G c c1 \<Longrightarrow> t < length (fc_threads c1) \<Longrightarrow> feed_next B t i c1 = Some c2 \<Longrightarrow>
    feed_steps B G c c2"

lemma feed_next_cases:
  assumes "feed_next B t i c = Some c'"
  obtains call n fr s fr' where "fc_threads c ! t = Feed_Thread call n fr"
    and "feed_body B i fr (fc_store c) = Some (s, fr')"
    and "c' = c\<lparr>fc_store := s, fc_threads := (fc_threads c)[t := Feed_Thread call n fr'], fc_past := fc_past c @ [s]\<rparr>"
  using assms by (cases "fc_threads c ! t") (auto simp: feed_next_def)

lemma feed_steps_mono:
  "feed_steps B G c c' \<Longrightarrow> (\<And>c call. G c call \<Longrightarrow> H c call) \<Longrightarrow> feed_steps B H c c'"
  by (induction rule: feed_steps.induct) (auto intro: feed_steps.intros)

lemma feed_steps_trans: "feed_steps B G c1 c2 \<Longrightarrow> feed_steps B G c c1 \<Longrightarrow> feed_steps B G c c2"
  by (induction rule: feed_steps.induct) (auto intro: feed_steps.intros)

text \<open>States are only added, and calls keep their place.\<close>

lemma feed_steps_past:
  assumes "feed_steps B G c c'" and "fc_past c \<noteq> []" and "last (fc_past c) = fc_store c"
  shows "fc_past c' \<noteq> [] \<and> last (fc_past c') = fc_store c' \<and>
    (\<exists>xs. fc_past c' = fc_past c @ xs)"
  using assms
proof (induction rule: feed_steps.induct)
  case (feed_step c1 t i c2)
  from feed_step(3) show ?case
    by (rule feed_next_cases) (use feed_step in auto)
qed (auto simp: feed_arrive_def)

section \<open>Reads are regular\<close>

text \<open>What a read has found was found in states of the store since it arrived.\<close>

definition found_in :: "('db, 'it, 'txn, 'wb) badger_api \<Rightarrow> 'db badger_store list \<Rightarrow> GetRequest \<Rightarrow>
    (nat \<times> QueriedEntry res) list \<Rightarrow> bool" where
  "found_in B states req done \<longleftrightarrow>
     distinct (map fst done) \<and>
     (\<forall>(i, q)\<in>set done. i < length (GetRequest_Keys req) \<and>
        (\<exists>s\<in>set states. q = badger_get_one B s (GetRequest_BlockNumber req) (GetRequest_Keys req ! i)))"

lemma found_in_mono: "found_in B xs req done \<Longrightarrow> set xs \<subseteq> set ys \<Longrightarrow> found_in B ys req done"
  unfolding found_in_def by fast

fun read_inv :: "('db, 'it, 'txn, 'wb) badger_api \<Rightarrow> 'db badger_store list \<Rightarrow> feed_call \<Rightarrow> 'wb feed_frame \<Rightarrow> bool" where
  "read_inv B states call (Feed_Begin call') \<longleftrightarrow> call' = call"
| "read_inv B states call (Reading req done) \<longleftrightarrow> call = Feed_Read req \<and> found_in B states req done"
| "read_inv B states call (Feed_Returning (Feed_Answer r)) \<longleftrightarrow>
     (\<exists>req. call = Feed_Read req \<and>
        (\<forall>x. r = Inr x \<longrightarrow> (\<exists>done workers. read_end workers req done = Inr x \<and> found_in B states req done \<and>
           length done = length (GetRequest_Keys req))))"
| "read_inv B states call _ \<longleftrightarrow> (\<forall>req. call \<noteq> Feed_Read req)"

lemma read_inv_mono: "read_inv B xs call fr \<Longrightarrow> set xs \<subseteq> set ys \<Longrightarrow> read_inv B ys call fr"
proof (induction B xs call fr rule: read_inv.induct)
  case (3 B states call r)
  then show ?case unfolding read_inv.simps using found_in_mono by metis
qed (auto dest: found_in_mono)

lemma read_inv_body:
  assumes "read_inv B states call fr" and "feed_body B i fr s = Some (s', fr')" and "s \<in> set states"
  shows "read_inv B states call fr'"
  using assms
proof (induction B i fr s rule: feed_body.induct)
  case (9 B i req s)
  have "read_end (st_numWorkers s) req [] = Inr x \<Longrightarrow> \<not> st_numWorkers s < 0" for x
    by (auto simp: read_end_def fan_out_def)
  then show ?case using 9 by (auto simp: found_in_def split: if_splits)
next
  case (10 B i req ds s)
  show ?case
  proof (cases "length ds = length (GetRequest_Keys req)")
    case True
    then have r: "fr' = Feed_Returning (Feed_Answer (read_end (st_numWorkers s) req ds))" using 10 by auto
    have c: "call = Feed_Read req" and f: "found_in B states req ds" using 10 by auto
    show ?thesis unfolding r c read_inv.simps using f True by blast
  next
    case False
    then show ?thesis using 10 by (auto simp: found_in_def split: if_splits)
  qed
qed (auto split: sum.splits prod.splits if_splits bool.splits)

definition threads_inv :: "('db, 'it, 'txn, 'wb) badger_api \<Rightarrow> ('db, 'wb) feed_conc \<Rightarrow> bool" where
  "threads_inv B c \<longleftrightarrow> fc_past c \<noteq> [] \<and> last (fc_past c) = fc_store c \<and>
     (\<forall>th\<in>set (fc_threads c). ft_since th < length (fc_past c) \<and>
        read_inv B (drop (ft_since th) (fc_past c)) (ft_call th) (ft_frame th))"

lemma threads_inv_start: "threads_inv B (feed_start s)"
  by (simp add: threads_inv_def feed_start_def)

lemma threads_inv_arrive: "threads_inv B c \<Longrightarrow> threads_inv B (feed_arrive call c)"
  by (auto simp: threads_inv_def feed_arrive_def)

lemma last_in_drop: "n < length xs \<Longrightarrow> last xs \<in> set (drop n xs)"
  by (metis last_drop last_in_set drop_eq_Nil not_le)

lemma threads_inv_next:
  assumes "threads_inv B c" and "t < length (fc_threads c)" and "feed_next B t i c = Some c'"
  shows "threads_inv B c'"
  using assms(3)
proof (rule feed_next_cases)
  fix call n fr s fr'
  assume t: "fc_threads c ! t = Feed_Thread call n fr" and b: "feed_body B i fr (fc_store c) = Some (s, fr')"
    and c': "c' = c\<lparr>fc_store := s, fc_threads := (fc_threads c)[t := Feed_Thread call n fr'], fc_past := fc_past c @ [s]\<rparr>"
  have th: "Feed_Thread call n fr \<in> set (fc_threads c)" using assms(2) t nth_mem by metis
  then have n: "n < length (fc_past c)" and r: "read_inv B (drop n (fc_past c)) call fr"
    using assms(1) by (auto simp: threads_inv_def)
  have "fc_store c \<in> set (drop n (fc_past c))"
    using last_in_drop [OF n] assms(1) by (simp add: threads_inv_def)
  from read_inv_body [OF r b this] have new: "read_inv B (drop n (fc_past c @ [s])) call fr'"
    by (rule read_inv_mono) auto
  have old: "ft_since x < length (fc_past c @ [s]) \<and> read_inv B (drop (ft_since x) (fc_past c @ [s])) (ft_call x) (ft_frame x)"
    if "x \<in> set (fc_threads c)" for x
    using that assms(1) by (auto simp: threads_inv_def intro: read_inv_mono)
  have "x \<in> set (fc_threads c) \<or> x = Feed_Thread call n fr'" if "x \<in> set (fc_threads c')" for x
    using that set_update_subset_insert [of "fc_threads c" t "Feed_Thread call n fr'"] by (auto simp: c')
  then show ?thesis using old new n by (fastforce simp: threads_inv_def c')
qed

lemma threads_inv_steps:
  "feed_steps B G c c' \<Longrightarrow> threads_inv B c \<Longrightarrow> threads_inv B c'"
  by (induction rule: feed_steps.induct) (auto intro: threads_inv_arrive threads_inv_next)

text \<open>The answer of a read whose goroutines all found something.\<close>

lemma read_end_found:
  assumes "read_end workers req done = Inr r" and "found_in B states req done"
    and "length done = length (GetRequest_Keys req)"
  shows "\<exists>qs. r = response (map Some qs) \<and> length qs = length (GetRequest_Keys req) \<and>
    (\<forall>i<length qs. \<exists>s\<in>set states.
       badger_get_one B s (GetRequest_BlockNumber req) (GetRequest_Keys req ! i) = Inr (qs ! i))"
proof -
  let ?n = "length (GetRequest_Keys req)" and ?job = "\<lambda>i. the (map_of done i)"
  have d: "distinct (map fst done)" and sub: "set (map fst done) \<subseteq> {..<?n}"
    using assms(2) by (auto simp: found_in_def)
  have "card (set (map fst done)) = ?n" using d assms(3) distinct_card by fastforce
  then have sched: "schedule ?n (map fst done)"
    using card_subset_eq [OF _ sub] d by (simp add: schedule_def)
  obtain es where es: "fan_out workers ''failed to get values from Badger'' (map fst done) ?n ?job = Inr es"
    and r: "r = response es"
    using assms(1) by (auto simp: read_end_def split: sum.splits)
  have j: "\<exists>s\<in>set states. ?job i = badger_get_one B s (GetRequest_BlockNumber req) (GetRequest_Keys req ! i)"
    if i: "i < ?n" for i
  proof -
    have "i \<in> set (map fst done)" using sched i by (simp add: schedule_def)
    then obtain q where q: "(i, q) \<in> set done" by (metis (no_types, lifting) imageE list.set_map prod.collapse)
    then have "?job i = q" using d by simp
    then show ?thesis using assms(2) q by (auto simp: found_in_def)
  qed
  note ok = fan_out_okD [OF es sched]
  let ?qs = "map (\<lambda>i. projr (?job i)) [0..<?n]"
  have "es = map Some ?qs" using ok(2) by simp
  moreover have "?job i = Inr (?qs ! i)" if "i < ?n" for i using ok(1) that by auto
  ultimately have "r = response (map Some ?qs) \<and> length ?qs = ?n \<and> (\<forall>i<length ?qs. \<exists>s\<in>set states.
      badger_get_one B s (GetRequest_BlockNumber req) (GetRequest_Keys req ! i) = Inr (?qs ! i))"
    using r j by fastforce
  then show ?thesis by blast
qed

end
