(* ===== verification/Feed_Concurrent.thy ===== *)
theory Feed_Concurrent
  imports Badger_Concurrent
begin

text \<open>
  What concurrent calls leave in the Badger store and what they read from it: every call
  writes only what it was given, nobody else's keys change, and readiness is as the last
  \<open>SetReady\<close> left it as long as these calls do not overlap.
\<close>

section \<open>What a call may write\<close>

fun may_write :: "feed_call \<Rightarrow> (bytes \<times> bytes) set" where
  "may_write (Feed_SetAll es ine b) = set (map (raw (badger_enc b)) es)"
| "may_write (Feed_SetReady r) = {(readyKey, [if r then 1 else 0])}"
| "may_write (Feed_Read req) = {}"

definition avoids :: "bytes \<Rightarrow> feed_call \<Rightarrow> bool" where
  "avoids k call \<longleftrightarrow> k \<notin> fst ` may_write call"

fun write_inv :: "('wb \<Rightarrow> (bytes \<times> bytes) list) \<Rightarrow> feed_call \<Rightarrow> 'wb feed_frame \<Rightarrow> bool" where
  "write_inv pend call (Feed_Begin call') \<longleftrightarrow> call' = call"
| "write_inv pend call (Checking es ine b wb) \<longleftrightarrow>
     (\<exists>es0. call = Feed_SetAll es0 ine b \<and> set es \<subseteq> set es0) \<and> set (pend wb) \<subseteq> may_write call"
| "write_inv pend call (Putting e es ine b wb) \<longleftrightarrow>
     (\<exists>es0. call = Feed_SetAll es0 ine b \<and> set (e # es) \<subseteq> set es0) \<and> set (pend wb) \<subseteq> may_write call"
| "write_inv pend call (Flushing wb) \<longleftrightarrow>
     (\<exists>es0 ine b. call = Feed_SetAll es0 ine b) \<and> set (pend wb) \<subseteq> may_write call"
| "write_inv pend call (Canceling wb r) \<longleftrightarrow> (\<exists>es0 ine b. call = Feed_SetAll es0 ine b)"
| "write_inv pend call (Caching_Ready r) \<longleftrightarrow> call = Feed_SetReady r"
| "write_inv pend call (Reading req ds) \<longleftrightarrow> call = Feed_Read req"
| "write_inv pend call (Feed_Returning r) \<longleftrightarrow> True"

text \<open>What a step of a call does to the content of the database.\<close>

definition body_effect :: "('db \<Rightarrow> bytes \<Rightarrow> bytes option) \<Rightarrow> feed_call \<Rightarrow> 'db badger_store \<Rightarrow> 'db badger_store \<Rightarrow> bool" where
  "body_effect kv call s s' \<longleftrightarrow> st_typeUrl s' = st_typeUrl s \<and> st_numWorkers s' = st_numWorkers s \<and>
     (\<exists>ps. set ps \<subseteq> may_write call \<and> kv (st_db s') = apply_sets ps (kv (st_db s)))"

lemma body_effect_refl [simp]: "body_effect kv call s s"
  by (auto simp: body_effect_def intro: exI [of _ "[]"])

lemma body_effect_same [simp]:
  "kv db' = kv (st_db s) \<Longrightarrow> body_effect kv call s (s\<lparr>st_db := db'\<rparr>)"
  "body_effect kv call s (s\<lparr>st_ready := r\<rparr>)"
  by (auto simp: body_effect_def intro: exI [of _ "[]"])

lemma body_effect_key:
  assumes "body_effect kv call s s'"
  shows "kv (st_db s') k = kv (st_db s) k \<or> (\<exists>v. kv (st_db s') k = Some v \<and> (k, v) \<in> may_write call)"
proof -
  obtain ps where ps: "set ps \<subseteq> may_write call" and e: "kv (st_db s') = apply_sets ps (kv (st_db s))"
    using assms by (auto simp: body_effect_def)
  show ?thesis
  proof (cases "map_of (rev ps) k")
    case (Some v)
    then have "(k, v) \<in> set ps" using map_of_SomeD by fastforce
    then show ?thesis using ps Some by (auto simp: e apply_sets_eq)
  qed (simp add: e apply_sets_eq)
qed

lemma body_effect_avoids: "body_effect kv call s s' \<Longrightarrow> avoids k call \<Longrightarrow> kv (st_db s') k = kv (st_db s) k"
  using body_effect_key [of kv call s s' k] by (force simp: avoids_def)

lemma may_write_value: "(k, v) \<in> may_write call \<Longrightarrow> app_key k \<Longrightarrow> 8 \<le> length v"
  by (cases call) (auto simp: raw_badger_enc value_with_block_def app_key_def)

lemma body_effect_ok: "body_effect kv call s s' \<Longrightarrow> badger_ok kv s \<Longrightarrow> badger_ok kv s'"
  unfolding badger_ok_def by (metis body_effect_key may_write_value option.inject)

lemma putting_cases:
  assumes "feed_body B i (Putting e es ine b wb) s = Some (s', fr')"
  obtains (fault) f where "s' = s" and "fr' = Canceling wb (Inl f)"
  | (add) k v db' x where "raw (badger_enc b) e = (k, v)" and "wb_set B (st_db s) wb k v = (db', x)"
    and "s' = s\<lparr>st_db := db'\<rparr>"
    and "fr' = (case x of Inl err \<Rightarrow> Canceling wb (Inl (Error (Wrap ''failed to add entry to batch'' err)))
      | Inr wb' \<Rightarrow> Checking es ine b wb')"
proof (cases "entry_value_bytes e")
  case (Inl f)
  show ?thesis by (rule fault [of f]) (use assms Inl in auto)
next
  case (Inr v)
  note v = Inr
  show ?thesis
  proof (cases "entry_key_bytes e")
    case (Inl f)
    show ?thesis by (rule fault [of f]) (use assms v Inl in auto)
  next
    case (Inr k)
    obtain db' x where w: "wb_set B (st_db s) wb k (value_with_block b v) = (db', x)" by fastforce
    have "raw (badger_enc b) e = (k, value_with_block b v)"
      using entry_key_bytes_kv [OF Inr] entry_value_bytes_kv [OF v] by (simp add: raw_badger_enc)
    from add [OF this w] show ?thesis using assms v Inr w by (cases x) auto
  qed
qed

context badger_kv
begin

lemma put_writes:
  assumes "wb_set B (st_db s) wb k v = (db', x)" and "(k, v) \<in> may_write call" and "set (pend wb) \<subseteq> may_write call"
  shows "body_effect kv call s (s\<lparr>st_db := db'\<rparr>)" and "x = Inr wb' \<Longrightarrow> set (pend wb') \<subseteq> may_write call"
proof -
  have "\<exists>ps. set ps \<subseteq> may_write call \<and> kv db' = apply_sets ps (kv (st_db s))"
  proof (cases x)
    case (Inl e)
    then obtain ps qs where "pend wb = ps @ qs" "kv db' = apply_sets ps (kv (st_db s))"
      using wb_set_fail assms(1) by blast
    then show ?thesis using assms(3) by auto
  next
    case (Inr wb1)
    then obtain ps where p: "pend wb @ [(k, v)] = ps @ pend wb1" and e: "kv db' = apply_sets ps (kv (st_db s))"
      using wb_set_ok assms(1) by blast
    have "set ps \<subseteq> insert (k, v) (set (pend wb))" using arg_cong [OF p, of set] by auto
    then show ?thesis using e assms(2,3) by blast
  qed
  then show "body_effect kv call s (s\<lparr>st_db := db'\<rparr>)" by (simp add: body_effect_def)
  assume "x = Inr wb'"
  then obtain ps where p: "pend wb @ [(k, v)] = ps @ pend wb'"
    using wb_set_ok assms(1) by blast
  have "set (pend wb') \<subseteq> insert (k, v) (set (pend wb))" using arg_cong [OF p, of set] by auto
  then show "set (pend wb') \<subseteq> may_write call" using assms(2,3) by blast
qed

lemma flush_writes:
  assumes "wb_flush B (st_db s) wb = (db', x)" and "set (pend wb) \<subseteq> may_write call"
  shows "body_effect kv call s (s\<lparr>st_db := db'\<rparr>)"
proof (cases x)
  case (Inl e)
  then obtain ps qs where "pend wb = ps @ qs" "kv db' = apply_sets ps (kv (st_db s))"
    using wb_flush_fail assms(1) by blast
  then show ?thesis using assms(2) by (auto simp: body_effect_def)
next
  case (Inr u)
  then show ?thesis using wb_flush_ok [of "st_db s" wb db'] assms by (auto simp: body_effect_def)
qed

lemma ready_writes:
  assumes "db_update B (st_db s) (\<lambda>txn. txn_set B txn readyKey [if ready then 1 else 0]) = (db', x)"
  shows "body_effect kv (Feed_SetReady ready) s (s\<lparr>st_db := db'\<rparr>)"
proof (cases x)
  case (Inl e)
  then show ?thesis using update_fail assms by (auto simp: body_effect_def intro: exI [of _ "[]"])
next
  case (Inr u)
  then have "kv db' = (kv (st_db s))(readyKey \<mapsto> [if ready then 1 else 0])"
    using update_set_ok assms by simp
  then show ?thesis
    by (auto simp: body_effect_def intro: exI [of _ "[(readyKey, [if ready then 1 else 0])]"])
qed

lemma write_inv_body:
  assumes "write_inv pend call fr" and "feed_body B i fr s = Some (s', fr')"
  shows "write_inv pend call fr' \<and> body_effect kv call s s'"
  using assms
proof (cases "(B, i, fr, s)" rule: feed_body.cases)
  case (4 B' i' e es ine b wb s1)
  obtain es0 where c: "call = Feed_SetAll es0 ine b" and es0: "set (e # es) \<subseteq> set es0"
    and p: "set (pend wb) \<subseteq> may_write call"
    using assms(1) 4 by auto
  have r: "raw (badger_enc b) e \<in> may_write call" using es0 by (simp add: c)
  have "feed_body B i (Putting e es ine b wb) s = Some (s', fr')" using assms(2) 4 by simp
  then show ?thesis
  proof (cases rule: putting_cases)
    case (add k v db' x)
    note w = put_writes [OF add(2) r [unfolded add(1)] p]
    show ?thesis using w(1) w(2) add(3,4) c es0 by (cases x) auto
  qed (use c in auto)
next
  case (5 B' i' wb s1)
  obtain db' x where "wb_flush B (st_db s) wb = (db', x)" by fastforce
  then show ?thesis using assms 5 flush_writes [of s wb db' x call] by (auto split: sum.splits)
next
  case (7 B' i' ready s1)
  obtain db' x where "db_update B (st_db s) (\<lambda>txn. txn_set B txn readyKey [if ready then 1 else 0]) = (db', x)"
    by fastforce
  then show ?thesis using assms 7 ready_writes [of s ready db' x] by (cases x) (auto simp del: may_write.simps)
qed (use assms in \<open>auto simp: wb_empty wb_cancel split: sum.splits prod.splits if_splits bool.splits\<close>)

text \<open>Only \<open>SetReady\<close> changes the flag in memory.\<close>

end

lemma feed_body_ready:
  assumes "feed_body B i fr s = Some (s', fr')"
  shows "st_ready s' = (case fr of Caching_Ready r \<Rightarrow> r | _ \<Rightarrow> st_ready s)"
  using assms by (induction B i fr s rule: feed_body.induct) (auto split: sum.splits prod.splits if_splits)

section \<open>The invariant of a run\<close>

text \<open>
  The calls write as above, and every state that the store has had since \<open>s0\<close> has the same
  type and workers, values with a block number, and under every key the value it had in \<open>s0\<close> or
  one that a call which has arrived may write.
\<close>

definition from_calls :: "('db \<Rightarrow> bytes \<Rightarrow> bytes option) \<Rightarrow> 'db badger_store \<Rightarrow> feed_call set \<Rightarrow> 'db badger_store \<Rightarrow> bool" where
  "from_calls kv s0 calls s \<longleftrightarrow> st_typeUrl s = st_typeUrl s0 \<and> st_numWorkers s = st_numWorkers s0 \<and>
     (\<forall>k. kv (st_db s) k = kv (st_db s0) k \<or>
       (\<exists>call\<in>calls. \<exists>v. kv (st_db s) k = Some v \<and> (k, v) \<in> may_write call))"

definition fc_calls :: "('db, 'wb) feed_conc \<Rightarrow> feed_call set" where
  "fc_calls c = ft_call ` set (fc_threads c)"

lemma from_calls_mono: "from_calls kv s0 A s \<Longrightarrow> A \<subseteq> A' \<Longrightarrow> from_calls kv s0 A' s"
  unfolding from_calls_def by blast

lemma from_calls_ok: "from_calls kv s0 calls s \<Longrightarrow> badger_ok kv s0 \<Longrightarrow> badger_ok kv s"
  unfolding from_calls_def badger_ok_def by (metis may_write_value option.inject)

lemma from_calls_step:
  assumes "from_calls kv s0 calls s" and "body_effect kv call s s'" and "call \<in> calls"
  shows "from_calls kv s0 calls s'"
  using assms body_effect_key [OF assms(2)] unfolding from_calls_def body_effect_def by (metis (no_types))

definition writes_inv :: "('db \<Rightarrow> bytes \<Rightarrow> bytes option) \<Rightarrow> ('wb \<Rightarrow> (bytes \<times> bytes) list) \<Rightarrow> 'db badger_store \<Rightarrow>
    ('db, 'wb) feed_conc \<Rightarrow> bool" where
  "writes_inv kv pend s0 c \<longleftrightarrow> fc_store c \<in> set (fc_past c) \<and>
     (\<forall>th\<in>set (fc_threads c). write_inv pend (ft_call th) (ft_frame th)) \<and>
     (\<forall>s\<in>set (fc_past c). from_calls kv s0 (fc_calls c) s)"

lemma writes_inv_start: "writes_inv kv pend s0 (feed_start s0)"
  by (simp add: writes_inv_def feed_start_def from_calls_def)

lemma feed_arrive_simps [simp]:
  "fc_calls (feed_arrive call c) = insert call (fc_calls c)"
  "fc_store (feed_arrive call c) = fc_store c"
  "fc_past (feed_arrive call c) = fc_past c"
  "fc_threads (feed_arrive call c) = fc_threads c @ [Feed_Thread call (length (fc_past c) - 1) (Feed_Begin call)]"
  by (simp_all add: fc_calls_def feed_arrive_def)

lemma writes_inv_arrive: "writes_inv kv pend s0 c \<Longrightarrow> writes_inv kv pend s0 (feed_arrive call c)"
  by (auto simp: writes_inv_def intro: from_calls_mono)

lemma fc_calls_next:
  assumes "feed_next B t i c = Some c'" and "t < length (fc_threads c)"
  shows "map ft_call (fc_threads c') = map ft_call (fc_threads c)" and "fc_calls c' = fc_calls c"
proof -
  show m: "map ft_call (fc_threads c') = map ft_call (fc_threads c)"
    using assms(1) by (rule feed_next_cases) (auto simp: map_update list_update_same_conv assms(2))
  show "fc_calls c' = fc_calls c" using arg_cong [OF m, of set] by (simp add: fc_calls_def)
qed

context badger_kv
begin

lemma writes_inv_next:
  assumes "writes_inv kv pend s0 c" and "t < length (fc_threads c)" and "feed_next B t i c = Some c'"
  shows "writes_inv kv pend s0 c' \<and> body_effect kv (ft_call (fc_threads c ! t)) (fc_store c) (fc_store c')"
  using assms(3)
proof (rule feed_next_cases)
  fix call n fr s fr'
  assume t: "fc_threads c ! t = Feed_Thread call n fr" and b: "feed_body B i fr (fc_store c) = Some (s, fr')"
    and c': "c' = c\<lparr>fc_store := s, fc_threads := (fc_threads c)[t := Feed_Thread call n fr'], fc_past := fc_past c @ [s]\<rparr>"
  have th: "Feed_Thread call n fr \<in> set (fc_threads c)" using assms(2) t nth_mem by metis
  then have "write_inv pend call fr" using assms(1) by (auto simp: writes_inv_def)
  from write_inv_body [OF this b] have w: "write_inv pend call fr'" and e: "body_effect kv call (fc_store c) s" by auto
  have "call \<in> fc_calls c" using th by (force simp: fc_calls_def)
  then have f: "from_calls kv s0 (fc_calls c) s"
    using from_calls_step [OF _ e] assms(1) by (auto simp: writes_inv_def)
  have "x \<in> set (fc_threads c) \<or> x = Feed_Thread call n fr'" if "x \<in> set (fc_threads c')" for x
    using that set_update_subset_insert [of "fc_threads c" t "Feed_Thread call n fr'"] by (auto simp: c')
  then have "\<forall>th\<in>set (fc_threads c'). write_inv pend (ft_call th) (ft_frame th)"
    using assms(1) w by (fastforce simp: writes_inv_def)
  then show ?thesis
    using assms(1) f e fc_calls_next(2) [OF assms(3,2)] by (auto simp: writes_inv_def c' t)
qed

lemma writes_inv_steps: "feed_steps B G c c' \<Longrightarrow> writes_inv kv pend s0 c \<Longrightarrow> writes_inv kv pend s0 c'"
  by (induction rule: feed_steps.induct) (auto intro: writes_inv_arrive dest: writes_inv_next)

end

section \<open>A key that others leave alone\<close>

fun is_returned :: "'wb feed_frame \<Rightarrow> bool" where
  "is_returned (Feed_Returning r) \<longleftrightarrow> True"
| "is_returned _ \<longleftrightarrow> False"

lemma stepped_not_returned: "feed_body B i fr s = Some x \<Longrightarrow> \<not> is_returned fr"
  by (cases fr) auto

text \<open>No call but the \<open>t\<close>-th can still write \<open>k\<close>.\<close>

definition left_to :: "nat \<Rightarrow> bytes \<Rightarrow> ('db, 'wb) feed_conc \<Rightarrow> bool" where
  "left_to t k c \<longleftrightarrow> (\<forall>j<length (fc_threads c). j \<noteq> t \<longrightarrow>
     avoids k (ft_call (fc_threads c ! j)) \<or> is_returned (ft_frame (fc_threads c ! j)))"

lemma left_to_arrive:
  "left_to t k c \<Longrightarrow> avoids k call \<or> t = length (fc_threads c) \<Longrightarrow> left_to t k (feed_arrive call c)"
  by (auto simp: left_to_def nth_append less_Suc_eq)

text \<open>What the \<open>t\<close>-th call has, and what another call does to it.\<close>

definition thread_at :: "('db, 'wb) feed_conc \<Rightarrow> nat \<Rightarrow> 'wb feed_frame" where
  "thread_at c t = ft_frame (fc_threads c ! t)"

lemma feed_next_frame:
  assumes "feed_next B t i c = Some c'" and "t < length (fc_threads c)"
  shows "feed_body B i (thread_at c t) (fc_store c) = Some (fc_store c', thread_at c' t)"
    and "length (fc_threads c') = length (fc_threads c)"
    and "j \<noteq> t \<Longrightarrow> fc_threads c' ! j = fc_threads c ! j"
    and "ft_call (fc_threads c' ! j) = ft_call (fc_threads c ! j)"
  using assms(1)
  by (rule feed_next_cases; use assms(2) in \<open>auto simp: thread_at_def nth_list_update\<close>)+

lemma left_to_next:
  assumes "left_to t k c" and "feed_next B u i c = Some c'" and "u < length (fc_threads c)"
  shows "left_to t k c'"
  unfolding left_to_def
proof (intro allI impI)
  fix j assume j: "j < length (fc_threads c')" "j \<noteq> t"
  have l: "avoids k (ft_call (fc_threads c ! j)) \<or> is_returned (ft_frame (fc_threads c ! j))"
    using assms(1) j feed_next_frame(2) [OF assms(2,3)] by (simp add: left_to_def)
  show "avoids k (ft_call (fc_threads c' ! j)) \<or> is_returned (ft_frame (fc_threads c' ! j))"
  proof (cases "j = u")
    case True
    have "\<not> is_returned (thread_at c u)"
      by (rule stepped_not_returned [OF feed_next_frame(1) [OF assms(2,3)]])
    then show ?thesis using l True feed_next_frame(4) [OF assms(2,3)] by (simp add: thread_at_def)
  qed (use l feed_next_frame(3) [OF assms(2,3)] in simp)
qed

context badger_kv
begin

text \<open>A step of another call keeps the value of \<open>k\<close> and the \<open>t\<close>-th call.\<close>

lemma left_to_other:
  assumes "left_to t k c" and "writes_inv kv pend s0 c" and "feed_next B u i c = Some c'"
    and "u < length (fc_threads c)" and "u \<noteq> t"
  shows "kv (st_db (fc_store c')) k = kv (st_db (fc_store c)) k \<and> thread_at c' t = thread_at c t"
proof -
  have "\<not> is_returned (thread_at c u)"
    by (rule stepped_not_returned [OF feed_next_frame(1) [OF assms(3,4)]])
  then have "avoids k (ft_call (fc_threads c ! u))" using assms(1,4,5) by (auto simp: left_to_def thread_at_def)
  then show ?thesis
    using body_effect_avoids writes_inv_next [OF assms(2,4,3)] feed_next_frame(3) [OF assms(3,4)] assms(5)
    by (metis thread_at_def)
qed

end

text \<open>What of a \<open>SetAll\<close> (without \<open>IfNotExist\<close>) makes the raw value of \<open>k\<close> be \<open>w\<close> when it has
  returned without an error; \<open>m\<close> is the content now.\<close>

fun owes :: "('wb \<Rightarrow> (bytes \<times> bytes) list) \<Rightarrow> bytes \<Rightarrow> bytes \<Rightarrow> (bytes \<Rightarrow> bytes option) \<Rightarrow> 'wb feed_frame \<Rightarrow> bool" where
  "owes pend k w m (Feed_Begin (Feed_SetAll es ine b)) \<longleftrightarrow>
     \<not> ine \<and> map_of (rev (map (raw (badger_enc b)) es)) k = Some w"
| "owes pend k w m (Checking es ine b wb) \<longleftrightarrow>
     \<not> ine \<and> apply_sets (pend wb @ map (raw (badger_enc b)) es) m k = Some w"
| "owes pend k w m (Putting e es ine b wb) \<longleftrightarrow>
     \<not> ine \<and> apply_sets (pend wb @ map (raw (badger_enc b)) (e # es)) m k = Some w"
| "owes pend k w m (Flushing wb) \<longleftrightarrow> apply_sets (pend wb) m k = Some w"
| "owes pend k w m (Canceling wb r) \<longleftrightarrow> (r = Inr () \<longrightarrow> m k = Some w)"
| "owes pend k w m (Feed_Returning (Feed_Done r)) \<longleftrightarrow> (r = Inr () \<longrightarrow> m k = Some w)"
| "owes pend k w m _ \<longleftrightarrow> False"

lemma owes_cong: "m k = m' k \<Longrightarrow> owes pend k w m fr = owes pend k w m' fr"
  by (induction pend k w m fr rule: owes.induct) (auto simp: apply_sets_eq split: option.splits)

context badger_kv
begin

lemma owes_body:
  assumes "owes pend k w (kv (st_db s)) fr" and "feed_body B i fr s = Some (s', fr')"
  shows "owes pend k w (kv (st_db s')) fr'"
proof (cases "(B, i, fr, s)" rule: feed_body.cases)
  case (4 B' i' e es ine b wb s1)
  have f: "feed_body B i (Putting e es ine b wb) s = Some (s', fr')" using assms(2) 4 by simp
  have o: "\<not> ine" "apply_sets (pend wb @ raw (badger_enc b) e # map (raw (badger_enc b)) es) (kv (st_db s)) k = Some w"
    using assms(1) 4 by auto
  from f show ?thesis
  proof (cases rule: putting_cases)
    case (add k1 v db' x)
    show ?thesis
    proof (cases x)
      case (Inr wb')
      then obtain ps where p: "pend wb @ [(k1, v)] = ps @ pend wb'" and e: "kv db' = apply_sets ps (kv (st_db s))"
        using wb_set_ok add(2) by blast
      have q: "pend wb @ raw (badger_enc b) e # map (raw (badger_enc b)) es = ps @ pend wb' @ map (raw (badger_enc b)) es"
        using arg_cong [OF p, of "\<lambda>xs. xs @ map (raw (badger_enc b)) es"] add(1) by simp
      show ?thesis using o(2) unfolding q using o(1) add(3,4) Inr e by simp
    qed (use add in simp)
  qed simp
next
  case (5 B' i' wb s1)
  then show ?thesis using assms wb_flush_ok by (auto split: sum.splits prod.splits)
qed (use assms in \<open>auto simp: wb_empty wb_cancel apply_sets_eq split: sum.splits prod.splits if_splits bool.splits\<close>)

text \<open>The call that owes \<open>k\<close> pays, whatever runs in parallel and leaves \<open>k\<close> alone.\<close>

lemma owes_steps:
  assumes "feed_steps B (\<lambda>_. avoids k) c c'" and "writes_inv kv pend s0 c" and "left_to t k c"
    and "t < length (fc_threads c)" and "owes pend k w (kv (st_db (fc_store c))) (thread_at c t)"
  shows "writes_inv kv pend s0 c' \<and> left_to t k c' \<and> t < length (fc_threads c') \<and>
    owes pend k w (kv (st_db (fc_store c'))) (thread_at c' t)"
  using assms
proof (induction rule: feed_steps.induct)
  case (feed_call c1 call)
  then show ?case by (auto simp: thread_at_def nth_append intro: writes_inv_arrive left_to_arrive)
next
  case (feed_step c1 u i c2)
  then have w: "writes_inv kv pend s0 c1" and l: "left_to t k c1" and t: "t < length (fc_threads c1)"
    and o: "owes pend k w (kv (st_db (fc_store c1))) (thread_at c1 t)"
    by auto
  have "owes pend k w (kv (st_db (fc_store c2))) (thread_at c2 t)"
  proof (cases "u = t")
    case True
    show ?thesis using owes_body [OF o] feed_next_frame(1) [OF feed_step(3,2)] True by blast
  next
    case False
    show ?thesis using left_to_other [OF l w feed_step(3,2) False] o owes_cong by metis
  qed
  then show ?case
    using w l t writes_inv_next [OF w feed_step(2,3)] left_to_next [OF l feed_step(3,2)]
      feed_next_frame(2) [OF feed_step(3,2)] by simp
qed simp

text \<open>A value that nobody writes stays, in every state.\<close>

lemma value_stays:
  assumes "feed_steps B (\<lambda>_. avoids k) c c'" and "writes_inv kv pend s0 c" and "left_to t k c"
    and "t < length (fc_threads c)" and "is_returned (thread_at c t)" and "kv (st_db (fc_store c)) k = x"
  shows "kv (st_db (fc_store c')) k = x \<and> writes_inv kv pend s0 c' \<and> left_to t k c' \<and> t < length (fc_threads c') \<and>
    is_returned (thread_at c' t) \<and>
    (\<forall>s\<in>set (drop (length (fc_past c)) (fc_past c')). kv (st_db s) k = x) \<and> length (fc_past c) \<le> length (fc_past c')"
  using assms
proof (induction rule: feed_steps.induct)
  case (feed_call c1 call)
  then show ?case by (auto simp: thread_at_def nth_append intro: writes_inv_arrive left_to_arrive)
next
  case (feed_step c1 u i c2)
  then have w: "writes_inv kv pend s0 c1" and l: "left_to t k c1" and t: "t < length (fc_threads c1)"
    and r: "is_returned (thread_at c1 t)" and x: "kv (st_db (fc_store c1)) k = x"
    and old: "\<forall>s\<in>set (drop (length (fc_past c)) (fc_past c1)). kv (st_db s) k = x"
    and len: "length (fc_past c) \<le> length (fc_past c1)"
    by auto
  have "u \<noteq> t" using stepped_not_returned [OF feed_next_frame(1) [OF feed_step(3,2)]] r by auto
  note n = left_to_other [OF l w feed_step(3,2) this]
  have "fc_past c2 = fc_past c1 @ [fc_store c2]"
    using feed_step(3) by (rule feed_next_cases) simp
  then show ?case
    using w l t r x n old len writes_inv_next [OF w feed_step(2,3)] left_to_next [OF l feed_step(3,2)]
      feed_next_frame(2) [OF feed_step(3,2)] by auto
qed simp

end

section \<open>Readiness\<close>

text \<open>Calls of \<open>SetReady\<close> that have not returned.\<close>

definition sets_ready :: "('db, 'wb) feed_conc \<Rightarrow> nat \<Rightarrow> bool" where
  "sets_ready c t \<longleftrightarrow> t < length (fc_threads c) \<and> (\<exists>r. ft_call (fc_threads c ! t) = Feed_SetReady r) \<and>
     \<not> is_returned (thread_at c t)"

text \<open>The calls of \<open>SetReady\<close> do not overlap, and no other call sets the reserved key.\<close>

definition ready_apart :: "('db, 'wb) feed_conc \<Rightarrow> feed_call \<Rightarrow> bool" where
  "ready_apart c call \<longleftrightarrow> (case call of
     Feed_SetReady r \<Rightarrow> \<forall>t. \<not> sets_ready c t
   | _ \<Rightarrow> avoids readyKey call)"

definition ready_inv :: "('db \<Rightarrow> bytes \<Rightarrow> bytes option) \<Rightarrow> ('db, 'wb) feed_conc \<Rightarrow> bool" where
  "ready_inv kv c \<longleftrightarrow>
     (\<forall>t u. sets_ready c t \<longrightarrow> sets_ready c u \<longrightarrow> t = u) \<and>
     (\<forall>t<length (fc_threads c). avoids readyKey (ft_call (fc_threads c ! t)) \<or>
        (\<exists>r. ft_call (fc_threads c ! t) = Feed_SetReady r)) \<and>
     (\<forall>t<length (fc_threads c). \<forall>r. thread_at c t = Caching_Ready r \<longrightarrow> ready_flag (kv (st_db (fc_store c))) = r) \<and>
     ((\<forall>t<length (fc_threads c). \<forall>r. thread_at c t \<noteq> Caching_Ready r) \<longrightarrow>
        st_ready (fc_store c) = ready_flag (kv (st_db (fc_store c))))"

lemma ready_inv_start: "st_ready s = ready_flag (kv (st_db s)) \<Longrightarrow> ready_inv kv (feed_start s)"
  by (simp add: ready_inv_def feed_start_def sets_ready_def)

lemma sets_ready_arrive:
  "sets_ready (feed_arrive call c) t \<longleftrightarrow> sets_ready c t \<or> t = length (fc_threads c) \<and> (\<exists>r. call = Feed_SetReady r)"
  by (auto simp: sets_ready_def thread_at_def nth_append)

lemma ready_inv_arrive:
  assumes "ready_inv kv c" and "ready_apart c call"
  shows "ready_inv kv (feed_arrive call c)"
proof -
  have th: "thread_at (feed_arrive call c) t = (if t < length (fc_threads c) then thread_at c t else Feed_Begin call)"
    if "t < length (fc_threads (feed_arrive call c))" for t
    using that by (auto simp: thread_at_def nth_append)
  have "avoids readyKey call \<or> (\<exists>r. call = Feed_SetReady r)"
    using assms(2) by (auto simp: ready_apart_def split: feed_call.splits)
  then have "\<forall>t<length (fc_threads (feed_arrive call c)).
      avoids readyKey (ft_call (fc_threads (feed_arrive call c) ! t)) \<or>
      (\<exists>r. ft_call (fc_threads (feed_arrive call c) ! t) = Feed_SetReady r)"
    using assms(1) by (auto simp: ready_inv_def nth_append less_Suc_eq)
  moreover have "\<forall>t u. sets_ready (feed_arrive call c) t \<longrightarrow> sets_ready (feed_arrive call c) u \<longrightarrow> t = u"
    using assms by (auto simp: sets_ready_arrive ready_inv_def ready_apart_def split: feed_call.splits)
  moreover have "\<forall>t<length (fc_threads (feed_arrive call c)). \<forall>r. thread_at (feed_arrive call c) t = Caching_Ready r \<longrightarrow>
      ready_flag (kv (st_db (fc_store c))) = r"
    using assms(1) th by (auto simp: ready_inv_def split: if_splits)
  moreover have "st_ready (fc_store c) = ready_flag (kv (st_db (fc_store c)))"
    if n: "\<forall>t<length (fc_threads (feed_arrive call c)). \<forall>r. thread_at (feed_arrive call c) t \<noteq> Caching_Ready r"
  proof -
    have "thread_at c t \<noteq> Caching_Ready r" if "t < length (fc_threads c)" for t r
      using n [rule_format, of t r] th [of t] that by simp
    then show ?thesis using assms(1) by (auto simp: ready_inv_def)
  qed
  ultimately show ?thesis unfolding ready_inv_def feed_arrive_simps(2) by blast
qed

lemma not_avoids_ready [simp]: "\<not> avoids readyKey (Feed_SetReady r)"
  by (simp add: avoids_def)

lemma writes_inv_thread:
  "writes_inv kv pend s0 c \<Longrightarrow> t < length (fc_threads c) \<Longrightarrow> write_inv pend (ft_call (fc_threads c ! t)) (thread_at c t)"
  by (auto simp: writes_inv_def thread_at_def)

lemma caching_sets_ready:
  assumes "writes_inv kv pend s0 c" and "t < length (fc_threads c)" and "thread_at c t = Caching_Ready r"
  shows "ft_call (fc_threads c ! t) = Feed_SetReady r" and "sets_ready c t"
  using writes_inv_thread [OF assms(1,2)] assms(2,3) by (auto simp: sets_ready_def)

lemma sets_ready_next:
  assumes "feed_next B u i c = Some c'" and "u < length (fc_threads c)" and "sets_ready c' t"
  shows "sets_ready c t"
proof (cases "t = u")
  case True
  then show ?thesis
    using assms stepped_not_returned [OF feed_next_frame(1) [OF assms(1,2)]] feed_next_frame(4) [OF assms(1,2)]
    by (auto simp: sets_ready_def)
next
  case False
  then show ?thesis
    using assms(3) feed_next_frame(2,3) [OF assms(1,2)] by (simp add: sets_ready_def thread_at_def)
qed

context badger_kv
begin

lemma ready_flag_cong: "m readyKey = m' readyKey \<Longrightarrow> ready_flag m = ready_flag m'"
  by (simp add: ready_flag_def)

text \<open>One step of a \<open>SetReady\<close> that is alone.\<close>

lemma ready_body:
  assumes "write_inv pend (Feed_SetReady r) fr" and "feed_body B i fr s = Some (s', fr')"
  shows "(fr = Feed_Begin (Feed_SetReady r) \<and> is_returned fr' \<and> st_ready s' = st_ready s \<and>
       ready_flag (kv (st_db s')) = ready_flag (kv (st_db s))) \<or>
     (fr = Feed_Begin (Feed_SetReady r) \<and> fr' = Caching_Ready r \<and> ready_flag (kv (st_db s')) = r) \<or>
     (fr = Caching_Ready r \<and> is_returned fr' \<and> st_ready s' = r \<and> st_db s' = st_db s)"
proof -
  consider (start) "fr = Feed_Begin (Feed_SetReady r)" | (cache) "fr = Caching_Ready r"
    using assms by (cases fr) auto
  then show ?thesis
  proof cases
    case start
    obtain db' x where u: "db_update B (st_db s) (\<lambda>txn. txn_set B txn readyKey [if r then 1 else 0]) = (db', x)"
      by fastforce
    show ?thesis
    proof (cases x)
      case (Inl e)
      then show ?thesis using assms(2) start u update_fail by auto
    next
      case (Inr w)
      then have "kv db' = (kv (st_db s))(readyKey \<mapsto> [if r then 1 else 0])" using u update_set_ok by simp
      then show ?thesis using assms(2) start u Inr by (auto simp: ready_flag_def split: if_splits)
    qed
  qed (use assms(2) in auto)
qed

lemma ready_inv_next:
  assumes i: "ready_inv kv c" and w: "writes_inv kv pend s0 c" and n: "feed_next B u i c = Some c'"
    and u: "u < length (fc_threads c)"
  shows "ready_inv kv c'"
proof -
  note f = feed_next_frame [OF n u]
  have w': "writes_inv kv pend s0 c'" and e: "body_effect kv (ft_call (fc_threads c ! u)) (fc_store c) (fc_store c')"
    using writes_inv_next [OF w u n] by auto
  have oth: "thread_at c' t = thread_at c t" if "t \<noteq> u" for t using f(3) [OF that] by (simp add: thread_at_def)
  have one: "\<forall>t v. sets_ready c' t \<longrightarrow> sets_ready c' v \<longrightarrow> t = v"
    using i sets_ready_next [OF n u] by (auto simp: ready_inv_def)
  have calls: "\<forall>t<length (fc_threads c'). avoids readyKey (ft_call (fc_threads c' ! t)) \<or>
      (\<exists>r. ft_call (fc_threads c' ! t) = Feed_SetReady r)"
    using i f(2,4) by (simp add: ready_inv_def)
  consider (other) "avoids readyKey (ft_call (fc_threads c ! u))"
    | (ready) r where "ft_call (fc_threads c ! u) = Feed_SetReady r"
    using i u by (auto simp: ready_inv_def)
  then show ?thesis
  proof cases
    case other
    have nc: "thread_at c u \<noteq> Caching_Ready r" "thread_at c' u \<noteq> Caching_Ready r" for r
      using caching_sets_ready(1) [OF w u] caching_sets_ready(1) [OF w', of u] other u f(2,4) by auto
    have "ready_flag (kv (st_db (fc_store c'))) = ready_flag (kv (st_db (fc_store c)))"
      by (rule ready_flag_cong) (rule body_effect_avoids [OF e other])
    moreover have "st_ready (fc_store c') = st_ready (fc_store c)"
      using feed_body_ready [OF f(1)] nc(1) by (auto split: feed_frame.splits)
    moreover have "thread_at c' t = Caching_Ready r \<longleftrightarrow> thread_at c t = Caching_Ready r" for t r
      using oth nc by (cases "t = u") auto
    ultimately show ?thesis using one calls i f(2) unfolding ready_inv_def by simp
  next
    case (ready r)
    have "sets_ready c u"
      using ready u stepped_not_returned [OF f(1)] by (auto simp: sets_ready_def)
    then have nc: "thread_at c t \<noteq> Caching_Ready r'" if "t < length (fc_threads c)" "t \<noteq> u" for t r'
      using caching_sets_ready(2) [OF w that(1)] i that(2) by (auto simp: ready_inv_def)
    have nc': "thread_at c' t \<noteq> Caching_Ready r'" if "t < length (fc_threads c')" "t \<noteq> u" for t r'
      using nc that f(2) oth by simp
    have "write_inv pend (Feed_SetReady r) (thread_at c u)"
      using writes_inv_thread [OF w u] ready by simp
    from ready_body [OF this f(1)]
    consider (failed) "thread_at c u = Feed_Begin (Feed_SetReady r)" "is_returned (thread_at c' u)"
        "st_ready (fc_store c') = st_ready (fc_store c)"
        "ready_flag (kv (st_db (fc_store c'))) = ready_flag (kv (st_db (fc_store c)))"
      | (stored) "thread_at c' u = Caching_Ready r" "ready_flag (kv (st_db (fc_store c'))) = r"
      | (cached) "thread_at c u = Caching_Ready r" "is_returned (thread_at c' u)"
        "st_ready (fc_store c') = r" "st_db (fc_store c') = st_db (fc_store c)"
      by blast
    then show ?thesis
    proof cases
      case failed
      have "thread_at c t \<noteq> Caching_Ready r'" if "t < length (fc_threads c)" for t r'
        using nc [OF that] failed(1) by (cases "t = u") auto
      then have "st_ready (fc_store c) = ready_flag (kv (st_db (fc_store c)))" using i by (auto simp: ready_inv_def)
      moreover have "thread_at c' t \<noteq> Caching_Ready r'" if "t < length (fc_threads c')" for t r'
        using nc' [OF that] failed(2) by (cases "t = u") auto
      ultimately show ?thesis using one calls failed(3,4) unfolding ready_inv_def by auto
    next
      case stored
      have "t = u \<and> r' = r" if "t < length (fc_threads c')" "thread_at c' t = Caching_Ready r'" for t r'
        using nc' [OF that(1)] that(2) stored(1) by (cases "t = u") auto
      then have "\<forall>t<length (fc_threads c'). \<forall>r'. thread_at c' t = Caching_Ready r' \<longrightarrow>
          ready_flag (kv (st_db (fc_store c'))) = r'"
        using stored(2) by blast
      moreover have "u < length (fc_threads c')" using u f(2) by simp
      ultimately show ?thesis using one calls stored(1) unfolding ready_inv_def by blast
    next
      case cached
      have "ready_flag (kv (st_db (fc_store c))) = r" using i u cached(1) by (auto simp: ready_inv_def)
      moreover have "thread_at c' t \<noteq> Caching_Ready r'" if "t < length (fc_threads c')" for t r'
        using nc' [OF that] cached(2) by (cases "t = u") auto
      ultimately show ?thesis using one calls cached(3,4) unfolding ready_inv_def by auto
    qed
  qed
qed

lemma ready_inv_steps:
  assumes "feed_steps B ready_apart (feed_start s0) c" and "st_ready s0 = ready_flag (kv (st_db s0))"
  shows "ready_inv kv c \<and> writes_inv kv pend s0 c"
  using assms(1)
proof (induction rule: feed_steps.induct)
  case feed_none
  then show ?case using ready_inv_start assms(2) writes_inv_start by auto
next
  case (feed_call c1 call)
  then show ?case by (auto intro: ready_inv_arrive writes_inv_arrive)
next
  case (feed_step c1 t i c2)
  then show ?case using ready_inv_next [of c1 s0 t i c2] writes_inv_next [of s0 c1 t i c2] by auto
qed

end

section \<open>The end of every call\<close>

text \<open>The steps that a call has left to do, at most; those of other calls do not matter.\<close>

fun feed_work :: "'wb feed_frame \<Rightarrow> nat" where
  "feed_work (Feed_Begin (Feed_SetAll es ine b)) = 2 * length es + 4"
| "feed_work (Feed_Begin (Feed_SetReady r)) = 2"
| "feed_work (Feed_Begin (Feed_Read req)) = length (GetRequest_Keys req) + 2"
| "feed_work (Checking es ine b wb) = 2 * length es + 3"
| "feed_work (Putting e es ine b wb) = 2 * length es + 4"
| "feed_work (Flushing wb) = 2"
| "feed_work (Canceling wb r) = 1"
| "feed_work (Caching_Ready r) = 1"
| "feed_work (Reading req ds) = length (GetRequest_Keys req) - length ds + 1"
| "feed_work (Feed_Returning r) = 0"

lemma feed_body_workers: "feed_body B i fr s = Some (s', fr') \<Longrightarrow> st_numWorkers s' = st_numWorkers s"
  by (induction B i fr s rule: feed_body.induct) (auto split: sum.splits prod.splits if_splits)

text \<open>A read has not looked up more keys than it was given.\<close>

lemma found_in_length:
  assumes "found_in B states req ds"
  shows "length ds \<le> length (GetRequest_Keys req)"
    and "length ds \<noteq> length (GetRequest_Keys req) \<Longrightarrow> \<exists>i<length (GetRequest_Keys req). i \<notin> fst ` set ds"
proof -
  let ?n = "length (GetRequest_Keys req)" and ?is = "set (map fst ds)"
  have d: "distinct (map fst ds)" and sub: "?is \<subseteq> {..<?n}"
    using assms by (auto simp: found_in_def)
  have c: "card ?is = length ds" using distinct_card [OF d] by simp
  then show "length ds \<le> ?n" using card_mono [OF _ sub] by simp
  show "\<exists>i<?n. i \<notin> fst ` set ds" if "length ds \<noteq> ?n"
  proof (rule ccontr)
    assume "\<not> (\<exists>i<?n. i \<notin> fst ` set ds)"
    then have "?is = {..<?n}" using sub by auto
    then show False using c that by simp
  qed
qed

lemma feed_body_work:
  assumes "read_inv B states call fr" and "feed_body B i fr s = Some (s', fr')"
  shows "feed_work fr' < feed_work fr"
proof (cases "(B, i, fr, s)" rule: feed_body.cases)
  case (3 B' i' e es ine b wb s1)
  then have fr: "fr = Checking (e # es) ine b wb" by simp
  have f: "feed_body B i (Checking (e # es) ine b wb) s = Some (s', fr')" using assms(2) unfolding fr .
  obtain g where g: "(if ine then bind_res (entry_key_bytes e) (badger_exists B (st_db s)) else Inr False) = g"
    by blast
  consider (fail) x where "g = Inl x" | (skip) "g = Inr True" | (put) "g = Inr False"
    by (metis (full_types) obj_sumE)
  then show ?thesis using f unfolding feed_body.simps g fr by cases auto
next
  case (4 B' i' e es ine b wb s1)
  then have "feed_body B i (Putting e es ine b wb) s = Some (s', fr')" using assms(2) by simp
  then show ?thesis
  proof (cases rule: putting_cases)
    case (add k v db' x)
    then show ?thesis using 4 by (cases x) auto
  qed (use 4 in auto)
next
  case (10 B' i' req ds s1)
  then have "length ds \<le> length (GetRequest_Keys req)" using assms(1) found_in_length(1) by auto
  then show ?thesis using assms(2) 10 by (auto split: if_splits)
qed (use assms(2) in \<open>auto split: sum.splits prod.splits if_splits\<close>)

lemma feed_body_progress:
  assumes "read_inv B states call fr" and "0 < st_numWorkers s" and "\<not> is_returned fr"
  shows "\<exists>i s' fr'. feed_body B i fr s = Some (s', fr')"
proof (cases "(B, 0 :: nat, fr, s)" rule: feed_body.cases)
  case (10 B' i' req ds s1)
  then have f: "found_in B states req ds" using assms(1) by auto
  show ?thesis
  proof (cases "length ds = length (GetRequest_Keys req)")
    case False
    then obtain i where "i < length (GetRequest_Keys req)" "i \<notin> fst ` set ds"
      using found_in_length(2) [OF f] by blast
    then show ?thesis using 10 False assms(2) by (intro exI [of _ i]) auto
  qed (use 10 in auto)
qed (use assms(3) in auto)

lemma feed_steps_workers: "feed_steps B G c c' \<Longrightarrow> st_numWorkers (fc_store c') = st_numWorkers (fc_store c)"
proof (induction rule: feed_steps.induct)
  case (feed_step c1 t i c2)
  then show ?case using feed_body_workers [OF feed_next_frame(1) [OF feed_step(3,2)]] by simp
qed simp_all

end
