(* ===== verification/Feed_Properties.thy ===== *)
theory Feed_Properties
  imports Feed_Concurrent Grpc_Properties
begin

text \<open>
  The properties of concurrent calls on the Badger store in the remote-feed mode, which
  nothing serializes: what they guarantee, and two interleavings of writes that lose what a
  call that returned without an error has done.
\<close>

section \<open>The requests\<close>

text \<open>
  The call of the store that a request to the feed service makes, if it makes one.  The
  handlers touch nothing else that is shared, so that concurrent requests are concurrent
  calls.
\<close>

definition set_request_call :: "SetRequest \<Rightarrow> feed_call option" where
  "set_request_call req =
     (case SetRequest_GetEntries (Some req) of
        None \<Rightarrow> None
      | Some entries \<Rightarrow>
          if SinkEntries_Entries entries = [] then None
          else Some (Feed_SetAll (SinkEntries_Entries entries) (SinkEntries_IfNotExist entries) 0))"

lemma feed_Set_call:
  "feed_Set (badger_feed_ops B sched) s req =
     (case set_request_call req of
        None \<Rightarrow> (s, Inr SetResponse)
      | Some call \<Rightarrow>
          (case the (write_result B (Feed_Begin call) s) of
             (s', r) \<Rightarrow> (s', bind_res (wrap_res ''setting entries'' r) (\<lambda>_. Inr SetResponse))))"
  by (simp add: feed_Set_def set_request_call_def badger_feed_ops_def split: option.split)

lemma feed_SetReady_call:
  "feed_SetReady (badger_feed_ops B sched) s req =
     (case the (write_result B (Feed_Begin (Feed_SetReady (SetReadyRequest_Ready req))) s) of
        (s', r) \<Rightarrow> (s', bind_res (wrap_res ''setting readiness'' r) (\<lambda>_. Inr SetReadyResponse)))"
  by (simp add: feed_SetReady_def badger_feed_ops_def)

section \<open>Runs of given steps\<close>

text \<open>The threads and goroutines that go next, one after the other.\<close>

fun feed_exec :: "('db, 'it, 'txn, 'wb) badger_api \<Rightarrow> (nat \<times> nat) list \<Rightarrow> ('db, 'wb) feed_conc \<Rightarrow>
    ('db, 'wb) feed_conc option" where
  "feed_exec B [] c = Some c"
| "feed_exec B ((t, i) # ts) c =
     (if t < length (fc_threads c) then Option.bind (feed_next B t i c) (feed_exec B ts) else None)"

lemma feed_exec_steps: "feed_exec B ts c = Some c' \<Longrightarrow> feed_steps B G c0 c \<Longrightarrow> feed_steps B G c0 c'"
proof (induction B ts c rule: feed_exec.induct)
  case (2 B t i ts c)
  then obtain c1 where "t < length (fc_threads c)" "feed_next B t i c = Some c1" "feed_exec B ts c1 = Some c'"
    by (auto split: if_splits bind_splits)
  then show ?case using 2 feed_step [OF 2(3)] by auto
qed auto

section \<open>Reads\<close>

context badger_latest
begin

lemma regular_read:
  assumes "badger_ok kv s0" and "feed_steps B G (feed_start s0) c1" and "t < length (fc_threads c1)"
    and "feed_next B t i c1 = Some c2"
    and "fc_threads c2 ! t = Feed_Thread (Feed_Read req) n (Feed_Returning (Feed_Answer (Inr r)))"
    and "GetRequest_Keys req = map Some ks" and "\<forall>k\<in>set ks. app_key (Key_Bytes k)"
  shows "\<exists>qs. r = response (map Some qs) \<and> length qs = length ks \<and>
    (\<forall>j<length ks. \<exists>s\<in>set (drop n (fc_past c2)). from_calls kv s0 (fc_calls c2) s \<and>
       qs ! j = answer (st_typeUrl s0) (badger_vers kv s) (GetRequest_BlockNumber req) (ks ! j))"
proof -
  have w: "writes_inv kv pend s0 c2"
    using writes_inv_next [OF writes_inv_steps [OF assms(2) writes_inv_start] assms(3,4)] by simp
  have th: "threads_inv B c2"
    by (rule threads_inv_next [OF threads_inv_steps [OF assms(2) threads_inv_start] assms(3,4)])
  have "t < length (fc_threads c2)" using feed_next_frame(2) [OF assms(4,3)] assms(3) by simp
  then have "Feed_Thread (Feed_Read req) n (Feed_Returning (Feed_Answer (Inr r))) \<in> set (fc_threads c2)"
    using assms(5) by (metis nth_mem)
  then have "read_inv B (drop n (fc_past c2)) (Feed_Read req) (Feed_Returning (Feed_Answer (Inr r)) :: 'd feed_frame)"
    using th by (fastforce simp: threads_inv_def)
  then obtain ds workers where "read_end workers req ds = Inr r" "found_in B (drop n (fc_past c2)) req ds"
    "length ds = length (GetRequest_Keys req)"
    by auto
  from read_end_found [OF this] obtain qs where r: "r = response (map Some qs)"
    and l: "length qs = length ks"
    and q: "\<forall>j<length qs. \<exists>s\<in>set (drop n (fc_past c2)).
       badger_get_one B s (GetRequest_BlockNumber req) (Some (ks ! j)) = Inr (qs ! j)"
    by (auto simp: assms(6))
  have "\<exists>s\<in>set (drop n (fc_past c2)). from_calls kv s0 (fc_calls c2) s \<and>
       qs ! j = answer (st_typeUrl s0) (badger_vers kv s) (GetRequest_BlockNumber req) (ks ! j)"
    if j: "j < length ks" for j
  proof -
    obtain s where s: "s \<in> set (drop n (fc_past c2))"
      and g: "badger_get_one B s (GetRequest_BlockNumber req) (Some (ks ! j)) = Inr (qs ! j)"
      using q j l by auto
    have f: "from_calls kv s0 (fc_calls c2) s" using w s by (auto simp: writes_inv_def dest: in_set_dropD)
    have "app_key (Key_Bytes (ks ! j))" using assms(7) j by simp
    from get_one_answers [OF from_calls_ok [OF f assms(1)] this g] f s show ?thesis
      by (auto simp: from_calls_def)
  qed
  with r l show ?thesis by blast
qed

end

text \<open>C6: in the remote-feed mode, whatever calls run in parallel and however their calls of Badger
  interleave, a read that returns without an error answers for every key (but the reserved
  one) with what the store held in some state between the arrival of the read and its
  return, and what it held was there when the process started or was written by a call that
  had arrived.\<close>

theorem feed_reads_regular:
  assumes "badger_latest B kv txw pend sched" and "badger_ok kv s0"
    and "feed_steps B G (feed_start s0) c1" and "t < length (fc_threads c1)" and "feed_next B t i c1 = Some c2"
    and "fc_threads c2 ! t = Feed_Thread (Feed_Read req) n (Feed_Returning (Feed_Answer (Inr r)))"
    and "GetRequest_Keys req = map Some ks" and "\<forall>k\<in>set ks. app_key (Key_Bytes k)"
  shows "\<exists>qs. r = response (map Some qs) \<and> length qs = length ks \<and>
    (\<forall>j<length ks. \<exists>s\<in>set (drop n (fc_past c2)).
       qs ! j = answer (st_typeUrl s0) (badger_vers kv s) (GetRequest_BlockNumber req) (ks ! j) \<and>
       (kv (st_db s) (Key_Bytes (ks ! j)) = kv (st_db s0) (Key_Bytes (ks ! j)) \<or>
        (\<exists>call\<in>fc_calls c2. \<exists>v. kv (st_db s) (Key_Bytes (ks ! j)) = Some v \<and>
           (Key_Bytes (ks ! j), v) \<in> may_write call)))"
proof -
  obtain qs where r: "r = response (map Some qs)" "length qs = length ks"
    and q: "\<forall>j<length ks. \<exists>s\<in>set (drop n (fc_past c2)). from_calls kv s0 (fc_calls c2) s \<and>
       qs ! j = answer (st_typeUrl s0) (badger_vers kv s) (GetRequest_BlockNumber req) (ks ! j)"
    using badger_latest.regular_read [OF assms] by blast
  show ?thesis by (rule exI [of _ qs]) (use r q in \<open>auto simp: from_calls_def; blast\<close>)
qed

theorem feed_reads_regular_witness:
  "\<exists>c1 c2 r. feed_steps mem_badger (\<lambda>_ _. True)
      (feed_start (latest_store [([1], value_with_block 3 [7])])) c1 \<and>
    feed_next mem_badger 1 0 c1 = Some c2 \<and> thread_at c2 1 = Feed_Returning (Feed_Answer (Inr r)) \<and>
    (\<exists>q. r = response [Some q] \<and> (\<exists>s\<in>set (fc_past c2). q = answer ''t'' (badger_vers map_of s) 5 \<lparr>Key_Bytes = [1]\<rparr>))"
proof -
  let ?s0 = "latest_store [([1], value_with_block 3 [7])]" and ?req = "sample_req 5 [[1]]"
  let ?c0 = "feed_arrive (Feed_Read ?req) (feed_arrive (Feed_SetReady True) (feed_start ?s0))"
  have s0: "badger_ok map_of ?s0"
    by (auto simp: badger_ok_def latest_store_def value_with_block_def split: if_splits)
  have r0: "feed_steps mem_badger (\<lambda>_ _. True) (feed_start ?s0) ?c0" by (intro feed_call feed_none) auto
  obtain c1 c2 r where c1: "feed_exec mem_badger [(0, 0), (1, 0), (1, 0), (0, 0)] ?c0 = Some c1"
    and l: "1 < length (fc_threads c1)" and c2: "feed_next mem_badger 1 0 c1 = Some c2"
    and t: "fc_threads c2 ! 1 = Feed_Thread (Feed_Read ?req) 0 (Feed_Returning (Feed_Answer (Inr r)))"
    by (simp add: feed_next_def feed_start_def feed_arrive_def mem_badger_def latest_store_def readyKey_def
        mem_write_def badger_get_one_def value_with_block_def Let_def read_end_def fan_out_def)
  obtain qs where q: "r = response (map Some qs)" "length qs = 1"
    "\<exists>s\<in>set (fc_past c2). qs ! 0 = answer ''t'' (badger_vers map_of s) 5 \<lparr>Key_Bytes = [1]\<rparr>"
    using feed_reads_regular [OF mem_latest.badger_latest_axioms s0 feed_exec_steps [OF c1 r0] l c2 t,
        of "[\<lparr>Key_Bytes = [1]\<rparr>]"]
    by (auto simp: app_key_short latest_store_def)
  then obtain q where "qs = [q]" by (cases qs) auto
  then show ?thesis
    using feed_exec_steps [OF c1 r0] c2 t q by (intro exI [of _ c1] exI [of _ c2] exI [of _ r]) (auto simp: thread_at_def)
qed

section \<open>Writes that nobody else makes\<close>

lemma get_one_of_value:
  assumes "badger_kv B kv txw pend" and "kv (st_db s) (Key_Bytes k) = Some (value_with_block b v)"
    and "badger_get_one B s c (Some k) = Inr q"
  shows "q = answer (st_typeUrl s) (\<lambda>_. [b \<mapsto> v]) c k"
proof (cases "txn_get B (st_db s) (Key_Bytes k)")
  case (Inl e)
  then show ?thesis
    using badger_kv.get_none [OF assms(1) Inl] assms(2,3) by (auto simp: badger_get_one_def split: if_splits)
next
  case (Inr it)
  then obtain sv where sv: "item_value B it = Inr sv"
    using assms(3) by (auto simp: badger_get_one_def split: sum.splits)
  then have "sv = value_with_block b v" using badger_kv.get_value [OF assms(1) Inr sv] assms(2) by simp
  then show ?thesis
    using assms(3) Inr sv by (auto simp: badger_get_one_def answer_def Let_def value_with_block_def split: if_splits)
qed

lemma raw_last_write:
  "last_write es k = Some v \<Longrightarrow> map_of (rev (map (raw (badger_enc b)) es)) k = Some (value_with_block b v)"
  by (simp add: rev_map map_of_raw_badger last_write_def)

lemma feed_steps_threads:
  assumes "feed_steps B G c c'" and "t < length (fc_threads c)"
  shows "t < length (fc_threads c') \<and> ft_call (fc_threads c' ! t) = ft_call (fc_threads c ! t) \<and>
    ft_since (fc_threads c' ! t) = ft_since (fc_threads c ! t)"
  using assms
proof (induction rule: feed_steps.induct)
  case (feed_step c1 u i c2)
  from feed_step(3) show ?case
    by (rule feed_next_cases) (use feed_step in \<open>auto simp: nth_list_update\<close>)
qed (auto simp: nth_append)

lemma length_past: "feed_steps B G c c' \<Longrightarrow> length (fc_past c) \<le> length (fc_past c')"
  by (induction rule: feed_steps.induct) (auto elim!: feed_next_cases)

lemma threads_inv_at:
  assumes "threads_inv B c" and "t < length (fc_threads c)"
  shows "read_inv B (drop (ft_since (fc_threads c ! t)) (fc_past c)) (ft_call (fc_threads c ! t)) (thread_at c t)"
  using assms by (simp add: threads_inv_def thread_at_def)

text \<open>The states that a read which arrives in \<open>c\<close> may see.\<close>

lemma states_since:
  assumes "fc_past c \<noteq> []" and "last (fc_past c) = fc_store c" and "fc_past c' = fc_past c @ xs"
  shows "drop (length (fc_past c) - 1) (fc_past c') = fc_store c # xs"
proof -
  have "fc_past c = butlast (fc_past c) @ [fc_store c]" using assms(1,2) by (metis append_butlast_last_id)
  then have "drop (length (butlast (fc_past c))) (fc_past c') = fc_store c # xs" using assms(3) by (metis append_assoc append_Cons append_Nil append_eq_conv_conj)
  then show ?thesis by simp
qed

context badger_latest
begin

lemma write_then_read:
  assumes "feed_steps B G (feed_start s0) c"
    and q: "\<forall>th\<in>set (fc_threads c). avoids k (ft_call th) \<or> is_returned (ft_frame th)"
    and lw: "last_write es k = Some v"
    and wr: "feed_steps B (\<lambda>_. avoids k) (feed_arrive (Feed_SetAll es False b) c) c1"
    and ret: "thread_at c1 (length (fc_threads c)) = Feed_Returning (Feed_Done (Inr ()))"
    and rd: "feed_steps B (\<lambda>_. avoids k) (feed_arrive (Feed_Read req) c1) c2"
    and ans: "thread_at c2 (length (fc_threads c1)) = Feed_Returning (Feed_Answer (Inr r))"
    and j: "j < length (GetRequest_Keys req)" "GetRequest_Keys req ! j = Some \<kappa>" "Key_Bytes \<kappa> = k"
  shows "\<exists>qs. r = response (map Some qs) \<and> length qs = length (GetRequest_Keys req) \<and>
    qs ! j = answer (st_typeUrl s0) (\<lambda>_. [b \<mapsto> v]) (GetRequest_BlockNumber req) \<kappa>"
proof -
  let ?t = "length (fc_threads c)" and ?u = "length (fc_threads c1)" and ?w = "value_with_block b v"
  have w: "writes_inv kv pend s0 c" by (rule writes_inv_steps [OF assms(1) writes_inv_start])
  have th: "threads_inv B c" by (rule threads_inv_steps [OF assms(1) threads_inv_start])
  have l: "left_to ?t k (feed_arrive (Feed_SetAll es False b) c)"
    using q by (intro left_to_arrive) (auto simp: left_to_def)
  have o: "owes pend k ?w (kv (st_db (fc_store c))) (thread_at (feed_arrive (Feed_SetAll es False b) c) ?t)"
    using raw_last_write [OF lw] by (simp add: thread_at_def)
  have 1: "writes_inv kv pend s0 c1 \<and> left_to ?t k c1 \<and> ?t < length (fc_threads c1) \<and>
      owes pend k ?w (kv (st_db (fc_store c1))) (thread_at c1 ?t)"
    by (rule owes_steps [OF wr writes_inv_arrive [OF w] l]) (use o in auto)
  then have val: "kv (st_db (fc_store c1)) k = Some ?w" by (simp add: ret)
  have th1: "threads_inv B c1" by (rule threads_inv_steps [OF wr threads_inv_arrive [OF th]])
  have av: "avoids k (Feed_Read req)" by (simp add: avoids_def)
  have 2: "kv (st_db (fc_store c2)) k = Some ?w \<and> writes_inv kv pend s0 c2 \<and> left_to ?t k c2 \<and>
      ?t < length (fc_threads c2) \<and> is_returned (thread_at c2 ?t) \<and>
      (\<forall>s\<in>set (drop (length (fc_past c1)) (fc_past c2)). kv (st_db s) k = Some ?w) \<and> length (fc_past c1) \<le> length (fc_past c2)"
  proof -
    have "writes_inv kv pend s0 (feed_arrive (Feed_Read req) c1)" and "left_to ?t k (feed_arrive (Feed_Read req) c1)"
      and "?t < length (fc_threads (feed_arrive (Feed_Read req) c1))"
      and "is_returned (thread_at (feed_arrive (Feed_Read req) c1) ?t)"
      and "kv (st_db (fc_store (feed_arrive (Feed_Read req) c1))) k = Some ?w"
      using 1 val ret av by (auto simp: thread_at_def nth_append intro: writes_inv_arrive left_to_arrive)
    from value_stays [OF rd this] show ?thesis by simp
  qed
  obtain xs where xs: "fc_past c2 = fc_past c1 @ xs"
    using feed_steps_past [OF rd] th1 by (auto simp: threads_inv_def)
  have st: "drop (length (fc_past c1) - 1) (fc_past c2) = fc_store c1 # xs"
    by (rule states_since [OF _ _ xs]) (use th1 in \<open>auto simp: threads_inv_def\<close>)
  have u: "?u < length (fc_threads c2) \<and> ft_call (fc_threads c2 ! ?u) = Feed_Read req \<and>
      ft_since (fc_threads c2 ! ?u) = length (fc_past c1) - 1"
    using feed_steps_threads [OF rd, of ?u] by simp
  have "read_inv B (fc_store c1 # xs) (Feed_Read req) (thread_at c2 ?u)"
    using threads_inv_at [OF threads_inv_steps [OF rd threads_inv_arrive [OF th1]]] u st by metis
  then obtain ds workers where "read_end workers req ds = Inr r" "found_in B (fc_store c1 # xs) req ds"
    "length ds = length (GetRequest_Keys req)"
    by (auto simp: ans)
  from read_end_found [OF this] obtain qs where r: "r = response (map Some qs)"
    and len: "length qs = length (GetRequest_Keys req)"
    and g: "\<forall>j<length qs. \<exists>s\<in>set (fc_store c1 # xs).
       badger_get_one B s (GetRequest_BlockNumber req) (GetRequest_Keys req ! j) = Inr (qs ! j)"
    by blast
  obtain s where s: "s \<in> set (fc_store c1 # xs)"
    and gs: "badger_get_one B s (GetRequest_BlockNumber req) (Some \<kappa>) = Inr (qs ! j)"
    using g j(1,2) len by metis
  have "kv (st_db s) k = Some ?w" using s val 2 xs by auto
  moreover have "st_typeUrl s = st_typeUrl s0"
  proof -
    have "s \<in> set (fc_past c2)" using s st by (metis in_set_dropD)
    then show ?thesis using 2 by (simp add: writes_inv_def from_calls_def)
  qed
  ultimately have "qs ! j = answer (st_typeUrl s0) (\<lambda>_. [b \<mapsto> v]) (GetRequest_BlockNumber req) \<kappa>"
    using get_one_of_value [OF badger_kv_axioms _ gs] j(3) by simp
  with r len show ?thesis by blast
qed

end

text \<open>C7: in the remote-feed mode, a \<open>SetAll\<close> (without \<open>IfNotExist\<close>) that has returned without an
  error is seen by every read that arrives afterwards, whatever other calls run in parallel
  with the two, as long as no other call sets the key.\<close>

theorem feed_write_then_read:
  assumes "badger_latest B kv txw pend sched" and "feed_steps B G (feed_start s0) c"
    and "\<forall>th\<in>set (fc_threads c). avoids k (ft_call th) \<or> is_returned (ft_frame th)"
    and "last_write es k = Some v"
    and "feed_steps B (\<lambda>_. avoids k) (feed_arrive (Feed_SetAll es False b) c) c1"
    and "thread_at c1 (length (fc_threads c)) = Feed_Returning (Feed_Done (Inr ()))"
    and "feed_steps B (\<lambda>_. avoids k) (feed_arrive (Feed_Read req) c1) c2"
    and "thread_at c2 (length (fc_threads c1)) = Feed_Returning (Feed_Answer (Inr r))"
    and "j < length (GetRequest_Keys req)" and "GetRequest_Keys req ! j = Some \<kappa>" and "Key_Bytes \<kappa> = k"
  shows "\<exists>qs. r = response (map Some qs) \<and> length qs = length (GetRequest_Keys req) \<and>
    qs ! j = answer (st_typeUrl s0) (\<lambda>_. [b \<mapsto> v]) (GetRequest_BlockNumber req) \<kappa>"
  by (rule badger_latest.write_then_read [OF assms])

theorem feed_write_then_read_witness:
  "\<exists>c1 c2. feed_steps mem_badger (\<lambda>_. avoids [1])
      (feed_arrive (Feed_SetAll [mk_entry [1] ''t'' [8]] False 0) (feed_start (latest_store []))) c1 \<and>
    feed_steps mem_badger (\<lambda>_. avoids [1]) (feed_arrive (Feed_Read (sample_req 5 [[1]])) c1) c2 \<and>
    thread_at c2 (length (fc_threads c1)) =
      Feed_Returning (Feed_Answer (Inr (response [Some (found (Some \<lparr>Key_Bytes = [1]\<rparr>) ''t'' [8])])))"
proof -
  let ?s0 = "latest_store []" and ?call = "Feed_SetAll [mk_entry [1] ''t'' [8]] False 0" and ?req = "sample_req 5 [[1]]"
  let ?c0 = "feed_arrive ?call (feed_start ?s0)"
  have e: "entry_key_bytes (mk_entry [1] ''t'' [8]) = Inr [1]" "entry_value_bytes (mk_entry [1] ''t'' [8]) = Inr [8]"
    using entry_ok_key [OF entry_ok_mk_entry [of "[1]" "''t''" "[8]"]]
      entry_ok_value [OF entry_ok_mk_entry [of "[1]" "''t''" "[8]"]] by auto
  obtain c1 where c1: "feed_exec mem_badger [(0, 0), (0, 0), (0, 0), (0, 0), (0, 0), (0, 0)] ?c0 = Some c1"
    and s1: "fc_store c1 = latest_store [([1], value_with_block 0 [8])]"
    and t1: "fc_threads c1 = [Feed_Thread ?call 0 (Feed_Returning (Feed_Done (Inr ())))]"
    by (simp add: feed_next_def feed_start_def feed_arrive_def mem_badger_def latest_store_def mem_write_def e)
  obtain c2 r where c2: "feed_exec mem_badger [(1, 0), (1, 0), (1, 0)] (feed_arrive (Feed_Read ?req) c1) = Some c2"
    and t2: "thread_at c2 1 = Feed_Returning (Feed_Answer (Inr r))"
    by (simp add: feed_next_def feed_arrive_def s1 t1 mem_badger_def latest_store_def thread_at_def
        badger_get_one_def value_with_block_def Let_def read_end_def fan_out_def)
  have r1: "feed_steps mem_badger (\<lambda>_. avoids [1]) ?c0 c1" by (rule feed_exec_steps [OF c1 feed_none])
  have r2: "feed_steps mem_badger (\<lambda>_. avoids [1]) (feed_arrive (Feed_Read ?req) c1) c2"
    by (rule feed_exec_steps [OF c2 feed_none])
  have "\<exists>qs. r = response (map Some qs) \<and> length qs = 1 \<and> qs ! 0 = answer ''t'' (\<lambda>_. [0 \<mapsto> [8]]) 5 \<lparr>Key_Bytes = [1]\<rparr>"
    using feed_write_then_read [OF mem_latest.badger_latest_axioms feed_none [of mem_badger "\<lambda>_ _. True"] _ _ r1 _ r2,
        of "[8]" r 0 "\<lparr>Key_Bytes = [1]\<rparr>"] t1 t2
    by (simp add: feed_start_def last_write_def thread_at_def latest_store_def)
  then obtain qs where "r = response (map Some qs)" "length qs = 1"
    "qs ! 0 = found (Some \<lparr>Key_Bytes = [1]\<rparr>) ''t'' [8]"
    by (auto simp: answer_def)
  then have "r = response [Some (found (Some \<lparr>Key_Bytes = [1]\<rparr>) ''t'' [8])]" by (cases qs) auto
  then show ?thesis using r1 r2 t1 t2 by (intro exI [of _ c1] exI [of _ c2]) simp
qed

section \<open>Readiness\<close>

text \<open>C39: when the calls of \<open>SetReady\<close> do not overlap and no call sets the reserved key, then
  whenever none of them is running the flag that \<open>IsReady\<close> reports is the one in the
  database, so a restart reports the same, whatever else runs in parallel.\<close>

theorem ready_flag_settles:
  assumes "badger_kv B kv txw pend" and "st_ready s0 = ready_flag (kv (st_db s0))"
    and "feed_steps B ready_apart (feed_start s0) c" and "\<forall>t. \<not> sets_ready c t"
    and "open_db path = Inr db" and "kv db = kv (st_db (fc_store c))"
    and "badger_NewStore B mkdir open_db path typeUrl workers = Inr s"
  shows "badger_IsReady s = badger_IsReady (fc_store c) \<and>
    badger_IsReady (fc_store c) = Inr (ready_flag (kv (st_db (fc_store c))))"
proof -
  have i: "ready_inv kv c" and w: "writes_inv kv pend s0 c"
    using badger_kv.ready_inv_steps [OF assms(1,3,2)] by auto
  have "thread_at c t \<noteq> Caching_Ready r" if "t < length (fc_threads c)" for t r
    using caching_sets_ready(2) [OF w that] assms(4) by blast
  then have "st_ready (fc_store c) = ready_flag (kv (st_db (fc_store c)))"
    using i by (auto simp: ready_inv_def)
  moreover have "st_ready s = ready_flag (kv db)"
    using badger_kv.NewStore_flag [OF assms(1,7)] assms(5) by auto
  ultimately show ?thesis using assms(6) by (simp add: badger_IsReady_def)
qed

lemma mem_readReady: "readReadyFromDB mem_badger db = Inr (ready_flag (map_of db))"
proof -
  have "readyKey \<noteq> []" by (simp add: readyKey_def)
  then show ?thesis
    by (simp add: readReadyFromDB_def mem_badger_def ready_flag_def split: option.split list.split)
qed

theorem ready_flag_settles_witness:
  "\<exists>c. feed_steps mem_badger ready_apart (feed_start (latest_store [])) c \<and>
    map ft_call (fc_threads c) = [Feed_SetReady True, Feed_Read (sample_req 5 [[1]])] \<and>
    badger_IsReady (fc_store c) = Inr True \<and> ready_flag (map_of (st_db (fc_store c)))"
proof -
  let ?c0 = "feed_arrive (Feed_Read (sample_req 5 [[1]])) (feed_arrive (Feed_SetReady True) (feed_start (latest_store [])))"
  have r0: "feed_steps mem_badger ready_apart (feed_start (latest_store [])) ?c0"
    by (intro feed_call feed_none) (auto simp: ready_apart_def sets_ready_def feed_start_def avoids_def)
  obtain c where c: "feed_exec mem_badger [(0, 0), (1, 0), (0, 0)] ?c0 = Some c"
    and t: "fc_threads c = [Feed_Thread (Feed_SetReady True) 0 (Feed_Returning (Feed_Done (Inr ()))),
        Feed_Thread (Feed_Read (sample_req 5 [[1]])) 0 (Reading (sample_req 5 [[1]]) [])]"
    and s: "st_ready (fc_store c)"
    by (simp add: feed_next_def feed_start_def feed_arrive_def mem_badger_def latest_store_def mem_write_def
        thread_at_def readyKey_def)
  have q: "\<forall>t. \<not> sets_ready c t"
  proof (intro allI notI)
    fix u assume u: "sets_ready c u"
    then consider "u = 0" | "u = 1" by (auto simp: sets_ready_def t less_Suc_eq)
    then show False using u by cases (simp_all add: sets_ready_def thread_at_def t)
  qed
  obtain s' where s': "badger_NewStore mem_badger (\<lambda>_. Inr ()) (\<lambda>_. Inr (st_db (fc_store c))) ''p'' ''t'' 2 = Inr s'"
    by (simp add: badger_NewStore_def mem_readReady)
  show ?thesis
    using ready_flag_settles [OF mem.badger_kv_axioms _ feed_exec_steps [OF c r0] q _ _ s'] s t
      feed_exec_steps [OF c r0]
    by (intro exI [of _ c]) (simp add: latest_store_def ready_flag_def badger_IsReady_def)
qed

section \<open>Calls that race\<close>

context badger_reliable
begin

lemma ready_update_total: "key_ok readyKey \<Longrightarrow>
    \<exists>db'. db_update B db (\<lambda>txn. txn_set B txn readyKey v) = (db', Inr ()) \<and> kv db' = (kv db)(readyKey \<mapsto> v)"
  using txn_set_total [of readyKey "txn_new B db" v] update_total [of "\<lambda>txn. txn_set B txn readyKey v" db]
    update_set_ok [of db readyKey v]
  by (metis prod.collapse)

lemma fresh_exists: "key_ok k \<Longrightarrow> kv db k = None \<Longrightarrow> badger_exists B db k = Inr False"
  using get_total [of k db] get_item [of db k]
  by (auto simp: badger_exists_def split: sum.split)

text \<open>The put and the flush of a batch with one entry.\<close>

lemma put_flush_total:
  assumes "key_ok k"
  shows "\<exists>db1 wb1. wb_set B db wb k v = (db1, Inr wb1) \<and>
    (pend wb = [] \<longrightarrow> (\<exists>db2. wb_flush B db1 wb1 = (db2, Inr ()) \<and> kv (wb_cancel B db2 wb1) = (kv db)(k \<mapsto> v)))"
proof -
  obtain db1 wb1 where s: "wb_set B db wb k v = (db1, Inr wb1)" using wb_set_total [OF assms] by blast
  then obtain ps where ps: "pend wb @ [(k, v)] = ps @ pend wb1" and db1: "kv db1 = apply_sets ps (kv db)"
    using wb_set_ok by blast
  obtain db2 where f: "wb_flush B db1 wb1 = (db2, Inr ())" using wb_flush_total [of db1 wb1] by (metis prod.collapse)
  then have "kv db2 = apply_sets (ps @ pend wb1) (kv db)" using wb_flush_ok [OF f] db1 by simp
  then show ?thesis using s f by (auto simp: wb_cancel ps [symmetric])
qed

end

text \<open>C26: \<open>SetReady\<close> is not atomic: when a call that sets the flag and one that clears it overlap,
  both can return without an error and leave the store ready in memory and not ready in the
  database, so that a restart takes it back.\<close>

theorem ready_race:
  assumes "badger_reliable B kv txw pend key_ok" and "key_ok readyKey"
  shows "\<exists>c. feed_steps B (\<lambda>_ _. True) (feed_start s0) c \<and>
    map ft_call (fc_threads c) = [Feed_SetReady True, Feed_SetReady False] \<and>
    map ft_frame (fc_threads c) = [Feed_Returning (Feed_Done (Inr ())), Feed_Returning (Feed_Done (Inr ()))] \<and>
    badger_IsReady (fc_store c) = Inr True \<and> \<not> ready_flag (kv (st_db (fc_store c)))"
proof -
  obtain db1 where db1: "db_update B (st_db s0) (\<lambda>txn. txn_set B txn readyKey [1]) = (db1, Inr ())"
    using badger_reliable.ready_update_total [OF assms] by blast
  obtain db2 where db2: "db_update B db1 (\<lambda>txn. txn_set B txn readyKey [0]) = (db2, Inr ())"
    and kv: "kv db2 = (kv db1)(readyKey \<mapsto> [0])"
    using badger_reliable.ready_update_total [OF assms] by blast
  let ?c0 = "feed_arrive (Feed_SetReady False) (feed_arrive (Feed_SetReady True) (feed_start s0))"
  have r: "feed_steps B (\<lambda>_ _. True) (feed_start s0) ?c0" by (intro feed_call feed_none) auto
  obtain c where c: "feed_exec B [(0, 0), (1, 0), (1, 0), (0, 0)] ?c0 = Some c"
    and t: "map ft_call (fc_threads c) = [Feed_SetReady True, Feed_SetReady False]"
      "map ft_frame (fc_threads c) = [Feed_Returning (Feed_Done (Inr ())), Feed_Returning (Feed_Done (Inr ()))]"
    and s: "st_ready (fc_store c)" "st_db (fc_store c) = db2"
    by (simp add: feed_next_def feed_start_def feed_arrive_def db1 db2)
  show ?thesis
    by (rule exI [of _ c]) (use feed_exec_steps [OF c r] t s kv in \<open>simp add: badger_IsReady_def ready_flag_def\<close>)
qed

theorem ready_race_witness:
  "\<exists>c. feed_steps mem_badger (\<lambda>_ _. True) (feed_start (latest_store [])) c \<and>
    badger_IsReady (fc_store c) = Inr True \<and> \<not> ready_flag (map_of (st_db (fc_store c)))"
proof -
  have "readyKey \<noteq> []" by (simp add: readyKey_def)
  then show ?thesis
    using ready_race [OF mem.badger_reliable_axioms, of "latest_store []"] by blast
qed

text \<open>C27: \<open>IfNotExist\<close> checks and writes in separate transactions: of two \<open>SetAll\<close> of a new key
  with \<open>IfNotExist\<close>, both can return without an error and the second overwrites what the
  first has stored.\<close>

theorem if_not_exist_race:
  assumes "badger_reliable B kv txw pend key_ok" and "key_ok k" and "kv (st_db s0) k = None"
  shows "\<exists>c1 c2. feed_steps B (\<lambda>_ _. True) (feed_start s0) c1 \<and> feed_steps B (\<lambda>_ _. False) c1 c2 \<and>
    map ft_call (fc_threads c2) = [Feed_SetAll [mk_entry k t v] True b, Feed_SetAll [mk_entry k t' v'] True b'] \<and>
    thread_at c1 0 = Feed_Returning (Feed_Done (Inr ())) \<and>
    kv (st_db (fc_store c1)) k = Some (value_with_block b v) \<and>
    thread_at c2 1 = Feed_Returning (Feed_Done (Inr ())) \<and>
    kv (st_db (fc_store c2)) k = Some (value_with_block b' v')"
proof -
  let ?e = "mk_entry k t v" and ?e' = "mk_entry k t' v'"
  let ?c0 = "feed_arrive (Feed_SetAll [?e'] True b') (feed_arrive (Feed_SetAll [?e] True b) (feed_start s0))"
  let ?wb = "wb_new B (st_db s0)"
  have fresh: "badger_exists B (st_db s0) k = Inr False"
    by (rule badger_reliable.fresh_exists [OF assms])
  have kv: "badger_kv B kv txw pend" using assms(1) by (simp add: badger_reliable_def)
  have p: "pend ?wb = []" by (rule badger_kv.wb_empty [OF kv])
  obtain db1 wb1 db2 where w1: "wb_set B (st_db s0) ?wb k (value_with_block b v) = (db1, Inr wb1)"
    and f1: "wb_flush B db1 wb1 = (db2, Inr ())"
    and k1: "kv (wb_cancel B db2 wb1) = (kv (st_db s0))(k \<mapsto> value_with_block b v)"
    using badger_reliable.put_flush_total [OF assms(1,2)] p by blast
  let ?db = "wb_cancel B db2 wb1"
  obtain db3 wb2 db4 where w2: "wb_set B ?db ?wb k (value_with_block b' v') = (db3, Inr wb2)"
    and f2: "wb_flush B db3 wb2 = (db4, Inr ())"
    and k2: "kv (wb_cancel B db4 wb2) = (kv ?db)(k \<mapsto> value_with_block b' v')"
    using badger_reliable.put_flush_total [OF assms(1,2)] p by blast
  have e: "entry_key_bytes ?e = Inr k" "entry_value_bytes ?e = Inr v"
    "entry_key_bytes ?e' = Inr k" "entry_value_bytes ?e' = Inr v'"
    using entry_ok_key [OF entry_ok_mk_entry [of k t v]] entry_ok_value [OF entry_ok_mk_entry [of k t v]]
      entry_ok_key [OF entry_ok_mk_entry [of k t' v']] entry_ok_value [OF entry_ok_mk_entry [of k t' v']] by auto
  have r: "feed_steps B (\<lambda>_ _. True) (feed_start s0) ?c0" by (intro feed_call feed_none) auto
  obtain c1 where c1: "feed_exec B [(0, 0), (0, 0), (1, 0), (1, 0), (0, 0), (0, 0), (0, 0), (0, 0)] ?c0 = Some c1"
    and s1: "fc_store c1 = s0\<lparr>st_db := ?db\<rparr>"
    and t1: "fc_threads c1 = [Feed_Thread (Feed_SetAll [?e] True b) 0 (Feed_Returning (Feed_Done (Inr ()))),
        Feed_Thread (Feed_SetAll [?e'] True b') 0 (Putting ?e' [] True b' ?wb)]"
    by (simp add: feed_next_def feed_start_def feed_arrive_def fresh e w1 f1 cong: if_cong)
  obtain c2 where c2: "feed_exec B [(1, 0), (1, 0), (1, 0), (1, 0)] c1 = Some c2"
    and s2: "fc_store c2 = s0\<lparr>st_db := wb_cancel B db4 wb2\<rparr>"
    and t2: "fc_threads c2 = [Feed_Thread (Feed_SetAll [?e] True b) 0 (Feed_Returning (Feed_Done (Inr ()))),
        Feed_Thread (Feed_SetAll [?e'] True b') 0 (Feed_Returning (Feed_Done (Inr ())))]"
    by (simp add: feed_next_def s1 t1 e w2 f2)
  have "feed_steps B (\<lambda>_ _. False) c1 c2" by (rule feed_exec_steps [OF c2 feed_none])
  with feed_exec_steps [OF c1 r] show ?thesis
    using s1 s2 t1 t2 k1 k2 by (intro exI [of _ c1] exI [of _ c2]) (simp add: thread_at_def)
qed

theorem if_not_exist_race_witness:
  "\<exists>c1 c2. feed_steps mem_badger (\<lambda>_ _. True) (feed_start (latest_store [])) c1 \<and>
    feed_steps mem_badger (\<lambda>_ _. False) c1 c2 \<and>
    map_of (st_db (fc_store c1)) [1] = Some (value_with_block 0 [8]) \<and>
    map_of (st_db (fc_store c2)) [1] = Some (value_with_block 0 [9])"
  using if_not_exist_race [OF mem.badger_reliable_axioms, of "[1]" "latest_store []" "''t''" "[8]" 0 "''t''" "[9]" 0]
  by (simp add: latest_store_def) blast

section \<open>The end of every call\<close>



end
