(* ===== verification/Lifecycle.thy ===== *)
theory Lifecycle
  imports Command_Properties
begin

text \<open>
  What the commands open and close: the databases of the stores and the connection to the
  store manager.  \<open>Close\<close> of a store closes its database; the commands defer it for the
  Badger stores, and \<open>os.Exit\<close> skips what is deferred.
\<close>

section \<open>The stores\<close>

text \<open>\<open>db_close\<close> is \<open>Close\<close> of the database.  The database of a store that \<open>NewStore\<close> returns is not nil.\<close>

definition badger_Close :: "('db \<Rightarrow> 'o) \<Rightarrow> 'db badger_store \<Rightarrow> 'o" where
  "badger_Close db_close s = db_close (st_db s)"

definition badger_GetDB :: "'db badger_store \<Rightarrow> 'db" where
  "badger_GetDB s = st_db s"

definition badger_GetTypeURL :: "'db badger_store \<Rightarrow> string" where
  "badger_GetTypeURL s = st_typeUrl s"

definition tt_Close :: "('db \<Rightarrow> 'o) \<Rightarrow> 'db tt_store \<Rightarrow> 'o" where
  "tt_Close db_close s = db_close (tt_db s)"

definition tt_GetDB :: "'db tt_store \<Rightarrow> 'db" where
  "tt_GetDB s = tt_db s"

definition tt_GetTypeURL :: "'db tt_store \<Rightarrow> string" where
  "tt_GetTypeURL s = tt_typeUrl s"

definition pgtt_Close :: "('pdb \<Rightarrow> 'o) \<Rightarrow> ('pdb, 'st) pgtt_store \<Rightarrow> 'o" where
  "pgtt_Close db_close s = db_close (pgtt_db s)"

definition pgtt_GetTypeURL :: "('pdb, 'st) pgtt_store \<Rightarrow> string" where
  "pgtt_GetTypeURL s = pgtt_typeUrl s"

section \<open>Handles\<close>

datatype ('db, 'pdb, 'conn) handle = Handle_Badger 'db | Handle_SQL 'pdb | Handle_Conn 'conn

datatype 'h handle_event = Opened 'h | Closed 'h

text \<open>What is still open after a history, when everything is closed in the reverse order of opening.\<close>

fun open_after :: "'h handle_event list \<Rightarrow> 'h list \<Rightarrow> 'h list option" where
  "open_after [] hs = Some hs"
| "open_after (Opened h # es) hs = open_after es (h # hs)"
| "open_after (Closed h # es) hs =
     (case hs of [] \<Rightarrow> None | h' # hs' \<Rightarrow> if h' = h then open_after es hs' else None)"

text \<open>What \<open>NewStore\<close> opens, and closes when it fails.\<close>

definition badger_NewStore_handles :: "('db, 'it, 'txn, 'wb) badger_api \<Rightarrow> (string \<Rightarrow> error + unit) \<Rightarrow>
    (string \<Rightarrow> error + 'db) \<Rightarrow> string \<Rightarrow> ('db, 'pdb, 'conn) handle handle_event list" where
  "badger_NewStore_handles B mkdir open_db path =
     (case mkdir path of
        Inl e \<Rightarrow> []
      | Inr _ \<Rightarrow>
          (case open_db path of
             Inl e \<Rightarrow> []
           | Inr db \<Rightarrow>
               (case readReadyFromDB B db of
                  Inl f \<Rightarrow> [Opened (Handle_Badger db), Closed (Handle_Badger db)]
                | Inr ready \<Rightarrow> [Opened (Handle_Badger db)])))"

definition tt_NewStore_handles :: "(string \<Rightarrow> error + unit) \<Rightarrow> (string \<Rightarrow> error + 'db) \<Rightarrow> string \<Rightarrow>
    ('db, 'pdb, 'conn) handle handle_event list" where
  "tt_NewStore_handles mkdir open_db path =
     (case mkdir path of
        Inl e \<Rightarrow> []
      | Inr _ \<Rightarrow> (case open_db path of Inl e \<Rightarrow> [] | Inr db \<Rightarrow> [Opened (Handle_Badger db)]))"

text \<open>Both Postgres stores.\<close>

definition sql_NewStore_handles :: "('pdb, 'st, 'tx) sql_api \<Rightarrow> DSN \<Rightarrow> ('db, 'pdb, 'conn) handle handle_event list" where
  "sql_NewStore_handles P dsn =
     (let (dsn1, connectionString) = ConnString dsn in
      case sql_open P (DSN_Driver dsn1) connectionString of Inl e \<Rightarrow> [] | Inr db \<Rightarrow> [Opened (Handle_SQL db)])"

section \<open>The commands\<close>

definition base_handles :: "('db, 'it, 'txn, 'wb) badger_api \<Rightarrow> ('pdb, 'st, 'tx) sql_api \<Rightarrow> (string \<Rightarrow> error + unit) \<Rightarrow>
    (string \<Rightarrow> error + 'db) \<Rightarrow> DSN \<Rightarrow> bool \<Rightarrow> ('db, 'pdb, 'conn) handle handle_event list" where
  "base_handles B P mkdir open_db dsn noTimeTraversal =
     (if DSN_Driver dsn = ''badger'' then
        (if noTimeTraversal then badger_NewStore_handles B mkdir open_db (dsn_Database dsn)
         else tt_NewStore_handles mkdir open_db (dsn_Database dsn))
      else if DSN_Driver dsn = ''postgres'' then sql_NewStore_handles P dsn
      else [])"

text \<open>What \<open>server\<close> defers, in the order of the \<open>defer\<close> statements: nothing for a Postgres store.\<close>

fun base_deferred :: "('db, 'pdb, 'st) base_store \<Rightarrow> ('db, 'pdb, 'conn) handle list" where
  "base_deferred (Base_Badger s) = [badger_Close Handle_Badger s]"
| "base_deferred (Base_BadgerTT s) = [tt_Close Handle_Badger s]"
| "base_deferred (Base_Postgres s) = []"
| "base_deferred (Base_PostgresTT s) = []"

definition conn_deferred :: "('db, 'fs, 'client, 'conn, 'a, 'e) command_env_scheme \<Rightarrow> flags \<Rightarrow> ('db, 'pdb, 'conn) handle list" where
  "conn_deferred E fl =
     (if GetString fl ''manifest-path'' = '''' \<or> GetString fl ''store-manager-address'' = '''' then []
      else case env_new_sink E (GetString fl ''manifest-path'') (GetString fl ''output-module-name'') of
             Inl e \<Rightarrow> []
           | Inr client \<Rightarrow>
               (case env_dial E (GetString fl ''store-manager-address'') of Inl e \<Rightarrow> [] | Inr conn \<Rightarrow> [Handle_Conn conn]))"

definition run_deferred :: "command_end \<Rightarrow> 'h list \<Rightarrow> 'h handle_event list" where
  "run_deferred r hs =
     (case r of
        Process_Exit n \<Rightarrow> []
      | Command_Returned x \<Rightarrow> if x = Inl Blocked then [] else map Closed (rev hs))"

definition server_handles :: "('db, 'it, 'txn, 'wb) badger_api \<Rightarrow> ('pdb, 'st, 'tx) sql_api \<Rightarrow>
    ('db, 'fs, 'client, 'conn, 'a, 'e) command_env_scheme \<Rightarrow> flags \<Rightarrow> command_end \<Rightarrow>
    ('db, 'pdb, 'conn) handle handle_event list" where
  "server_handles B P E fl r =
     (case command_dsn E fl of
        Inl f \<Rightarrow> []
      | Inr (dsn, typeUrl) \<Rightarrow>
          base_handles B P (env_mkdir E) (env_open_db E) dsn (GetBool fl ''no-time-traversal'') @
          (case open_base_store B P (env_mkdir E) (env_open_db E) dsn typeUrl (GetInt fl ''workers'')
                  (GetBool fl ''no-time-traversal'') of
             Inl f \<Rightarrow> []
           | Inr baseStore \<Rightarrow>
               map Opened (conn_deferred E fl) @ run_deferred r (base_deferred baseStore @ conn_deferred E fl)))"

definition remote_feed_handles :: "('db, 'it, 'txn, 'wb) badger_api \<Rightarrow>
    ('db, 'fs, 'client, 'conn, 'a, 'e) command_env_scheme \<Rightarrow> flags \<Rightarrow> command_end \<Rightarrow>
    ('db, 'pdb, 'conn) handle handle_event list" where
  "remote_feed_handles B E fl r =
     (case command_dsn E fl of
        Inl f \<Rightarrow> []
      | Inr (dsn, typeUrl) \<Rightarrow>
          if DSN_Driver dsn \<noteq> ''badger'' then []
          else badger_NewStore_handles B (env_mkdir E) (env_open_db E) (dsn_Database dsn) @
            (case badger_NewStore B (env_mkdir E) (env_open_db E) (dsn_Database dsn) typeUrl (GetInt fl ''workers'') of
               Inl f \<Rightarrow> []
             | Inr badgerStore \<Rightarrow> run_deferred r [badger_Close Handle_Badger badgerStore]))"

section \<open>What is left open\<close>

lemma badger_NewStore_open:
  "case badger_NewStore B mkdir open_db path t n of
     Inl f \<Rightarrow> open_after (badger_NewStore_handles B mkdir open_db path @ es) hs = open_after es hs
   | Inr s \<Rightarrow> open_after (badger_NewStore_handles B mkdir open_db path @ es) hs =
       open_after es (badger_Close Handle_Badger s # hs)"
  by (auto simp: badger_NewStore_def badger_NewStore_handles_def badger_Close_def split: sum.split fail.split)

lemma tt_NewStore_open:
  "case tt_NewStore mkdir open_db path t n of
     Inl f \<Rightarrow> open_after (tt_NewStore_handles mkdir open_db path @ es) hs = open_after es hs
   | Inr s \<Rightarrow> open_after (tt_NewStore_handles mkdir open_db path @ es) hs =
       open_after es (tt_Close Handle_Badger s # hs)"
  by (auto simp: tt_NewStore_def tt_NewStore_handles_def tt_Close_def split: sum.split)

lemma sql_NewStore_open:
  "\<exists>ps. (\<forall>h\<in>set ps. \<exists>db. h = Handle_SQL db) \<and> open_after (sql_NewStore_handles P dsn @ es) hs = open_after es (ps @ hs)"
proof -
  obtain dsn1 cs where c: "ConnString dsn = (dsn1, cs)" by fastforce
  show ?thesis
  proof (cases "sql_open P (DSN_Driver dsn1) cs")
    case (Inl e)
    then show ?thesis by (intro exI [of _ "[]"]) (simp add: sql_NewStore_handles_def c)
  next
    case (Inr db)
    then show ?thesis by (intro exI [of _ "[Handle_SQL db]"]) (simp add: sql_NewStore_handles_def c)
  qed
qed

lemma open_after_opened: "open_after (map Opened gs @ es) hs = open_after es (rev gs @ hs)"
  by (induction gs arbitrary: hs) auto

lemma open_after_closed: "open_after (map Closed gs) (gs @ hs) = Some hs"
  by (induction gs) auto

text \<open>A store that is opened leaves what it defers, and below it only databases of Postgres.\<close>

definition only_sql :: "('db, 'pdb, 'conn) handle list \<Rightarrow> bool" where
  "only_sql hs \<longleftrightarrow> (\<forall>h\<in>set hs. \<exists>db. h = Handle_SQL db)"

lemma only_sql_Nil [simp]: "only_sql []"
  by (simp add: only_sql_def)

lemma open_base_store_open:
  fixes es :: "('db, 'pdb, 'conn) handle handle_event list"
  shows "\<exists>ps. only_sql ps \<and>
     open_after (base_handles B P mkdir open_db dsn ntt @ es) [] = open_after es
       ((case open_base_store B P mkdir open_db dsn t n ntt of Inl f \<Rightarrow> [] | Inr s \<Rightarrow> rev (base_deferred s)) @ ps)"
proof -
  consider (latest) "DSN_Driver dsn = ''badger''" ntt | (tt) "DSN_Driver dsn = ''badger''" "\<not> ntt"
    | (sql) "DSN_Driver dsn = ''postgres''" | (unknown) "DSN_Driver dsn \<noteq> ''badger''" "DSN_Driver dsn \<noteq> ''postgres''"
    by blast
  then show ?thesis
  proof cases
    case latest
    have n: "open_after (badger_NewStore_handles B mkdir open_db (dsn_Database dsn) @ es) [] =
        open_after es (case badger_NewStore B mkdir open_db (dsn_Database dsn) t n of
          Inl f \<Rightarrow> [] | Inr s \<Rightarrow> [badger_Close Handle_Badger s])"
      using badger_NewStore_open [where B = B and mkdir = mkdir and open_db = open_db and path = "dsn_Database dsn"
          and t = t and n = n and es = es and hs = "[]"] by (simp split: sum.splits)
    show ?thesis
    proof (cases "badger_NewStore B mkdir open_db (dsn_Database dsn) t n")
      case (Inl f)
      then show ?thesis using latest n
        by (intro exI [of _ "[]"]; cases f) (simp_all add: base_handles_def open_base_store_def)
    next
      case (Inr s)
      then show ?thesis using latest n
        by (intro exI [of _ "[]"]) (simp add: base_handles_def open_base_store_def)
    qed
  next
    case tt
    have n: "open_after (tt_NewStore_handles mkdir open_db (dsn_Database dsn) @ es) [] =
        open_after es (case tt_NewStore mkdir open_db (dsn_Database dsn) t n of
          Inl f \<Rightarrow> [] | Inr s \<Rightarrow> [tt_Close Handle_Badger s])"
      using tt_NewStore_open [where mkdir = mkdir and open_db = open_db and path = "dsn_Database dsn"
          and t = t and n = n and es = es and hs = "[]"] by (simp split: sum.splits)
    show ?thesis
    proof (cases "tt_NewStore mkdir open_db (dsn_Database dsn) t n")
      case (Inl f)
      then show ?thesis using tt n
        by (intro exI [of _ "[]"]; cases f) (simp_all add: base_handles_def open_base_store_def)
    next
      case (Inr s)
      then show ?thesis using tt n
        by (intro exI [of _ "[]"]) (simp add: base_handles_def open_base_store_def)
    qed
  next
    case sql
    have "(case open_base_store B P mkdir open_db dsn t n ntt of Inl f \<Rightarrow> []
        | Inr s \<Rightarrow> rev (base_deferred s :: ('db, 'pdb, 'conn) handle list)) = []"
      using sql by (auto simp: open_base_store_def res_simps split: sum.split if_splits)
    then show ?thesis
      using sql_NewStore_open [where P = P and dsn = dsn and es = es and hs = "[]"] sql
      by (simp add: base_handles_def only_sql_def)
  next
    case unknown
    then show ?thesis by (intro exI [of _ "[]"]) (simp add: base_handles_def open_base_store_def)
  qed
qed

text \<open>What \<open>serverCmdE\<close> has not opened when it fails early.\<close>

lemma run_deferred_open:
  assumes "r \<noteq> Command_Returned (Inl Blocked)"
  shows "open_after (run_deferred r hs) (rev hs @ ps) =
    Some (case r of Process_Exit n \<Rightarrow> rev hs @ ps | Command_Returned x \<Rightarrow> ps)"
  using assms by (auto simp: run_deferred_def open_after_closed split: command_end.split)

lemma server_handles_open:
  assumes "r \<noteq> Command_Returned (Inl Blocked)"
  shows "\<exists>left. open_after (server_handles B P E fl r) [] = Some left \<and> (\<forall>x. r = Command_Returned x \<longrightarrow> only_sql left)"
proof (cases "command_dsn E fl")
  case (Inr p)
  obtain dsn typeUrl where p: "p = (dsn, typeUrl)" by fastforce
  let ?open = "open_base_store B P (env_mkdir E) (env_open_db E) dsn typeUrl (GetInt fl ''workers'') (GetBool fl ''no-time-traversal'')"
  let ?conn = "conn_deferred E fl"
  let ?rest = "case ?open of Inl f \<Rightarrow> [] | Inr s \<Rightarrow> map Opened ?conn @ run_deferred r (base_deferred s @ ?conn)"
  obtain ps where ps: "only_sql ps"
    and o: "open_after (base_handles B P (env_mkdir E) (env_open_db E) dsn (GetBool fl ''no-time-traversal'') @ ?rest) [] =
      open_after ?rest ((case ?open of Inl f \<Rightarrow> [] | Inr s \<Rightarrow> rev (base_deferred s)) @ ps)"
    using open_base_store_open [where B = B and P = P and mkdir = "env_mkdir E" and open_db = "env_open_db E" and dsn = dsn
        and ntt = "GetBool fl ''no-time-traversal''" and es = ?rest and t = typeUrl and n = "GetInt fl ''workers''"]
    by blast
  have "open_after ?rest ((case ?open of Inl f \<Rightarrow> [] | Inr s \<Rightarrow> rev (base_deferred s)) @ ps) =
      Some (case ?open of Inl f \<Rightarrow> ps
        | Inr s \<Rightarrow> (case r of Process_Exit n \<Rightarrow> rev (base_deferred s @ ?conn) @ ps | Command_Returned x \<Rightarrow> ps))"
  proof (cases ?open)
    case (Inr s)
    show ?thesis
      using run_deferred_open [OF assms, where hs = "base_deferred s @ ?conn" and ps = ps] Inr
      by (simp add: open_after_opened)
  qed simp
  then show ?thesis using o ps by (auto simp: server_handles_def Inr p split: sum.splits command_end.splits)
qed (simp add: server_handles_def)

lemma remote_feed_handles_open:
  assumes "r \<noteq> Command_Returned (Inl Blocked)"
  shows "\<exists>left. open_after (remote_feed_handles B E fl r :: ('db, 'pdb, 'conn) handle handle_event list) [] = Some left \<and> (\<forall>x. r = Command_Returned x \<longrightarrow> left = [])"
proof (cases "command_dsn E fl")
  case (Inr p)
  obtain dsn typeUrl where p: "p = (dsn, typeUrl)" by fastforce
  let ?new = "badger_NewStore B (env_mkdir E) (env_open_db E) (dsn_Database dsn) typeUrl (GetInt fl ''workers'')"
  let ?rest = "case ?new of Inl f \<Rightarrow> []
    | Inr s \<Rightarrow> run_deferred r [badger_Close (Handle_Badger :: 'db \<Rightarrow> ('db, 'pdb, 'conn) handle) s]"
  have n: "open_after (badger_NewStore_handles B (env_mkdir E) (env_open_db E) (dsn_Database dsn) @ ?rest) [] =
      open_after ?rest (case ?new of Inl f \<Rightarrow> [] | Inr s \<Rightarrow> [badger_Close Handle_Badger s])"
    using badger_NewStore_open [where B = B and mkdir = "env_mkdir E" and open_db = "env_open_db E"
        and path = "dsn_Database dsn" and t = typeUrl and n = "GetInt fl ''workers''" and es = ?rest and hs = "[]"]
    by (simp split: sum.splits)
  have "\<exists>left. open_after ?rest (case ?new of Inl f \<Rightarrow> [] | Inr s \<Rightarrow> [badger_Close Handle_Badger s]) = Some left \<and>
      (\<forall>x. r = Command_Returned x \<longrightarrow> left = [])"
  proof (cases ?new)
    case (Inr s)
    show ?thesis
      using run_deferred_open [OF assms, where hs = "[badger_Close Handle_Badger s]" and ps = "[]"] Inr
      by (auto split: command_end.split)
  qed simp
  then show ?thesis unfolding n [symmetric] by (simp add: remote_feed_handles_def Inr p)
qed (simp add: remote_feed_handles_def)

text \<open>Only a command that has started ends by \<open>os.Exit\<close>: its store is open.\<close>

lemma command_exit_Inr: "command_finish app_err r = Process_Exit n \<Longrightarrow> \<exists>x. r = Inr x"
  by (auto simp: command_finish_def split: sum.splits)

lemma run_deferred_exit [simp]: "run_deferred (Process_Exit n) hs = []"
  by (simp add: run_deferred_def)

lemma base_handles_opened:
  assumes "open_base_store B P mkdir open_db dsn t n ntt = Inr s"
  shows "Closed h \<notin> set (base_handles B P mkdir open_db dsn ntt)"
proof -
  have "\<exists>s. badger_NewStore B mkdir open_db (dsn_Database dsn) t n = Inr s" if "DSN_Driver dsn = ''badger''" ntt
    using assms that by (auto simp: open_base_store_def res_simps)
  then show ?thesis
    by (auto simp: base_handles_def badger_NewStore_handles_def badger_NewStore_def tt_NewStore_handles_def
        sql_NewStore_handles_def split: if_splits sum.splits fail.splits prod.splits)
qed

lemma remote_feed_exit:
  assumes "command_finish app_err (snd (remoteFeedCmdE B sched A factory E fl)) = Process_Exit n"
  shows "Closed h \<notin> set (remote_feed_handles B E fl (Process_Exit n))"
  using command_exit_Inr [OF assms]
  by (auto simp: remoteFeedCmdE_def remote_feed_handles_def badger_NewStore_handles_def badger_NewStore_def
      split: sum.splits prod.splits if_splits fail.splits)

text \<open>C12: when a command returns, whether it fails while it starts or ends without an application
  error, every Badger database and the connection to the store manager that it opened have
  been closed, once, in the reverse order of opening; only databases of Postgres are left
  open.  When the application fails, \<open>os.Exit\<close> skips the deferred calls: a started command
  closes nothing.\<close>

theorem handles_closed:
  assumes "sr = command_finish app_err (snd (serverCmdE C B sched P cord A factory E fl))"
    and "fr = command_finish app_err (snd (remoteFeedCmdE B sched A' factory' E fl))"
  shows "(\<forall>x. sr = Command_Returned x \<longrightarrow> x \<noteq> Inl Blocked \<longrightarrow>
      (\<exists>left. open_after (server_handles B P E fl sr) [] = Some left \<and> (\<forall>h\<in>set left. \<exists>db. h = Handle_SQL db))) \<and>
    (\<forall>x. fr = Command_Returned x \<longrightarrow> x \<noteq> Inl Blocked \<longrightarrow>
      open_after (remote_feed_handles B E fl fr) [] = Some []) \<and>
    (\<forall>n h. sr = Process_Exit n \<longrightarrow> Closed h \<notin> set (server_handles B P E fl sr)) \<and>
    (\<forall>n h. fr = Process_Exit n \<longrightarrow> Closed h \<notin> set (remote_feed_handles B E fl fr))"
proof (intro conjI allI impI)
  fix x assume "sr = Command_Returned x" and "x \<noteq> Inl Blocked"
  then show "\<exists>left. open_after (server_handles B P E fl sr) [] = Some left \<and> (\<forall>h\<in>set left. \<exists>db. h = Handle_SQL db)"
    using server_handles_open [of sr B P E fl] by (auto simp: only_sql_def)
next
  fix x assume "fr = Command_Returned x" and "x \<noteq> Inl Blocked"
  then show "open_after (remote_feed_handles B E fl fr) [] = Some []"
    using remote_feed_handles_open [of fr B E fl] by auto
next
  fix n h assume r: "sr = Process_Exit n"
  then have "command_finish app_err (snd (serverCmdE C B sched P cord A factory E fl)) = Process_Exit n" using assms(1) by simp
  from command_exit_Inr [OF this] obtain y where y: "snd (serverCmdE C B sched P cord A factory E fl) = Inr y"
    by blast
  obtain acts proc S where "serverCmdE C B sched P cord A factory E fl = (acts, Inr (proc, S))"
    using y by (metis prod.collapse)
  then obtain dsn turl base where d: "command_dsn E fl = Inr (dsn, turl)"
    and o: "open_base_store B P (env_mkdir E) (env_open_db E) dsn turl (GetInt fl ''workers'')
      (GetBool fl ''no-time-traversal'') = Inr base"
    by (rule serverCmdE_Inr) blast
  show "Closed h \<notin> set (server_handles B P E fl sr)"
    using base_handles_opened [OF o] by (auto simp: server_handles_def r d o)
next
  fix n h assume "fr = Process_Exit n"
  then show "Closed h \<notin> set (remote_feed_handles B E fl fr)"
    using remote_feed_exit assms(2) by metis
qed

theorem handles_closed_witness:
  "server_handles mem_badger mem_sql demo_env demo_flags (Command_Returned (Inr ())) =
      [Opened (Handle_Badger []), Closed (Handle_Badger [])] \<and>
    (\<exists>left. open_after (server_handles mem_badger mem_sql demo_env demo_flags (Command_Returned (Inr ()))) [] = Some left \<and>
      (\<forall>h\<in>set left. \<exists>db. h = Handle_SQL db))"
proof -
  obtain acts S where S: "serverCmdE mem_cursors mem_badger (\<lambda>n. [0..<n]) mem_sql rev demo_auth demo_factory demo_env demo_flags =
      (acts, Inr (Process_Sinker demo_sinker, S))"
    using demo_started by blast
  have r: "command_finish None (snd (serverCmdE mem_cursors mem_badger (\<lambda>n. [0..<n]) mem_sql rev demo_auth demo_factory
      demo_env demo_flags)) = Command_Returned (Inr ())"
    by (simp add: S command_finish_def)
  have c: "command_dsn demo_env demo_flags = Inr (demo_dsn, ''type.googleapis.com/t.E'')"
    by (simp add: command_dsn_Inr demo_parse with_type_prefix_def has_prefix_def)
  have "server_handles mem_badger mem_sql demo_env demo_flags (Command_Returned (Inr ())) =
      [Opened (Handle_Badger []), Closed (Handle_Badger [])]"
    unfolding server_handles_def c
    by (simp add: base_handles_def tt_NewStore_handles_def DSN_Driver_def demo_dsn_def
        open_base_store_def tt_NewStore_def demo_env_def conn_deferred_def run_deferred_def tt_Close_def)
  moreover have "\<exists>left. open_after (server_handles mem_badger mem_sql demo_env demo_flags (Command_Returned (Inr ()))) [] = Some left \<and>
      (\<forall>h\<in>set left. \<exists>db. h = Handle_SQL db)"
    using handles_closed [OF r [symmetric] refl, where A' = undefined and factory' = undefined, THEN conjunct1,
        rule_format, of "Inr ()"]
    by simp
  ultimately show ?thesis by blast
qed

end
