(* ===== verification/Store_Manager.thy ===== *)
theory Store_Manager
  imports Commands
begin

text \<open>
  The service of the store manager
  (\<open>pb/sf/substreams/foundational-store-management/router/v2\<close>): its messages and the
  generated clients and handlers of \<open>StoreManager\<close>, which \<open>server\<close> pings, and \<open>Router\<close>.
  \<open>'t\<close> stands for \<open>timestamppb.Timestamp\<close>.
\<close>

section \<open>Codes\<close>

fun PingResponse_Code_Number :: "PingResponse_Code \<Rightarrow> 32 word" where
  "PingResponse_Code_Number PingResponse_unset = 0"
| "PingResponse_Code_Number PingResponse_pong = 1"
| "PingResponse_Code_Number PingResponse_failed = 2"
| "PingResponse_Code_Number (PingResponse_unnamed n) = n"

definition PingResponse_Code_name :: "32 word \<Rightarrow> string option" where
  "PingResponse_Code_name = map_of [(0, ''unset''), (1, ''pong''), (2, ''failed'')]"

definition PingResponse_Code_value :: "string \<Rightarrow> 32 word option" where
  "PingResponse_Code_value = map_of [(''unset'', 0), (''pong'', 1), (''failed'', 2)]"

datatype Manager_GetResponse_Code =
    Manager_GetResponse_unset
  | Manager_GetResponse_success
  | Manager_GetResponse_failed
  | Manager_GetResponse_unnamed "32 word"

fun Manager_GetResponse_Code_Number :: "Manager_GetResponse_Code \<Rightarrow> 32 word" where
  "Manager_GetResponse_Code_Number Manager_GetResponse_unset = 0"
| "Manager_GetResponse_Code_Number Manager_GetResponse_success = 1"
| "Manager_GetResponse_Code_Number Manager_GetResponse_failed = 2"
| "Manager_GetResponse_Code_Number (Manager_GetResponse_unnamed n) = n"

definition Manager_GetResponse_Code_name :: "32 word \<Rightarrow> string option" where
  "Manager_GetResponse_Code_name = map_of [(0, ''unset''), (1, ''success''), (2, ''failed'')]"

definition Manager_GetResponse_Code_value :: "string \<Rightarrow> 32 word option" where
  "Manager_GetResponse_Code_value = map_of [(''unset'', 0), (''success'', 1), (''failed'', 2)]"

datatype DeployStoreResponse_Code =
    DeployStoreResponse_unset
  | DeployStoreResponse_deploy
  | DeployStoreResponse_failed
  | DeployStoreResponse_unnamed "32 word"

fun DeployStoreResponse_Code_Number :: "DeployStoreResponse_Code \<Rightarrow> 32 word" where
  "DeployStoreResponse_Code_Number DeployStoreResponse_unset = 0"
| "DeployStoreResponse_Code_Number DeployStoreResponse_deploy = 1"
| "DeployStoreResponse_Code_Number DeployStoreResponse_failed = 3"
| "DeployStoreResponse_Code_Number (DeployStoreResponse_unnamed n) = n"

definition DeployStoreResponse_Code_name :: "32 word \<Rightarrow> string option" where
  "DeployStoreResponse_Code_name = map_of [(0, ''unset''), (1, ''deploy''), (3, ''failed'')]"

definition DeployStoreResponse_Code_value :: "string \<Rightarrow> 32 word option" where
  "DeployStoreResponse_Code_value = map_of [(''unset'', 0), (''deploy'', 1), (''failed'', 3)]"

datatype UndeployStoreResponse_Code =
    UndeployStoreResponse_unset
  | UndeployStoreResponse_undeploy
  | UndeployStoreResponse_failed
  | UndeployStoreResponse_unnamed "32 word"

fun UndeployStoreResponse_Code_Number :: "UndeployStoreResponse_Code \<Rightarrow> 32 word" where
  "UndeployStoreResponse_Code_Number UndeployStoreResponse_unset = 0"
| "UndeployStoreResponse_Code_Number UndeployStoreResponse_undeploy = 1"
| "UndeployStoreResponse_Code_Number UndeployStoreResponse_failed = 2"
| "UndeployStoreResponse_Code_Number (UndeployStoreResponse_unnamed n) = n"

definition UndeployStoreResponse_Code_name :: "32 word \<Rightarrow> string option" where
  "UndeployStoreResponse_Code_name = map_of [(0, ''unset''), (1, ''undeploy''), (2, ''failed'')]"

definition UndeployStoreResponse_Code_value :: "string \<Rightarrow> 32 word option" where
  "UndeployStoreResponse_Code_value = map_of [(''unset'', 0), (''undeploy'', 1), (''failed'', 2)]"

datatype Manager_Server_State =
    Manager_Server_unset
  | Manager_Server_deployed
  | Manager_Server_ready
  | Manager_Server_shutting_down
  | Manager_Server_not_ready
  | Manager_Server_falling
  | Manager_Server_unnamed "32 word"

fun Manager_Server_State_Number :: "Manager_Server_State \<Rightarrow> 32 word" where
  "Manager_Server_State_Number Manager_Server_unset = 0"
| "Manager_Server_State_Number Manager_Server_deployed = 2"
| "Manager_Server_State_Number Manager_Server_ready = 1"
| "Manager_Server_State_Number Manager_Server_shutting_down = 3"
| "Manager_Server_State_Number Manager_Server_not_ready = 4"
| "Manager_Server_State_Number Manager_Server_falling = 5"
| "Manager_Server_State_Number (Manager_Server_unnamed n) = n"

definition Manager_Server_State_name :: "32 word \<Rightarrow> string option" where
  "Manager_Server_State_name = map_of [(0, ''unset''), (2, ''deployed''), (1, ''ready''), (3, ''shutting_down''), (4, ''not_ready''), (5, ''falling'')]"

definition Manager_Server_State_value :: "string \<Rightarrow> 32 word option" where
  "Manager_Server_State_value = map_of [(''unset'', 0), (''deployed'', 2), (''ready'', 1), (''shutting_down'', 3), (''not_ready'', 4), (''falling'', 5)]"

text \<open>The names and the numbers of the codes determine each other.\<close>

lemma manager_codes_named:
  "PingResponse_Code_name n = Some s \<longleftrightarrow> PingResponse_Code_value s = Some n"
  "Manager_GetResponse_Code_name n = Some s \<longleftrightarrow> Manager_GetResponse_Code_value s = Some n"
  "DeployStoreResponse_Code_name n = Some s \<longleftrightarrow> DeployStoreResponse_Code_value s = Some n"
  "UndeployStoreResponse_Code_name n = Some s \<longleftrightarrow> UndeployStoreResponse_Code_value s = Some n"
  "Manager_Server_State_name n = Some s \<longleftrightarrow> Manager_Server_State_value s = Some n"
  by (auto simp: PingResponse_Code_name_def PingResponse_Code_value_def
      Manager_GetResponse_Code_name_def Manager_GetResponse_Code_value_def
      DeployStoreResponse_Code_name_def DeployStoreResponse_Code_value_def
      UndeployStoreResponse_Code_name_def UndeployStoreResponse_Code_value_def
      Manager_Server_State_name_def Manager_Server_State_value_def
      split: if_splits)

section \<open>Messages\<close>

fun PingRequest_GetModuleOutputHash :: "PingRequest option \<Rightarrow> string" where
  "PingRequest_GetModuleOutputHash (Some x) = PingRequest_ModuleOutputHash x"
| "PingRequest_GetModuleOutputHash None = ''''"

fun PingRequest_GetNetwork :: "PingRequest option \<Rightarrow> string" where
  "PingRequest_GetNetwork (Some x) = PingRequest_Network x"
| "PingRequest_GetNetwork None = ''''"

fun PingResponse_GetCode :: "PingResponse option \<Rightarrow> PingResponse_Code" where
  "PingResponse_GetCode (Some x) = PingResponse_Code x"
| "PingResponse_GetCode None = PingResponse_unset"

record 't Manager_Server =
  Manager_Server_Address :: string
  Manager_Server_Port :: string
  Manager_Server_State :: Manager_Server_State
  Manager_Server_StatefulSetName :: string
  Manager_Server_LastPingTime :: "'t option"
  Manager_Server_LastRequest :: "'t option"
  Manager_Server_LastSuccessfulRequest :: "'t option"

fun Manager_Server_GetAddress :: "'t Manager_Server option \<Rightarrow> string" where
  "Manager_Server_GetAddress (Some x) = Manager_Server_Address x"
| "Manager_Server_GetAddress None = ''''"

fun Manager_Server_GetPort :: "'t Manager_Server option \<Rightarrow> string" where
  "Manager_Server_GetPort (Some x) = Manager_Server_Port x"
| "Manager_Server_GetPort None = ''''"

fun Manager_Server_GetState :: "'t Manager_Server option \<Rightarrow> Manager_Server_State" where
  "Manager_Server_GetState (Some x) = Manager_Server_State x"
| "Manager_Server_GetState None = Manager_Server_unset"

fun Manager_Server_GetStatefulSetName :: "'t Manager_Server option \<Rightarrow> string" where
  "Manager_Server_GetStatefulSetName (Some x) = Manager_Server_StatefulSetName x"
| "Manager_Server_GetStatefulSetName None = ''''"

fun Manager_Server_GetLastPingTime :: "'t Manager_Server option \<Rightarrow> 't option" where
  "Manager_Server_GetLastPingTime (Some x) = Manager_Server_LastPingTime x"
| "Manager_Server_GetLastPingTime None = None"

fun Manager_Server_GetLastRequest :: "'t Manager_Server option \<Rightarrow> 't option" where
  "Manager_Server_GetLastRequest (Some x) = Manager_Server_LastRequest x"
| "Manager_Server_GetLastRequest None = None"

fun Manager_Server_GetLastSuccessfulRequest :: "'t Manager_Server option \<Rightarrow> 't option" where
  "Manager_Server_GetLastSuccessfulRequest (Some x) = Manager_Server_LastSuccessfulRequest x"
| "Manager_Server_GetLastSuccessfulRequest None = None"

record Manager_Store =
  Manager_Store_Name :: string
  Manager_Store_Version :: string
  Manager_Store_Network :: string
  Manager_Store_SubstreamsPackage :: string
  Manager_Store_OutputModule :: string
  Manager_Store_OutputModuleHash :: string
  Manager_Store_EntityDataTypeUrl :: string

fun Manager_Store_GetName :: "Manager_Store option \<Rightarrow> string" where
  "Manager_Store_GetName (Some x) = Manager_Store_Name x"
| "Manager_Store_GetName None = ''''"

fun Manager_Store_GetVersion :: "Manager_Store option \<Rightarrow> string" where
  "Manager_Store_GetVersion (Some x) = Manager_Store_Version x"
| "Manager_Store_GetVersion None = ''''"

fun Manager_Store_GetNetwork :: "Manager_Store option \<Rightarrow> string" where
  "Manager_Store_GetNetwork (Some x) = Manager_Store_Network x"
| "Manager_Store_GetNetwork None = ''''"

fun Manager_Store_GetSubstreamsPackage :: "Manager_Store option \<Rightarrow> string" where
  "Manager_Store_GetSubstreamsPackage (Some x) = Manager_Store_SubstreamsPackage x"
| "Manager_Store_GetSubstreamsPackage None = ''''"

fun Manager_Store_GetOutputModule :: "Manager_Store option \<Rightarrow> string" where
  "Manager_Store_GetOutputModule (Some x) = Manager_Store_OutputModule x"
| "Manager_Store_GetOutputModule None = ''''"

fun Manager_Store_GetOutputModuleHash :: "Manager_Store option \<Rightarrow> string" where
  "Manager_Store_GetOutputModuleHash (Some x) = Manager_Store_OutputModuleHash x"
| "Manager_Store_GetOutputModuleHash None = ''''"

fun Manager_Store_GetEntityDataTypeUrl :: "Manager_Store option \<Rightarrow> string" where
  "Manager_Store_GetEntityDataTypeUrl (Some x) = Manager_Store_EntityDataTypeUrl x"
| "Manager_Store_GetEntityDataTypeUrl None = ''''"

record Manager_GetRequest =
  Manager_GetRequest_Request :: "GetRequest option"
  Manager_GetRequest_Store :: "Manager_Store option"

fun Manager_GetRequest_GetRequest :: "Manager_GetRequest option \<Rightarrow> GetRequest option" where
  "Manager_GetRequest_GetRequest (Some x) = Manager_GetRequest_Request x"
| "Manager_GetRequest_GetRequest None = None"

fun Manager_GetRequest_GetStore :: "Manager_GetRequest option \<Rightarrow> Manager_Store option" where
  "Manager_GetRequest_GetStore (Some x) = Manager_GetRequest_Store x"
| "Manager_GetRequest_GetStore None = None"

record 't Manager_GetResponse =
  Manager_GetResponse_Server :: "'t Manager_Server option"
  Manager_GetResponse_Code :: Manager_GetResponse_Code
  Manager_GetResponse_FailureReason :: "string option"
  Manager_GetResponse_StoreResponse :: "GetResponse option"

fun Manager_GetResponse_GetServer :: "'t Manager_GetResponse option \<Rightarrow> 't Manager_Server option" where
  "Manager_GetResponse_GetServer (Some x) = Manager_GetResponse_Server x"
| "Manager_GetResponse_GetServer None = None"

fun Manager_GetResponse_GetCode :: "'t Manager_GetResponse option \<Rightarrow> Manager_GetResponse_Code" where
  "Manager_GetResponse_GetCode (Some x) = Manager_GetResponse_Code x"
| "Manager_GetResponse_GetCode None = Manager_GetResponse_unset"

fun Manager_GetResponse_GetFailureReason :: "'t Manager_GetResponse option \<Rightarrow> string" where
  "Manager_GetResponse_GetFailureReason (Some x) =
     (case Manager_GetResponse_FailureReason x of Some r \<Rightarrow> r | None \<Rightarrow> '''')"
| "Manager_GetResponse_GetFailureReason None = ''''"

fun Manager_GetResponse_GetStoreResponse :: "'t Manager_GetResponse option \<Rightarrow> GetResponse option" where
  "Manager_GetResponse_GetStoreResponse (Some x) = Manager_GetResponse_StoreResponse x"
| "Manager_GetResponse_GetStoreResponse None = None"

record LookupRequest =
  LookupRequest_ModuleOutputHash :: string
  LookupRequest_Network :: string

fun LookupRequest_GetModuleOutputHash :: "LookupRequest option \<Rightarrow> string" where
  "LookupRequest_GetModuleOutputHash (Some x) = LookupRequest_ModuleOutputHash x"
| "LookupRequest_GetModuleOutputHash None = ''''"

fun LookupRequest_GetNetwork :: "LookupRequest option \<Rightarrow> string" where
  "LookupRequest_GetNetwork (Some x) = LookupRequest_Network x"
| "LookupRequest_GetNetwork None = ''''"

record 't LookupResponse =
  LookupResponse_Server :: "'t Manager_Server option"

fun LookupResponse_GetServer :: "'t LookupResponse option \<Rightarrow> 't Manager_Server option" where
  "LookupResponse_GetServer (Some x) = LookupResponse_Server x"
| "LookupResponse_GetServer None = None"

record DeployStoreRequest =
  DeployStoreRequest_Store :: "Manager_Store option"
  DeployStoreRequest_SubstreamsEndpoint :: string

fun DeployStoreRequest_GetStore :: "DeployStoreRequest option \<Rightarrow> Manager_Store option" where
  "DeployStoreRequest_GetStore (Some x) = DeployStoreRequest_Store x"
| "DeployStoreRequest_GetStore None = None"

fun DeployStoreRequest_GetSubstreamsEndpoint :: "DeployStoreRequest option \<Rightarrow> string" where
  "DeployStoreRequest_GetSubstreamsEndpoint (Some x) = DeployStoreRequest_SubstreamsEndpoint x"
| "DeployStoreRequest_GetSubstreamsEndpoint None = ''''"

record 't DeployStoreResponse =
  DeployStoreResponse_Code :: DeployStoreResponse_Code
  DeployStoreResponse_FailureReason :: "string option"
  DeployStoreResponse_Server :: "'t Manager_Server option"

fun DeployStoreResponse_GetCode :: "'t DeployStoreResponse option \<Rightarrow> DeployStoreResponse_Code" where
  "DeployStoreResponse_GetCode (Some x) = DeployStoreResponse_Code x"
| "DeployStoreResponse_GetCode None = DeployStoreResponse_unset"

fun DeployStoreResponse_GetFailureReason :: "'t DeployStoreResponse option \<Rightarrow> string" where
  "DeployStoreResponse_GetFailureReason (Some x) =
     (case DeployStoreResponse_FailureReason x of Some r \<Rightarrow> r | None \<Rightarrow> '''')"
| "DeployStoreResponse_GetFailureReason None = ''''"

fun DeployStoreResponse_GetServer :: "'t DeployStoreResponse option \<Rightarrow> 't Manager_Server option" where
  "DeployStoreResponse_GetServer (Some x) = DeployStoreResponse_Server x"
| "DeployStoreResponse_GetServer None = None"

record 't UndeployStoreRequest =
  UndeployStoreRequest_Server :: "'t Manager_Server option"

fun UndeployStoreRequest_GetServer :: "'t UndeployStoreRequest option \<Rightarrow> 't Manager_Server option" where
  "UndeployStoreRequest_GetServer (Some x) = UndeployStoreRequest_Server x"
| "UndeployStoreRequest_GetServer None = None"

record UndeployStoreResponse =
  UndeployStoreResponse_Code :: UndeployStoreResponse_Code
  UndeployStoreResponse_FailureReason :: "string option"

fun UndeployStoreResponse_GetCode :: "UndeployStoreResponse option \<Rightarrow> UndeployStoreResponse_Code" where
  "UndeployStoreResponse_GetCode (Some x) = UndeployStoreResponse_Code x"
| "UndeployStoreResponse_GetCode None = UndeployStoreResponse_unset"

fun UndeployStoreResponse_GetFailureReason :: "UndeployStoreResponse option \<Rightarrow> string" where
  "UndeployStoreResponse_GetFailureReason (Some x) =
     (case UndeployStoreResponse_FailureReason x of Some r \<Rightarrow> r | None \<Rightarrow> '''')"
| "UndeployStoreResponse_GetFailureReason None = ''''"

datatype 't manager_message =
    Mgr_PingRequest PingRequest
  | Mgr_PingResponse PingResponse
  | Mgr_DeployStoreRequest DeployStoreRequest
  | Mgr_DeployStoreResponse "'t DeployStoreResponse"
  | Mgr_UndeployStoreRequest "'t UndeployStoreRequest"
  | Mgr_UndeployStoreResponse UndeployStoreResponse
  | Mgr_GetRequest Manager_GetRequest
  | Mgr_GetResponse "'t Manager_GetResponse"

section \<open>The clients\<close>

text \<open>\<open>invoke\<close> is \<open>Invoke\<close> of the connection: it decodes the reply into the message \<open>out\<close>.\<close>

definition storeManagerClient_DeployStore :: "(string \<Rightarrow> DeployStoreRequest \<Rightarrow> error + 't DeployStoreResponse) \<Rightarrow>
    DeployStoreRequest \<Rightarrow> error + 't DeployStoreResponse option" where
  "storeManagerClient_DeployStore invoke request =
     (case invoke ''/sf.substreams.foundational_store_management.router.v2.StoreManager/DeployStore'' request of
        Inl e \<Rightarrow> Inl e
      | Inr out \<Rightarrow> Inr (Some out))"

definition storeManagerClient_UndeployStore :: "(string \<Rightarrow> 't UndeployStoreRequest \<Rightarrow> error + UndeployStoreResponse) \<Rightarrow>
    't UndeployStoreRequest \<Rightarrow> error + UndeployStoreResponse option" where
  "storeManagerClient_UndeployStore invoke request =
     (case invoke ''/sf.substreams.foundational_store_management.router.v2.StoreManager/UndeployStore'' request of
        Inl e \<Rightarrow> Inl e
      | Inr out \<Rightarrow> Inr (Some out))"

definition storeManagerClient_Ping :: "(string \<Rightarrow> PingRequest \<Rightarrow> error + PingResponse) \<Rightarrow>
    PingRequest \<Rightarrow> error + PingResponse option" where
  "storeManagerClient_Ping invoke request =
     (case invoke ''/sf.substreams.foundational_store_management.router.v2.StoreManager/Ping'' request of
        Inl e \<Rightarrow> Inl e
      | Inr out \<Rightarrow> Inr (Some out))"

definition routerClient_Get :: "(string \<Rightarrow> Manager_GetRequest \<Rightarrow> error + 't Manager_GetResponse) \<Rightarrow>
    Manager_GetRequest \<Rightarrow> error + 't Manager_GetResponse option" where
  "routerClient_Get invoke request =
     (case invoke ''/sf.substreams.foundational_store_management.router.v2.Router/Get'' request of
        Inl e \<Rightarrow> Inl e
      | Inr out \<Rightarrow> Inr (Some out))"

definition routerClient_GetFirst :: "(string \<Rightarrow> Manager_GetRequest \<Rightarrow> error + 't Manager_GetResponse) \<Rightarrow>
    Manager_GetRequest \<Rightarrow> error + 't Manager_GetResponse option" where
  "routerClient_GetFirst invoke request =
     (case invoke ''/sf.substreams.foundational_store_management.router.v2.Router/GetFirst'' request of
        Inl e \<Rightarrow> Inl e
      | Inr out \<Rightarrow> Inr (Some out))"

section \<open>The servers\<close>

record ('c, 't, 'w) StoreManagerServer =
  sm_DeployStore :: "'c \<Rightarrow> DeployStoreRequest \<Rightarrow> 'w \<Rightarrow> 'w \<times> 't DeployStoreResponse res"
  sm_UndeployStore :: "'c \<Rightarrow> 't UndeployStoreRequest \<Rightarrow> 'w \<Rightarrow> 'w \<times> UndeployStoreResponse res"
  sm_Ping :: "'c \<Rightarrow> PingRequest \<Rightarrow> 'w \<Rightarrow> 'w \<times> PingResponse res"

record ('c, 't, 'w) RouterServer =
  rt_Get :: "'c \<Rightarrow> Manager_GetRequest \<Rightarrow> 'w \<Rightarrow> 'w \<times> 't Manager_GetResponse res"
  rt_GetFirst :: "'c \<Rightarrow> Manager_GetRequest \<Rightarrow> 'w \<Rightarrow> 'w \<times> 't Manager_GetResponse res"

definition UnimplementedStoreManagerServer :: "('c, 't, 'w) StoreManagerServer" where
  "UnimplementedStoreManagerServer =
     \<lparr>sm_DeployStore = (\<lambda>ctx req w. (w, unimplemented ''DeployStore'')),
      sm_UndeployStore = (\<lambda>ctx req w. (w, unimplemented ''UndeployStore'')),
      sm_Ping = (\<lambda>ctx req w. (w, unimplemented ''Ping''))\<rparr>"

definition UnimplementedRouterServer :: "('c, 't, 'w) RouterServer" where
  "UnimplementedRouterServer =
     \<lparr>rt_Get = (\<lambda>ctx req w. (w, unimplemented ''Get'')),
      rt_GetFirst = (\<lambda>ctx req w. (w, unimplemented ''GetFirst''))\<rparr>"

text \<open>What the handlers share, over these messages.\<close>

type_synonym ('c, 'm, 'w) manager_call = "'c \<Rightarrow> 'm \<Rightarrow> 'w \<Rightarrow> 'w \<times> 'm res"

type_synonym ('c, 'm, 'w) manager_handler = "'c \<Rightarrow> ('m \<Rightarrow> error + 'm) \<Rightarrow>
    ('c \<Rightarrow> 'm \<Rightarrow> string \<Rightarrow> ('c, 'm, 'w) manager_call \<Rightarrow> 'w \<Rightarrow> 'w \<times> 'm res) option \<Rightarrow> 'w \<Rightarrow> 'w \<times> 'm res"

definition manager_unary :: "'m \<Rightarrow> string \<Rightarrow> ('c, 'm, 'w) manager_call \<Rightarrow> ('c, 'm, 'w) manager_handler" where
  "manager_unary zero fullMethod run ctx dec interceptor w =
     (case dec zero of
        Inl e \<Rightarrow> (w, Inl (Error e))
      | Inr request \<Rightarrow>
          (case interceptor of
             None \<Rightarrow> run ctx request w
           | Some i \<Rightarrow> i ctx request fullMethod run w))"

definition manager_answer :: "('a \<Rightarrow> 'm) \<Rightarrow> 'w \<times> 'a res \<Rightarrow> 'w \<times> 'm res" where
  "manager_answer f p = (fst p, bind_res (snd p) (\<lambda>r. Inr (f r)))"

fun call_StoreManager_DeployStore :: "('c, 't, 'w) StoreManagerServer \<Rightarrow>
    ('c, 't manager_message, 'w) manager_call" where
  "call_StoreManager_DeployStore srv ctx (Mgr_DeployStoreRequest r) w =
     manager_answer Mgr_DeployStoreResponse (sm_DeployStore srv ctx r w)"
| "call_StoreManager_DeployStore srv ctx _ w = (w, assertion_panic)"

definition StoreManager_DeployStore_Handler :: "('c, 't, 'w) StoreManagerServer \<Rightarrow>
    ('c, 't manager_message, 'w) manager_handler" where
  "StoreManager_DeployStore_Handler srv = manager_unary
     (Mgr_DeployStoreRequest \<lparr>DeployStoreRequest_Store = None, DeployStoreRequest_SubstreamsEndpoint = ''''\<rparr>)
     ''/sf.substreams.foundational_store_management.router.v2.StoreManager/DeployStore'' (call_StoreManager_DeployStore srv)"

fun call_StoreManager_UndeployStore :: "('c, 't, 'w) StoreManagerServer \<Rightarrow>
    ('c, 't manager_message, 'w) manager_call" where
  "call_StoreManager_UndeployStore srv ctx (Mgr_UndeployStoreRequest r) w =
     manager_answer Mgr_UndeployStoreResponse (sm_UndeployStore srv ctx r w)"
| "call_StoreManager_UndeployStore srv ctx _ w = (w, assertion_panic)"

definition StoreManager_UndeployStore_Handler :: "('c, 't, 'w) StoreManagerServer \<Rightarrow>
    ('c, 't manager_message, 'w) manager_handler" where
  "StoreManager_UndeployStore_Handler srv = manager_unary
     (Mgr_UndeployStoreRequest \<lparr>UndeployStoreRequest_Server = None\<rparr>)
     ''/sf.substreams.foundational_store_management.router.v2.StoreManager/UndeployStore'' (call_StoreManager_UndeployStore srv)"

fun call_StoreManager_Ping :: "('c, 't, 'w) StoreManagerServer \<Rightarrow>
    ('c, 't manager_message, 'w) manager_call" where
  "call_StoreManager_Ping srv ctx (Mgr_PingRequest r) w =
     manager_answer Mgr_PingResponse (sm_Ping srv ctx r w)"
| "call_StoreManager_Ping srv ctx _ w = (w, assertion_panic)"

definition StoreManager_Ping_Handler :: "('c, 't, 'w) StoreManagerServer \<Rightarrow>
    ('c, 't manager_message, 'w) manager_handler" where
  "StoreManager_Ping_Handler srv = manager_unary
     (Mgr_PingRequest \<lparr>PingRequest_ModuleOutputHash = '''', PingRequest_Network = ''''\<rparr>)
     ''/sf.substreams.foundational_store_management.router.v2.StoreManager/Ping'' (call_StoreManager_Ping srv)"

fun call_Router_Get :: "('c, 't, 'w) RouterServer \<Rightarrow>
    ('c, 't manager_message, 'w) manager_call" where
  "call_Router_Get srv ctx (Mgr_GetRequest r) w =
     manager_answer Mgr_GetResponse (rt_Get srv ctx r w)"
| "call_Router_Get srv ctx _ w = (w, assertion_panic)"

definition Router_Get_Handler :: "('c, 't, 'w) RouterServer \<Rightarrow>
    ('c, 't manager_message, 'w) manager_handler" where
  "Router_Get_Handler srv = manager_unary
     (Mgr_GetRequest \<lparr>Manager_GetRequest_Request = None, Manager_GetRequest_Store = None\<rparr>)
     ''/sf.substreams.foundational_store_management.router.v2.Router/Get'' (call_Router_Get srv)"

fun call_Router_GetFirst :: "('c, 't, 'w) RouterServer \<Rightarrow>
    ('c, 't manager_message, 'w) manager_call" where
  "call_Router_GetFirst srv ctx (Mgr_GetRequest r) w =
     manager_answer Mgr_GetResponse (rt_GetFirst srv ctx r w)"
| "call_Router_GetFirst srv ctx _ w = (w, assertion_panic)"

definition Router_GetFirst_Handler :: "('c, 't, 'w) RouterServer \<Rightarrow>
    ('c, 't manager_message, 'w) manager_handler" where
  "Router_GetFirst_Handler srv = manager_unary
     (Mgr_GetRequest \<lparr>Manager_GetRequest_Request = None, Manager_GetRequest_Store = None\<rparr>)
     ''/sf.substreams.foundational_store_management.router.v2.Router/GetFirst'' (call_Router_GetFirst srv)"

record ('c, 'm, 'w) manager_service =
  ms_ServiceName :: string
  ms_Methods :: "(string \<times> ('c, 'm, 'w) manager_handler) list"

definition StoreManager_ServiceDesc :: "('c, 't, 'w) StoreManagerServer \<Rightarrow> ('c, 't manager_message, 'w) manager_service" where
  "StoreManager_ServiceDesc srv = \<lparr>ms_ServiceName = ''sf.substreams.foundational_store_management.router.v2.StoreManager'',
     ms_Methods = [(''DeployStore'', StoreManager_DeployStore_Handler srv),
       (''UndeployStore'', StoreManager_UndeployStore_Handler srv),
       (''Ping'', StoreManager_Ping_Handler srv)]\<rparr>"

definition Router_ServiceDesc :: "('c, 't, 'w) RouterServer \<Rightarrow> ('c, 't manager_message, 'w) manager_service" where
  "Router_ServiceDesc srv = \<lparr>ms_ServiceName = ''sf.substreams.foundational_store_management.router.v2.Router'',
     ms_Methods = [(''Get'', Router_Get_Handler srv),
       (''GetFirst'', Router_GetFirst_Handler srv)]\<rparr>"

section \<open>Calls over a connection\<close>

text \<open>
  What gRPC documents of \<open>Invoke\<close> on a connection to a server with the service \<open>svc\<close>: the
  reply of the handler of the method comes back, and for a failure an error.
\<close>

definition delivered :: "('q \<Rightarrow> 'm) \<Rightarrow> ('r \<Rightarrow> 'm) \<Rightarrow> ('c, 'm, 'w) manager_service \<Rightarrow> string \<Rightarrow> 'c \<Rightarrow> 'w \<Rightarrow>
    (string \<Rightarrow> 'q \<Rightarrow> error + 'r) \<Rightarrow> bool" where
  "delivered enc rep svc m ctx w invoke \<longleftrightarrow>
     (\<forall>h. map_of (ms_Methods svc) m = Some h \<longrightarrow> (\<forall>req.
        case snd (h ctx (\<lambda>_. Inr (enc req)) None w) of
          Inr msg \<Rightarrow> (\<forall>r. msg = rep r \<longrightarrow> invoke (''/'' @ ms_ServiceName svc @ ''/'' @ m) req = Inr r)
        | Inl f \<Rightarrow> \<exists>e. invoke (''/'' @ ms_ServiceName svc @ ''/'' @ m) req = Inl e))"

lemmas manager_calls = manager_unary_def manager_answer_def StoreManager_ServiceDesc_def Router_ServiceDesc_def
  StoreManager_DeployStore_Handler_def StoreManager_UndeployStore_Handler_def StoreManager_Ping_Handler_def
  Router_Get_Handler_def Router_GetFirst_Handler_def

lemma delivered_method:
  assumes "delivered enc rep svc m ctx w invoke" and "map_of (ms_Methods svc) m = Some h"
    and "snd (h ctx (\<lambda>_. Inr (enc req)) None w) = bind_res x (\<lambda>r. Inr (rep r))"
    and "path = ''/'' @ ms_ServiceName svc @ ''/'' @ m"
  shows "(case invoke path req of Inl e \<Rightarrow> Inl e | Inr out \<Rightarrow> Inr (Some out)) = Inr (Some r) \<longleftrightarrow> x = Inr r"
proof -
  have d: "case snd (h ctx (\<lambda>_. Inr (enc req)) None w) of
      Inr msg \<Rightarrow> (\<forall>r. msg = rep r \<longrightarrow> invoke path req = Inr r) | Inl f \<Rightarrow> \<exists>e. invoke path req = Inl e"
    using assms(1,2) unfolding delivered_def assms(4) by blast
  show ?thesis using d unfolding assms(3) by (cases x) auto
qed

text \<open>The clients call the methods of their names, and get what these return.\<close>

lemma deploy_delivered:
  assumes "delivered Mgr_DeployStoreRequest Mgr_DeployStoreResponse (StoreManager_ServiceDesc srv) ''DeployStore'' ctx w invoke"
  shows "storeManagerClient_DeployStore invoke req = Inr (Some r) \<longleftrightarrow> snd (sm_DeployStore srv ctx req w) = Inr r"
  unfolding storeManagerClient_DeployStore_def
  by (rule delivered_method [OF assms, where h = "StoreManager_DeployStore_Handler srv"]) (simp_all add: manager_calls)

lemma undeploy_delivered:
  assumes "delivered Mgr_UndeployStoreRequest Mgr_UndeployStoreResponse (StoreManager_ServiceDesc srv) ''UndeployStore'' ctx w invoke"
  shows "storeManagerClient_UndeployStore invoke req = Inr (Some r) \<longleftrightarrow> snd (sm_UndeployStore srv ctx req w) = Inr r"
  unfolding storeManagerClient_UndeployStore_def
  by (rule delivered_method [OF assms, where h = "StoreManager_UndeployStore_Handler srv"]) (simp_all add: manager_calls)

lemma ping_delivered:
  assumes "delivered Mgr_PingRequest Mgr_PingResponse (StoreManager_ServiceDesc srv) ''Ping'' ctx w invoke"
  shows "storeManagerClient_Ping invoke req = Inr (Some r) \<longleftrightarrow> snd (sm_Ping srv ctx req w) = Inr r"
  unfolding storeManagerClient_Ping_def
  by (rule delivered_method [OF assms, where h = "StoreManager_Ping_Handler srv"]) (simp_all add: manager_calls)

lemma router_get_delivered:
  assumes "delivered Mgr_GetRequest Mgr_GetResponse (Router_ServiceDesc srv) ''Get'' ctx w invoke"
  shows "routerClient_Get invoke req = Inr (Some r) \<longleftrightarrow> snd (rt_Get srv ctx req w) = Inr r"
  unfolding routerClient_Get_def
  by (rule delivered_method [OF assms, where h = "Router_Get_Handler srv"]) (simp_all add: manager_calls)

lemma router_get_first_delivered:
  assumes "delivered Mgr_GetRequest Mgr_GetResponse (Router_ServiceDesc srv) ''GetFirst'' ctx w invoke"
  shows "routerClient_GetFirst invoke req = Inr (Some r) \<longleftrightarrow> snd (rt_GetFirst srv ctx req w) = Inr r"
  unfolding routerClient_GetFirst_def
  by (rule delivered_method [OF assms, where h = "Router_GetFirst_Handler srv"]) (simp_all add: manager_calls)

lemma ping_not_nil: "storeManagerClient_Ping invoke req \<noteq> Inr None"
  by (simp add: storeManagerClient_Ping_def split: sum.split)

text \<open>C30: the ping of the server, over a connection to a store manager: it is reported as successful
  just when \<open>Ping\<close> of the manager, asked for the module and the network, has answered \<open>pong\<close>;
  it is reported as an error just when \<open>Ping\<close> has failed, as in a manager that does not
  implement it, and the check for a missing response never applies.\<close>

theorem ping_reports_manager:
  assumes "delivered Mgr_PingRequest Mgr_PingResponse (StoreManager_ServiceDesc srv) ''Ping'' ctx w invoke"
  shows "(ping (storeManagerClient_Ping invoke) h n = Ping_Successful \<longleftrightarrow>
      (\<exists>r. snd (sm_Ping srv ctx \<lparr>PingRequest_ModuleOutputHash = h, PingRequest_Network = n\<rparr> w) = Inr r \<and>
         PingResponse_GetCode (Some r) = PingResponse_pong)) \<and>
    ((\<exists>e. ping (storeManagerClient_Ping invoke) h n = Ping_Error e) \<longleftrightarrow>
      (\<exists>f. snd (sm_Ping srv ctx \<lparr>PingRequest_ModuleOutputHash = h, PingRequest_Network = n\<rparr> w) = Inl f)) \<and>
    ping (storeManagerClient_Ping invoke) h n \<noteq> Ping_NilResponse"
proof -
  let ?q = "\<lparr>PingRequest_ModuleOutputHash = h, PingRequest_Network = n\<rparr>"
  have d: "storeManagerClient_Ping invoke ?q = Inr (Some r) \<longleftrightarrow> snd (sm_Ping srv ctx ?q w) = Inr r" for r
    by (rule ping_delivered [OF assms])
  consider (failed) e where "storeManagerClient_Ping invoke ?q = Inl e"
    | (answered) r where "storeManagerClient_Ping invoke ?q = Inr (Some r)"
    using ping_not_nil [of invoke ?q] by (metis option.exhaust sum.exhaust)
  then show ?thesis
  proof cases
    case failed
    then obtain f where "snd (sm_Ping srv ctx ?q w) = Inl f" using d by (cases "snd (sm_Ping srv ctx ?q w)") auto
    then show ?thesis using failed by (simp add: ping_def)
  next
    case answered
    then have "snd (sm_Ping srv ctx ?q w) = Inr r" using d by simp
    then show ?thesis using answered by (simp add: ping_def)
  qed
qed

text \<open>A connection to a manager that implements nothing.\<close>

theorem ping_reports_manager_witness:
  "\<exists>e. ping (storeManagerClient_Ping (\<lambda>m q. Inl (Status ''Unimplemented'' m))) ''h'' ''mainnet'' = Ping_Error e"
proof -
  have "delivered Mgr_PingRequest Mgr_PingResponse
      (StoreManager_ServiceDesc (UnimplementedStoreManagerServer :: (unit, nat, unit) StoreManagerServer)) ''Ping'' () ()
      (\<lambda>m q. Inl (Status ''Unimplemented'' m))"
    by (simp add: delivered_def manager_calls UnimplementedStoreManagerServer_def unimplemented_def)
  from ping_reports_manager [OF this, of "''h''" "''mainnet''"] show ?thesis
    by (simp add: UnimplementedStoreManagerServer_def unimplemented_def)
qed

end
